(* ===== verification/Prelude.thy ===== *)
theory Prelude
  imports Main "HOL-Library.Char_ord" "HOL-Library.List_Lexorder" "HOL-Library.Word" "HOL-Library.Sublist"
begin

text \<open>
  What every component of leafmask shares: the crate's error type and its \<open>Result\<close> alias
  (src/error.rs), the operations of the Rust standard library on strings that the components
  use, the two ordered key-value containers (\<open>BTreeMap\<close> and the insertion-ordered map below a
  BSON document) with the interface \<open>kv_store\<close> their clients rely on, and generic lemmas.

  A Rust \<open>String\<close> is the list of its UTF-8 bytes, one HOL \<open>char\<close> per byte, so that
  \<open>len()\<close>, \<open>as_bytes()\<close>, slicing by byte index and the byte-wise order of \<open>Ord\<close> are the
  list operations; where the source counts or inspects Unicode characters the model decodes
  UTF-8 (\<open>chars_count\<close>, \<open>trim\<close>).
\<close>

named_theorems leaf_simps \<open>equations of the components that their clients unfold\<close>

section \<open>Errors and results\<close>

text \<open>
  The constructors of \<open>Error\<close>, each with its message. \<open>Panicked\<close> is no variant of the source's
  enum: it is the value of a computation that unwinds instead of returning, so that a panic is
  a branch of the model.
\<close>

datatype error =
    ConfigError string
  | ParameterError string
  | TransformError string
  | StorageError string
  | NotFound string
  | RestoreError string
  | SubsetError string
  | ValidationError string
  | MongoError string
  | IoError string
  | Panicked string

type_synonym 'a res = "error + 'a"

text \<open>\<open>Display for Error\<close>: the prefix the command line prints before the message.\<close>

fun error_display :: "error \<Rightarrow> string" where
  "error_display (ConfigError m) = ''config error: '' @ m"
| "error_display (ParameterError m) = ''parameter error: '' @ m"
| "error_display (TransformError m) = ''transform error: '' @ m"
| "error_display (StorageError m) = ''storage error: '' @ m"
| "error_display (NotFound m) = ''not found: '' @ m"
| "error_display (RestoreError m) = ''restore error: '' @ m"
| "error_display (SubsetError m) = ''subset error: '' @ m"
| "error_display (ValidationError m) = ''validation error: '' @ m"
| "error_display (MongoError m) = ''mongodb error: '' @ m"
| "error_display (IoError m) = ''io error: '' @ m"
| "error_display (Panicked m) = ''panicked: '' @ m"

text \<open>\<open>unwrap_or(d)\<close>.\<close>

definition or_else :: "'a option \<Rightarrow> 'a \<Rightarrow> 'a" where
  "or_else o' d = (case o' of None \<Rightarrow> d | Some x \<Rightarrow> x)"

lemma or_else_simps [simp]: "or_else None d = d" "or_else (Some x) d = x"
  by (simp_all add: or_else_def)

text \<open>\<open>opt.ok_or_else(e)\<close>, \<open>res.map_err(f)\<close> and collecting an iterator of results, which stops
  at the first error.\<close>

fun ok_or :: "error \<Rightarrow> 'a option \<Rightarrow> 'a res" where
  "ok_or e None = Inl e"
| "ok_or e (Some x) = Inr x"

fun map_err :: "(error \<Rightarrow> error) \<Rightarrow> 'a res \<Rightarrow> 'a res" where
  "map_err f (Inl e) = Inl (f e)"
| "map_err f (Inr x) = Inr x"

fun collect_res :: "('a \<Rightarrow> 'b res) \<Rightarrow> 'a list \<Rightarrow> 'b list res" where
  "collect_res f [] = Inr []"
| "collect_res f (x # xs) =
     (case f x of
        Inl e \<Rightarrow> Inl e
      | Inr y \<Rightarrow> (case collect_res f xs of Inl e \<Rightarrow> Inl e | Inr ys \<Rightarrow> Inr (y # ys)))"

lemma ok_or_Inr [simp]: "ok_or e o' = Inr x \<longleftrightarrow> o' = Some x"
  by (cases o') auto

lemma ok_or_Inl [simp]: "ok_or e o' = Inl e' \<longleftrightarrow> o' = None \<and> e' = e"
  by (cases o') auto

lemma map_err_Inr [simp]: "map_err f r = Inr x \<longleftrightarrow> r = Inr x"
  by (cases r) auto

lemma map_sum_Inr: "map_sum id f r = Inr y \<longleftrightarrow> (\<exists>x. r = Inr x \<and> y = f x)"
  by (cases r) auto

lemma map_sum_Inl: "map_sum id f r = Inl e \<longleftrightarrow> r = Inl e"
  by (cases r) auto

lemma collect_res_length: "collect_res f xs = Inr ys \<Longrightarrow> length ys = length xs"
  by (induction xs arbitrary: ys) (auto split: sum.splits)

lemma collect_res_Inr_iff:
  "collect_res f xs = Inr ys \<longleftrightarrow> list_all2 (\<lambda>x y. f x = Inr y) xs ys"
proof (induction xs arbitrary: ys)
  case Nil
  then show ?case by auto
next
  case step: (Cons x xs)
  show ?case
  proof (cases "f x")
    case (Inr y)
    show ?thesis
    proof (cases ys)
      case (Cons z zs)
      with Inr step [of zs] show ?thesis
        by (cases "collect_res f xs") auto
    qed (auto split: sum.splits)
  qed (auto simp: list_all2_Cons1)
qed

lemma collect_res_all_Inr:
  "(\<And>x. x \<in> set xs \<Longrightarrow> f x = Inr (g x)) \<Longrightarrow> collect_res f xs = Inr (map g xs)"
  by (induction xs) auto

section \<open>Strings\<close>

text \<open>The apostrophe that quotes names in messages.\<close>

definition sq :: string where
  "sq = [CHR 0x27]"

definition quoted :: "string \<Rightarrow> string" where
  "quoted s = sq @ s @ sq"

fun starts_with :: "string \<Rightarrow> string \<Rightarrow> bool" where
  "starts_with s [] = True"
| "starts_with [] (p # ps) = False"
| "starts_with (c # cs) (p # ps) = (c = p \<and> starts_with cs ps)"

definition ends_with :: "string \<Rightarrow> string \<Rightarrow> bool" where
  "ends_with s p = starts_with (rev s) (rev p)"

lemma starts_with_iff: "starts_with s p \<longleftrightarrow> prefix p s"
  by (induction s p rule: starts_with.induct) auto

lemma ends_with_iff: "ends_with s p \<longleftrightarrow> suffix p s"
  by (simp add: ends_with_def starts_with_iff suffix_to_prefix)

lemma starts_with_append [simp]: "starts_with (p @ s) p"
  by (simp add: starts_with_iff)

text \<open>\<open>s.split(c)\<close>: the pieces between the separators, empty ones included; never empty.\<close>

fun split_on :: "char \<Rightarrow> string \<Rightarrow> string list" where
  "split_on c [] = [[]]"
| "split_on c (x # xs) =
     (if x = c then [] # split_on c xs
      else (case split_on c xs of [] \<Rightarrow> [[x]] | y # ys \<Rightarrow> (x # y) # ys))"

text \<open>\<open>parts.join(sep)\<close>.\<close>

fun join_with :: "string \<Rightarrow> string list \<Rightarrow> string" where
  "join_with sep [] = []"
| "join_with sep [x] = x"
| "join_with sep (x # y # xs) = x @ sep @ join_with sep (y # xs)"

lemma split_on_nonempty [simp]: "split_on c s \<noteq> []"
  by (induction s) (auto split: list.splits)

lemma split_on_no_sep: "c \<notin> set s \<Longrightarrow> split_on c s = [s]"
  by (induction s) auto

lemma split_on_append_sep:
  "c \<notin> set a \<Longrightarrow> split_on c (a @ c # b) = a # split_on c b"
  by (induction a) auto

lemma split_on_no_sep_inside: "p \<in> set (split_on c s) \<Longrightarrow> c \<notin> set p"
  by (induction s arbitrary: p) (auto split: list.splits if_splits)

lemma join_with_Cons: "xs \<noteq> [] \<Longrightarrow> join_with sep (x # xs) = x @ sep @ join_with sep xs"
  by (cases xs) auto

lemma join_with_head_cons:
  "join_with sep ((x # y) # ys) = x # join_with sep (y # ys)"
  by (cases ys) auto

lemma join_split_on: "join_with [c] (split_on c s) = s"
proof (induction s)
  case (Cons x xs)
  show ?case
  proof (cases "x = c")
    case True
    with Cons show ?thesis by (simp add: join_with_Cons)
  next
    case False
    obtain y ys where s: "split_on c xs = y # ys"
      by (meson neq_Nil_conv split_on_nonempty)
    with Cons False show ?thesis by (simp add: join_with_head_cons)
  qed
qed simp

lemma split_on_join:
  "xs \<noteq> [] \<Longrightarrow> \<forall>x \<in> set xs. c \<notin> set x \<Longrightarrow> split_on c (join_with [c] xs) = xs"
proof (induction "[c]" xs rule: join_with.induct)
  case (2 x)
  then show ?case by (simp add: split_on_no_sep)
next
  case (3 x y xs)
  then show ?case by (simp add: split_on_append_sep)
qed simp

text \<open>
  \<open>char::is_whitespace\<close> is the Unicode property White_Space; these are the UTF-8 encodings of
  its 25 characters. \<open>trim\<close> strips them from both ends.
\<close>

definition utf8_ws :: "string list" where
  "utf8_ws =
     [[CHR 0x20], [CHR 0x09], [CHR 0x0A], [CHR 0x0B], [CHR 0x0C], [CHR 0x0D],
      [CHR 0xC2, CHR 0x85], [CHR 0xC2, CHR 0xA0],
      [CHR 0xE1, CHR 0x9A, CHR 0x80],
      [CHR 0xE2, CHR 0x80, CHR 0x80], [CHR 0xE2, CHR 0x80, CHR 0x81],
      [CHR 0xE2, CHR 0x80, CHR 0x82], [CHR 0xE2, CHR 0x80, CHR 0x83],
      [CHR 0xE2, CHR 0x80, CHR 0x84], [CHR 0xE2, CHR 0x80, CHR 0x85],
      [CHR 0xE2, CHR 0x80, CHR 0x86], [CHR 0xE2, CHR 0x80, CHR 0x87],
      [CHR 0xE2, CHR 0x80, CHR 0x88], [CHR 0xE2, CHR 0x80, CHR 0x89],
      [CHR 0xE2, CHR 0x80, CHR 0x8A], [CHR 0xE2, CHR 0x80, CHR 0xA8],
      [CHR 0xE2, CHR 0x80, CHR 0xA9], [CHR 0xE2, CHR 0x80, CHR 0xAF],
      [CHR 0xE2, CHR 0x81, CHR 0x9F], [CHR 0xE3, CHR 0x80, CHR 0x80]]"

fun strip_one :: "string list \<Rightarrow> string \<Rightarrow> string option" where
  "strip_one [] s = None"
| "strip_one (w # ws) s = (if w \<noteq> [] \<and> starts_with s w then Some (drop (length w) s) else strip_one ws s)"

lemma strip_one_shorter: "strip_one ws s = Some t \<Longrightarrow> length t < length s"
  by (induction ws s rule: strip_one.induct)
     (auto simp: starts_with_iff neq_Nil_conv dest!: prefix_length_le split: if_splits)

function trim_by :: "string list \<Rightarrow> string \<Rightarrow> string" where
  "trim_by ws s = (case strip_one ws s of None \<Rightarrow> s | Some t \<Rightarrow> trim_by ws t)"
  by pat_completeness auto
termination
  by (relation "measure (\<lambda>(ws, s). length s)") (auto dest: strip_one_shorter)

declare trim_by.simps [simp del]

definition trim_start :: "string \<Rightarrow> string" where
  "trim_start s = trim_by utf8_ws s"

definition trim_end :: "string \<Rightarrow> string" where
  "trim_end s = rev (trim_by (map rev utf8_ws) (rev s))"

definition trim :: "string \<Rightarrow> string" where
  "trim s = trim_end (trim_start s)"

lemma trim_by_none: "strip_one ws s = None \<Longrightarrow> trim_by ws s = s"
  by (subst trim_by.simps) simp

lemma trim_by_some: "strip_one ws s = Some t \<Longrightarrow> trim_by ws s = trim_by ws t"
  by (subst trim_by.simps) simp

lemma strip_one_no_head:
  "\<forall>w \<in> set ws. w = [] \<or> hd w \<noteq> c \<Longrightarrow> strip_one ws (c # s) = None"
  by (induction ws "c # s" rule: strip_one.induct) (auto simp: starts_with_iff prefix_Cons neq_Nil_conv)

lemma trim_by_stops: "strip_one ws (trim_by ws s) = None"
proof (induction ws s rule: trim_by.induct)
  case (1 ws s)
  then show ?case by (cases "strip_one ws s") (simp_all add: trim_by_none trim_by_some)
qed

text \<open>\<open>s.chars().count()\<close>: every byte but the UTF-8 continuation bytes starts a character.\<close>

definition is_cont_byte :: "char \<Rightarrow> bool" where
  "is_cont_byte c = (128 \<le> (of_char c :: int) \<and> (of_char c :: int) < 192)"

definition chars_count :: "string \<Rightarrow> nat" where
  "chars_count s = length (filter (\<lambda>c. \<not> is_cont_byte c) s)"

text \<open>The first Unicode character of a string, as its UTF-8 bytes (\<open>s.chars().next()\<close>).\<close>

fun first_char :: "string \<Rightarrow> string option" where
  "first_char [] = None"
| "first_char (c # cs) = Some (c # takeWhile is_cont_byte cs)"

text \<open>ASCII classification and \<open>eq_ignore_ascii_case\<close>.\<close>

definition is_digit :: "char \<Rightarrow> bool" where
  "is_digit c = (48 \<le> (of_char c :: int) \<and> (of_char c :: int) \<le> 57)"

definition is_ascii_alpha :: "char \<Rightarrow> bool" where
  "is_ascii_alpha c = (let n = (of_char c :: int) in (65 \<le> n \<and> n \<le> 90) \<or> (97 \<le> n \<and> n \<le> 122))"

definition is_ascii_alnum :: "char \<Rightarrow> bool" where
  "is_ascii_alnum c = (is_digit c \<or> is_ascii_alpha c)"

definition ascii_lower :: "char \<Rightarrow> char" where
  "ascii_lower c = (let n = (of_char c :: int) in if 65 \<le> n \<and> n \<le> 90 then char_of (n + 32) else c)"

definition eq_ignore_ascii_case :: "string \<Rightarrow> string \<Rightarrow> bool" where
  "eq_ignore_ascii_case a b = (map ascii_lower a = map ascii_lower b)"

lemma eq_ignore_ascii_case_refl [simp]: "eq_ignore_ascii_case a a"
  by (simp add: eq_ignore_ascii_case_def)

lemma eq_ignore_ascii_case_sym: "eq_ignore_ascii_case a b \<Longrightarrow> eq_ignore_ascii_case b a"
  by (simp add: eq_ignore_ascii_case_def)

text \<open>\<open>s.split(sep)\<close> for a separator that is not empty; the number counts the bytes of a separator that
  are still to be passed over.\<close>

fun split_str :: "string \<Rightarrow> nat \<Rightarrow> string \<Rightarrow> string list" where
  "split_str sep k [] = [[]]"
| "split_str sep (Suc k) (c # cs) = split_str sep k cs"
| "split_str sep 0 (c # cs) =
     (if starts_with (c # cs) sep then [] # split_str sep (length sep - 1) cs
      else (case split_str sep 0 cs of [] \<Rightarrow> [[c]] | p # ps \<Rightarrow> (c # p) # ps))"

text \<open>A text that neither starts nor ends with the bytes of a space stays as it is.\<close>

lemma trim_id:
  assumes "s \<noteq> []" "\<forall>w \<in> set utf8_ws. hd w \<noteq> hd s" "\<forall>w \<in> set utf8_ws. last w \<noteq> last s"
  shows "trim s = s"
proof -
  have "strip_one utf8_ws (hd s # tl s) = None" using assms(2) by (intro strip_one_no_head) simp
  then have "trim_start s = s" using assms(1) by (simp add: trim_start_def trim_by_none)
  moreover have "\<forall>w \<in> set (map rev utf8_ws). w = [] \<or> hd w \<noteq> last s"
    using assms(3) by (auto simp: hd_rev)
  then have "strip_one (map rev utf8_ws) (last s # tl (rev s)) = None" by (rule strip_one_no_head)
  then have "strip_one (map rev utf8_ws) (rev s) = None"
    using assms(1) by (cases s rule: rev_cases) simp_all
  ultimately show ?thesis by (simp add: trim_def trim_end_def trim_by_none)
qed

text \<open>\<open>s.split_whitespace().next()\<close>.\<close>

fun until_ws :: "string \<Rightarrow> string" where
  "until_ws [] = []"
| "until_ws (c # cs) = (if strip_one utf8_ws (c # cs) = None then c # until_ws cs else [])"

definition first_word :: "string \<Rightarrow> string option" where
  "first_word s = (let t = trim_start s in if t = [] then None else Some (until_ws t))"

section \<open>Numbers in decimal\<close>

fun show_uint :: "int \<Rightarrow> string" where
  "show_uint n =
     (if n < 10 then [char_of (48 + n)] else show_uint (n div 10) @ [char_of (48 + n mod 10)])"

declare show_uint.simps [simp del]

definition show_int :: "int \<Rightarrow> string" where
  "show_int i = (if i < 0 then CHR ''-'' # show_uint (- i) else show_uint i)"

definition show_nat :: "nat \<Rightarrow> string" where
  "show_nat n = show_uint (int n)"

definition digit_val :: "char \<Rightarrow> int" where
  "digit_val c = of_char c - 48"

definition digits_val :: "string \<Rightarrow> int" where
  "digits_val s = foldl (\<lambda>n c. 10 * n + digit_val c) 0 s"

text \<open>\<open>str::parse\<close> for the integer types: an optional sign, then at least one digit and nothing
  else; a value outside the type's range is an error.\<close>

definition parse_int :: "string \<Rightarrow> int option" where
  "parse_int s =
     (let (neg, ds) = (case s of
          [] \<Rightarrow> (False, [])
        | c # cs \<Rightarrow> if c = CHR ''-'' then (True, cs) else if c = CHR ''+'' then (False, cs) else (False, s))
      in if ds = [] \<or> \<not> list_all is_digit ds then None
         else Some (if neg then - digits_val ds else digits_val ds))"

definition parse_i64 :: "string \<Rightarrow> 64 word option" where
  "parse_i64 s = (case parse_int s of
       None \<Rightarrow> None
     | Some i \<Rightarrow> if - (2 ^ 63) \<le> i \<and> i < 2 ^ 63 then Some (word_of_int i) else None)"

text \<open>\<open>parse\<close> to an unsigned type of the given width, which accepts no minus sign.\<close>

definition parse_unsigned :: "nat \<Rightarrow> string \<Rightarrow> nat option" where
  "parse_unsigned w s =
     (if starts_with s ''-'' then None
      else (case parse_int s of
              None \<Rightarrow> None
            | Some i \<Rightarrow> if i < 2 ^ w then Some (nat i) else None))"

lemma of_char_of_small: "0 \<le> n \<Longrightarrow> n < 256 \<Longrightarrow> (of_char (char_of n) :: int) = n" for n :: int
  by simp

lemma is_digit_show: "0 \<le> n \<Longrightarrow> n < 10 \<Longrightarrow> is_digit (char_of (48 + n))" for n :: int
  by (simp add: is_digit_def)

lemma digit_val_show: "0 \<le> n \<Longrightarrow> n < 10 \<Longrightarrow> digit_val (char_of (48 + n)) = n"
  by (simp add: digit_val_def)

lemma show_uint_digits: "0 \<le> n \<Longrightarrow> list_all is_digit (show_uint n)"
proof (induction n rule: show_uint.induct)
  case (1 n)
  then show ?case
    by (subst show_uint.simps) (auto simp: is_digit_show)
qed

lemma show_uint_nonempty [simp]: "show_uint n \<noteq> []"
  by (subst show_uint.simps) simp

lemma digits_val_snoc: "digits_val (s @ [c]) = 10 * digits_val s + digit_val c"
  by (simp add: digits_val_def)

lemma digits_val_show_uint: "0 \<le> n \<Longrightarrow> digits_val (show_uint n) = n"
proof (induction n rule: show_uint.induct)
  case (1 n)
  show ?case
  proof (cases "n < 10")
    case True
    with 1 show ?thesis
      by (subst show_uint.simps) (simp add: digits_val_def digit_val_show)
  next
    case False
    with 1 show ?thesis
      by (subst show_uint.simps) (simp add: digits_val_snoc digit_val_show)
  qed
qed

lemma show_nat_inject [simp]: "show_nat m = show_nat n \<longleftrightarrow> m = n"
  by (metis digits_val_show_uint of_nat_0_le_iff of_nat_eq_iff show_nat_def)

section \<open>Ordered containers\<close>

text \<open>
  \<open>BTreeMap<String, V>\<close> is the list of its entries in ascending key order, as its iterators
  yield them: \<open>bt_insert\<close> keeps that order and replaces the value of a present key.
\<close>

fun bt_insert :: "'k::linorder \<Rightarrow> 'v \<Rightarrow> ('k \<times> 'v) list \<Rightarrow> ('k \<times> 'v) list" where
  "bt_insert k v [] = [(k, v)]"
| "bt_insert k v ((k', v') # m) =
     (if k < k' then (k, v) # (k', v') # m
      else if k = k' then (k, v) # m
      else (k', v') # bt_insert k v m)"

text \<open>
  The insertion-ordered map below a BSON document: a present key keeps its position and gets
  the new value, a new key goes to the end.
\<close>

fun ix_insert :: "'k \<Rightarrow> 'v \<Rightarrow> ('k \<times> 'v) list \<Rightarrow> ('k \<times> 'v) list" where
  "ix_insert k v [] = [(k, v)]"
| "ix_insert k v ((k', v') # m) = (if k = k' then (k', v) # m else (k', v') # ix_insert k v m)"

definition kv_get :: "'k \<Rightarrow> ('k \<times> 'v) list \<Rightarrow> 'v option" where
  "kv_get k m = map_of m k"

definition keys_of :: "('k \<times> 'v) list \<Rightarrow> 'k list" where
  "keys_of m = map fst m"

text \<open>\<open>map.entry(k).or_default().push(x)\<close> on a map of lists.\<close>

definition bt_push :: "'k::linorder \<Rightarrow> 'v \<Rightarrow> ('k \<times> 'v list) list \<Rightarrow> ('k \<times> 'v list) list" where
  "bt_push k x m = bt_insert k ((case kv_get k m of None \<Rightarrow> [] | Some xs \<Rightarrow> xs) @ [x]) m"

text \<open>
  The interface both containers provide and the components rely on: what a lookup returns after
  an insert, and which keys are there.
\<close>

locale kv_store =
  fixes ins :: "'k \<Rightarrow> 'v \<Rightarrow> ('k \<times> 'v) list \<Rightarrow> ('k \<times> 'v) list"
  assumes get_ins: "kv_get k' (ins k v m) = (if k' = k then Some v else kv_get k' m)"
begin

lemma get_ins_same: "kv_get k (ins k v m) = Some v"
  by (simp add: get_ins)

lemma get_ins_other: "k' \<noteq> k \<Longrightarrow> kv_get k' (ins k v m) = kv_get k' m"
  by (simp add: get_ins)

lemma keys_ins: "set (keys_of (ins k v m)) = insert k (set (keys_of m))"
proof -
  have "\<And>k'. k' \<in> set (keys_of (ins k v m)) \<longleftrightarrow> kv_get k' (ins k v m) \<noteq> None"
    by (simp add: kv_get_def keys_of_def map_of_eq_None_iff)
  moreover have "\<And>k'. k' \<in> set (keys_of m) \<longleftrightarrow> kv_get k' m \<noteq> None"
    by (simp add: kv_get_def keys_of_def map_of_eq_None_iff)
  ultimately show ?thesis
    by (auto simp: get_ins split: if_splits)
qed

text \<open>A loop of inserts: the last value given for a key wins, other keys keep theirs.\<close>

lemma get_fold_ins:
  "kv_get k (foldl (\<lambda>m x. ins (key x) (val x) m) m xs) =
     (case filter (\<lambda>x. key x = k) xs of [] \<Rightarrow> kv_get k m | ys \<Rightarrow> Some (val (last ys)))"
proof (induction xs rule: rev_induct)
  case (snoc x xs)
  then show ?case
    by (cases "filter (\<lambda>x. key x = k) xs") (auto simp: get_ins)
qed simp

end

lemma kv_get_Nil [simp]: "kv_get k [] = None"
  by (simp add: kv_get_def)

lemma kv_get_Cons [simp]: "kv_get k ((k', v) # m) = (if k = k' then Some v else kv_get k m)"
  by (simp add: kv_get_def)

lemma bt_get_insert: "kv_get k' (bt_insert k v m) = (if k' = k then Some v else kv_get k' m)"
  by (induction m) auto

lemma ix_get_insert: "kv_get k' (ix_insert k v m) = (if k' = k then Some v else kv_get k' m)"
  by (induction m) auto

interpretation bt: kv_store "bt_insert"
  by unfold_locales (rule bt_get_insert)

interpretation ix: kv_store "ix_insert"
  by unfold_locales (rule ix_get_insert)

text \<open>The order invariant of a \<open>BTreeMap\<close>.\<close>

definition bt_sorted :: "('k::linorder \<times> 'v) list \<Rightarrow> bool" where
  "bt_sorted m = sorted_wrt (<) (map fst m)"

lemma bt_sorted_Nil [simp]: "bt_sorted []"
  by (simp add: bt_sorted_def)

lemma bt_insert_keys: "set (map fst (bt_insert k v m)) = insert k (set (map fst m))"
  using bt.keys_ins by (simp add: keys_of_def)

lemma bt_sorted_insert: "bt_sorted m \<Longrightarrow> bt_sorted (bt_insert k v m)"
proof (induction m)
  case (Cons p m)
  obtain k' v' where p: "p = (k', v')" by (cases p)
  from Cons show ?case
    using bt_insert_keys [of k v m] by (auto simp: bt_sorted_def p)
qed (simp add: bt_sorted_def)

lemma bt_sorted_distinct: "bt_sorted m \<Longrightarrow> distinct (map fst m)"
  by (simp add: bt_sorted_def strict_sorted_iff)

text \<open>In an insertion-ordered map the keys keep their places.\<close>

lemma ix_insert_keys:
  "map fst (ix_insert k v m) = (if k \<in> set (map fst m) then map fst m else map fst m @ [k])"
  by (induction m) (auto split: if_splits)

lemma ix_insert_distinct: "distinct (map fst m) \<Longrightarrow> distinct (map fst (ix_insert k v m))"
  by (auto simp: ix_insert_keys)

lemma kv_get_in: "kv_get k m = Some v \<Longrightarrow> (k, v) \<in> set m"
  by (simp add: kv_get_def map_of_SomeD)

lemma kv_get_None: "kv_get k m = None \<longleftrightarrow> k \<notin> set (map fst m)"
  by (simp add: kv_get_def map_of_eq_None_iff)

lemma bt_get_push:
  "kv_get k' (bt_push k x m) =
     (if k' = k then Some ((case kv_get k m of None \<Rightarrow> [] | Some xs \<Rightarrow> xs) @ [x]) else kv_get k' m)"
  by (simp add: bt_push_def bt_get_insert)

lemma bt_sorted_push: "bt_sorted m \<Longrightarrow> bt_sorted (bt_push k x m)"
  by (simp add: bt_push_def bt_sorted_insert)

section \<open>Lists\<close>

text \<open>\<open>iter.find(p)\<close>, \<open>Vec::dedup\<close> and stable sorting by a key are \<open>find\<close>, \<open>remdups_adj\<close> and
  \<open>sort_key\<close>; \<open>sort_by\<close> in descending key order is \<open>sort_desc\<close>.\<close>

fun insert_desc :: "('a \<Rightarrow> 'b::linorder) \<Rightarrow> 'a \<Rightarrow> 'a list \<Rightarrow> 'a list" where
  "insert_desc f x [] = [x]"
| "insert_desc f x (y # ys) = (if f y \<le> f x then x # y # ys else y # insert_desc f x ys)"

definition sort_desc :: "('a \<Rightarrow> 'b::linorder) \<Rightarrow> 'a list \<Rightarrow> 'a list" where
  "sort_desc f xs = foldr (insert_desc f) xs []"

lemma set_insert_desc [simp]: "set (insert_desc f x ys) = insert x (set ys)"
  by (induction ys) auto

lemma set_sort_desc [simp]: "set (sort_desc f xs) = set xs"
  by (induction xs) (auto simp: sort_desc_def)

lemma length_insert_desc [simp]: "length (insert_desc f x ys) = Suc (length ys)"
  by (induction ys) auto

lemma length_sort_desc [simp]: "length (sort_desc f xs) = length xs"
  by (induction xs) (auto simp: sort_desc_def)

lemma sorted_insert_desc:
  "sorted_wrt (\<lambda>a b. f b \<le> f a) ys \<Longrightarrow> sorted_wrt (\<lambda>a b. f b \<le> f a) (insert_desc f x ys)"
  by (induction ys) (auto intro: order_trans)

lemma sorted_sort_desc: "sorted_wrt (\<lambda>a b. f b \<le> f a) (sort_desc f xs)"
  by (induction xs) (auto simp: sort_desc_def intro: sorted_insert_desc)

text \<open>Equal keys keep their order: the sort is stable.\<close>

lemma insert_desc_filter:
  "filter (\<lambda>y. f y = k) (insert_desc f x ys) =
     (if f x = k then x # filter (\<lambda>y. f y = k) ys else filter (\<lambda>y. f y = k) ys)"
  if "sorted_wrt (\<lambda>a b. f b \<le> f a) ys"
  using that
proof (induction ys)
  case (Cons y ys)
  show ?case
  proof (cases "f y \<le> f x")
    case False
    then have "f x = k \<Longrightarrow> filter (\<lambda>y. f y = k) (y # ys) = filter (\<lambda>y. f y = k) ys" by auto
    with Cons False show ?thesis by auto
  qed auto
qed simp

lemma sort_desc_stable: "filter (\<lambda>y. f y = k) (sort_desc f xs) = filter (\<lambda>y. f y = k) xs"
proof (induction xs)
  case (Cons x xs)
  have "sorted_wrt (\<lambda>a b. f b \<le> f a) (foldr (insert_desc f) xs [])"
    using sorted_sort_desc [of f xs] by (simp add: sort_desc_def)
  with Cons show ?case by (auto simp: sort_desc_def insert_desc_filter)
qed (simp add: sort_desc_def)

end
