(* ===== verification/F64.thy ===== *)
theory F64
  imports Prelude
begin

text \<open>
  The IEEE 754 binary64 arithmetic behind Rust's \<open>f64\<close>, as far as leafmask uses it: a value is
  its 64-bit pattern (what \<open>to_be_bytes\<close> yields), comparisons read the pattern, and every
  arithmetic operation is the exact rational result rounded once, to nearest with ties to even
  (\<open>f64_of_ratio\<close>). NaN results are the one quiet NaN. Also the conversions from and to
  integers and \<open>str::parse::<f64>()\<close>.
\<close>

type_synonym f64 = "64 word"

section \<open>The fields of a bit pattern\<close>

definition f64_neg :: "f64 \<Rightarrow> bool" where
  "f64_neg w = (2 ^ 63 \<le> uint w)"

definition f64_exp :: "f64 \<Rightarrow> int" where
  "f64_exp w = uint w div 2 ^ 52 mod 2048"

definition f64_frac :: "f64 \<Rightarrow> int" where
  "f64_frac w = uint w mod 2 ^ 52"

definition f64_nan :: f64 where
  "f64_nan = 0x7FF8000000000000"

definition f64_inf :: "bool \<Rightarrow> f64" where
  "f64_inf s = (if s then 0xFFF0000000000000 else 0x7FF0000000000000)"

definition f64_zero :: "bool \<Rightarrow> f64" where
  "f64_zero s = (if s then 0x8000000000000000 else 0)"

definition is_nan :: "f64 \<Rightarrow> bool" where
  "is_nan w = (f64_exp w = 2047 \<and> f64_frac w \<noteq> 0)"

definition is_inf :: "f64 \<Rightarrow> bool" where
  "is_inf w = (f64_exp w = 2047 \<and> f64_frac w = 0)"

definition is_zero :: "f64 \<Rightarrow> bool" where
  "is_zero w = (f64_exp w = 0 \<and> f64_frac w = 0)"

text \<open>A finite value is \<open>(-1)^neg * mant * 2^(pow - 1075)\<close>.\<close>

definition f64_mant :: "f64 \<Rightarrow> int" where
  "f64_mant w = (if f64_exp w = 0 then f64_frac w else f64_frac w + 2 ^ 52)"

definition f64_pow :: "f64 \<Rightarrow> int" where
  "f64_pow w = max 1 (f64_exp w)"

section \<open>Comparisons\<close>

text \<open>On values other than NaN the order is that of the sign-magnitude integer of the pattern;
  the two zeros get the same key. Every comparison with a NaN is false.\<close>

definition f64_key :: "f64 \<Rightarrow> int" where
  "f64_key w = (if f64_neg w then - (uint w mod 2 ^ 63) else uint w mod 2 ^ 63)"

definition f64_eq :: "f64 \<Rightarrow> f64 \<Rightarrow> bool" where
  "f64_eq a b = (\<not> is_nan a \<and> \<not> is_nan b \<and> f64_key a = f64_key b)"

definition f64_lt :: "f64 \<Rightarrow> f64 \<Rightarrow> bool" where
  "f64_lt a b = (\<not> is_nan a \<and> \<not> is_nan b \<and> f64_key a < f64_key b)"

definition f64_le :: "f64 \<Rightarrow> f64 \<Rightarrow> bool" where
  "f64_le a b = (\<not> is_nan a \<and> \<not> is_nan b \<and> f64_key a \<le> f64_key b)"

lemma f64_eq_sym: "f64_eq a b = f64_eq b a"
  by (auto simp: f64_eq_def)

lemma f64_eq_refl: "f64_eq a a \<longleftrightarrow> \<not> is_nan a"
  by (auto simp: f64_eq_def)

lemma f64_le_lt_eq: "f64_le a b \<longleftrightarrow> f64_lt a b \<or> f64_eq a b"
  by (auto simp: f64_le_def f64_lt_def f64_eq_def)

section \<open>Rounding\<close>

fun ilog2 :: "int \<Rightarrow> int" where
  "ilog2 n = (if n < 2 then 0 else 1 + ilog2 (n div 2))"

declare ilog2.simps [simp del]

text \<open>The quotient \<open>n / d\<close> rounded to an integer, ties to even.\<close>

definition round_even :: "int \<Rightarrow> int \<Rightarrow> int" where
  "round_even n d =
     (let q = n div d; r = n mod d
      in if 2 * r < d then q else if d < 2 * r then q + 1 else if even q then q else q + 1)"

text \<open>
  The binary64 pattern nearest to \<open>n / d\<close> (\<open>n \<ge> 0\<close>, \<open>d > 0\<close>): \<open>p\<close> is the biased exponent for
  which \<open>n / d * 2^(1075 - p)\<close> has 53 bits, at least 1 (the subnormal range). Adding the rounded
  significand to \<open>(p - 1) * 2^52\<close> carries into the exponent where the rounding overflows.
\<close>

definition pow2 :: "int \<Rightarrow> int" where
  "pow2 e = 2 ^ nat e"

definition ratio_pow :: "int \<Rightarrow> int \<Rightarrow> int" where
  "ratio_pow n d =
     (let e = ilog2 n - ilog2 d;
          lo = (if e \<ge> 0 then d * pow2 e \<le> n else d \<le> n * pow2 (- e));
          f = (if lo then e else e - 1)
      in max 1 (f + 1023))"

definition f64_of_ratio :: "bool \<Rightarrow> int \<Rightarrow> int \<Rightarrow> f64" where
  "f64_of_ratio s n d =
     (if n = 0 then f64_zero s
      else let p = ratio_pow n d;
               q = (if p \<le> 1075 then round_even (n * pow2 (1075 - p)) d
                    else round_even n (d * pow2 (p - 1075)));
               m = (p - 1) * 2 ^ 52 + q
           in if 2047 * 2 ^ 52 \<le> m then f64_inf s
              else word_of_int (m + (if s then 2 ^ 63 else 0)))"

section \<open>Arithmetic\<close>

definition f64_of_int :: "int \<Rightarrow> f64" where
  "f64_of_int i = f64_of_ratio (i < 0) (\<bar>i\<bar>) 1"

definition f64_neg_of :: "f64 \<Rightarrow> f64" where
  "f64_neg_of w = (if f64_neg w then w - 0x8000000000000000 else w + 0x8000000000000000)"

text \<open>A finite value as an integer multiple of \<open>2^-1074\<close>.\<close>

definition f64_units :: "f64 \<Rightarrow> int" where
  "f64_units w = (if f64_neg w then -1 else 1) * f64_mant w * pow2 (f64_pow w - 1)"

definition f64_add :: "f64 \<Rightarrow> f64 \<Rightarrow> f64" where
  "f64_add a b =
     (if is_nan a \<or> is_nan b then f64_nan
      else if is_inf a then (if is_inf b \<and> f64_neg a \<noteq> f64_neg b then f64_nan else a)
      else if is_inf b then b
      else let n = f64_units a + f64_units b
           in if n = 0 then f64_zero (is_zero a \<and> is_zero b \<and> f64_neg a \<and> f64_neg b)
              else f64_of_ratio (n < 0) (\<bar>n\<bar>) (pow2 1074))"

definition f64_sub :: "f64 \<Rightarrow> f64 \<Rightarrow> f64" where
  "f64_sub a b = (if is_nan b then f64_nan else f64_add a (f64_neg_of b))"

definition f64_mul :: "f64 \<Rightarrow> f64 \<Rightarrow> f64" where
  "f64_mul a b =
     (let s = (f64_neg a \<noteq> f64_neg b)
      in if is_nan a \<or> is_nan b then f64_nan
         else if is_inf a \<or> is_inf b then (if is_zero a \<or> is_zero b then f64_nan else f64_inf s)
         else f64_of_ratio s (f64_mant a * f64_mant b * pow2 (f64_pow a + f64_pow b)) (pow2 2150))"

definition f64_div :: "f64 \<Rightarrow> f64 \<Rightarrow> f64" where
  "f64_div a b =
     (let s = (f64_neg a \<noteq> f64_neg b)
      in if is_nan a \<or> is_nan b \<or> (is_inf a \<and> is_inf b) \<or> (is_zero a \<and> is_zero b) then f64_nan
         else if is_inf a \<or> is_zero b then f64_inf s
         else if is_inf b then f64_zero s
         else f64_of_ratio s (f64_mant a * pow2 (f64_pow a)) (f64_mant b * pow2 (f64_pow b)))"

text \<open>\<open>f64::round\<close>: to the nearest integer, halves away from zero.\<close>

definition f64_round :: "f64 \<Rightarrow> f64" where
  "f64_round w =
     (if is_nan w \<or> is_inf w \<or> 1075 \<le> f64_pow w then w
      else let d = pow2 (1075 - f64_pow w); q = (2 * f64_mant w + d) div (2 * d)
           in f64_of_ratio (f64_neg w) q 1)"

text \<open>\<open>w as i64\<close>: towards zero, saturating; NaN is 0.\<close>

definition f64_trunc :: "f64 \<Rightarrow> int" where
  "f64_trunc w =
     (let m = (if 1075 \<le> f64_pow w then f64_mant w * pow2 (f64_pow w - 1075)
               else f64_mant w div pow2 (1075 - f64_pow w))
      in if f64_neg w then - m else m)"

definition i64_min :: int where "i64_min = - (2 ^ 63)"

definition i64_max :: int where "i64_max = 2 ^ 63 - 1"

definition clamp_i64 :: "int \<Rightarrow> int" where
  "clamp_i64 i = max i64_min (min i64_max i)"

definition f64_to_i64 :: "f64 \<Rightarrow> 64 word" where
  "f64_to_i64 w =
     word_of_int (if is_nan w then 0
                  else if is_inf w then (if f64_neg w then i64_min else i64_max)
                  else clamp_i64 (f64_trunc w))"

lemma clamp_i64_range: "i64_min \<le> clamp_i64 i \<and> clamp_i64 i \<le> i64_max"
  by (simp add: clamp_i64_def i64_min_def i64_max_def)

lemma clamp_i64_id: "i64_min \<le> i \<Longrightarrow> i \<le> i64_max \<Longrightarrow> clamp_i64 i = i"
  by (simp add: clamp_i64_def)

text \<open>A 64-bit pattern read as \<open>i64\<close>, and the pattern of a value in range.\<close>

lemma sint_word_of_int_i64:
  "i64_min \<le> i \<Longrightarrow> i \<le> i64_max \<Longrightarrow> sint (word_of_int i :: 64 word) = i"
  by (simp add: i64_min_def i64_max_def signed_of_int signed_take_bit_int_eq_self)

lemma sint_i64_range: "i64_min \<le> sint (w :: 64 word) \<and> sint w \<le> i64_max"
  using sint_range_size [of w] by (simp add: i64_min_def i64_max_def word_size)

lemma sint_small_i64: "uint (w :: 64 word) < 2 ^ 63 \<Longrightarrow> sint w = uint w"
proof -
  assume small: "uint w < 2 ^ 63"
  have "- (2 ^ 63) \<le> uint w" by (rule order_trans [OF _ uint_ge_0]) simp
  from signed_take_bit_int_eq_self [OF this small] show ?thesis by (simp add: sint_uint)
qed

text \<open>Saturating addition and multiplication of \<open>i64\<close>.\<close>

definition sat_add_i64 :: "64 word \<Rightarrow> 64 word \<Rightarrow> 64 word" where
  "sat_add_i64 a b = word_of_int (clamp_i64 (sint a + sint b))"

definition sat_mul_i64 :: "64 word \<Rightarrow> 64 word \<Rightarrow> 64 word" where
  "sat_mul_i64 a b = word_of_int (clamp_i64 (sint a * sint b))"

lemma sint_sat_add: "sint (sat_add_i64 a b) = clamp_i64 (sint a + sint b)"
  using clamp_i64_range by (simp add: sat_add_i64_def sint_word_of_int_i64)

lemma sint_sat_mul: "sint (sat_mul_i64 a b) = clamp_i64 (sint a * sint b)"
  using clamp_i64_range by (simp add: sat_mul_i64_def sint_word_of_int_i64)

section \<open>Parsing\<close>

text \<open>
  \<open>str::parse::<f64>()\<close>: an optional sign, then \<open>inf\<close>, \<open>infinity\<close> or \<open>nan\<close> in any case, or a
  decimal number with at least one digit around its point and an optional exponent. The value
  is the nearest binary64.
\<close>

definition f64_of_decimal :: "bool \<Rightarrow> int \<Rightarrow> int \<Rightarrow> f64" where
  "f64_of_decimal s n e =
     (if e \<ge> 0 then f64_of_ratio s (n * 10 ^ nat e) 1 else f64_of_ratio s n (10 ^ nat (- e)))"

definition parse_exponent :: "string \<Rightarrow> int option" where
  "parse_exponent s =
     (case s of [] \<Rightarrow> Some 0
      | c # cs \<Rightarrow> if c = CHR ''e'' \<or> c = CHR ''E'' then parse_int cs else None)"

definition parse_decimal :: "bool \<Rightarrow> string \<Rightarrow> f64 option" where
  "parse_decimal neg s =
     (let ip = takeWhile is_digit s; r = dropWhile is_digit s;
          (fp, r') = (case r of
              [] \<Rightarrow> ([], [])
            | c # cs \<Rightarrow> if c = CHR ''.'' then (takeWhile is_digit cs, dropWhile is_digit cs) else ([], r))
      in if ip @ fp = [] then None
         else map_option (\<lambda>e. f64_of_decimal neg (digits_val (ip @ fp)) (e - int (length fp)))
                (parse_exponent r'))"

definition parse_f64 :: "string \<Rightarrow> f64 option" where
  "parse_f64 s =
     (let (neg, t) = (case s of
          [] \<Rightarrow> (False, [])
        | c # cs \<Rightarrow> if c = CHR ''-'' then (True, cs) else if c = CHR ''+'' then (False, cs) else (False, s));
          l = map ascii_lower t
      in if l = ''inf'' \<or> l = ''infinity'' then Some (f64_inf neg)
         else if l = ''nan'' then Some (if neg then f64_neg_of f64_nan else f64_nan)
         else parse_decimal neg t)"

lemma parse_f64_small:
  "parse_f64 ''1.5'' = Some 0x3FF8000000000000" "parse_f64 ''-2'' = Some 0xC000000000000000"
  "parse_f64 ''.'' = None" "parse_f64 ''1e3'' = Some 0x408F400000000000"
  by code_simp+

section \<open>Integers as doubles\<close>

lemma ilog2_bounds: "1 \<le> n \<Longrightarrow> 0 \<le> ilog2 n \<and> 2 ^ nat (ilog2 n) \<le> n \<and> n < 2 * 2 ^ nat (ilog2 n)"
proof (induction n rule: ilog2.induct)
  case (1 n)
  show ?case
  proof (cases "n < 2")
    case True
    with 1(2) have "n = 1" by simp
    then show ?thesis by (simp add: ilog2.simps)
  next
    case False
    then have ih: "0 \<le> ilog2 (n div 2)" "2 ^ nat (ilog2 (n div 2)) \<le> n div 2" "n div 2 < 2 * 2 ^ nat (ilog2 (n div 2))"
      using 1 by simp_all
    have "ilog2 n = 1 + ilog2 (n div 2)" using False by (subst ilog2.simps) simp
    moreover from this ih(1) have pow: "(2 :: int) ^ nat (ilog2 n) = 2 * 2 ^ nat (ilog2 (n div 2))"
      by (simp add: nat_add_distrib)
    have "2 * (n div 2) \<le> n" "n < 2 * (n div 2) + 2" by linarith+
    ultimately show ?thesis unfolding pow using ih by linarith
  qed
qed

text \<open>The pattern of a positive integer below \<open>2^53\<close>.\<close>

definition int_pattern :: "int \<Rightarrow> int" where
  "int_pattern n = (if n = 0 then 0 else (ilog2 n + 1022) * 2 ^ 52 + n * 2 ^ nat (52 - ilog2 n))"

lemma int_pattern_bounds:
  assumes "1 \<le> n" "n < 2 ^ 53"
  shows "(ilog2 n + 1023) * 2 ^ 52 \<le> int_pattern n" "int_pattern n < (ilog2 n + 1024) * 2 ^ 52"
    and "0 \<le> ilog2 n" "ilog2 n \<le> 52"
proof -
  note b = ilog2_bounds [OF assms(1)]
  show e: "0 \<le> ilog2 n" using b by simp
  have "(2 :: int) ^ nat (ilog2 n) < 2 ^ 53" using b assms(2) by linarith
  from power_less_imp_less_exp [OF _ this] have "nat (ilog2 n) < 53" by simp
  then show e52: "ilog2 n \<le> 52" by simp
  have split: "(2 :: int) ^ 52 = 2 ^ nat (ilog2 n) * 2 ^ nat (52 - ilog2 n)"
    using e e52 by (simp add: power_add [symmetric] nat_add_distrib [symmetric])
  have lo: "2 ^ 52 \<le> n * 2 ^ nat (52 - ilog2 n)"
    unfolding split using b by (intro mult_right_mono) auto
  have "n * 2 ^ nat (52 - ilog2 n) < 2 * 2 ^ nat (ilog2 n) * 2 ^ nat (52 - ilog2 n)"
    using b by (intro mult_strict_right_mono) auto
  then have hi: "n * 2 ^ nat (52 - ilog2 n) < 2 * 2 ^ 52" unfolding split by (simp only: mult.assoc)
  show "(ilog2 n + 1023) * 2 ^ 52 \<le> int_pattern n" "int_pattern n < (ilog2 n + 1024) * 2 ^ 52"
    using assms(1) lo hi by (simp_all add: int_pattern_def algebra_simps)
qed

lemma int_pattern_mono:
  assumes "0 \<le> a" "a < b" "b < 2 ^ 53"
  shows "int_pattern a < int_pattern b"
proof (cases "a = 0")
  case True
  with int_pattern_bounds [of b] assms show ?thesis by (simp add: int_pattern_def [of 0])
next
  case False
  then have a: "1 \<le> a" "a < 2 ^ 53" and b: "1 \<le> b" using assms by auto
  note pa = int_pattern_bounds [OF a] and pb = int_pattern_bounds [OF b assms(3)]
  have "ilog2 a \<le> ilog2 b"
  proof (rule ccontr)
    assume "\<not> ilog2 a \<le> ilog2 b"
    then have "Suc (nat (ilog2 b)) \<le> nat (ilog2 a)" using pa(3) pb(3) by linarith
    then have "(2 :: int) ^ Suc (nat (ilog2 b)) \<le> 2 ^ nat (ilog2 a)" by (rule power_increasing) simp
    with ilog2_bounds [OF a(1)] ilog2_bounds [OF b] assms(2) show False by simp
  qed
  then consider "ilog2 a = ilog2 b" | "ilog2 a + 1 \<le> ilog2 b" by linarith
  then show ?thesis
  proof cases
    case 1
    have "a * 2 ^ nat (52 - ilog2 b) < b * 2 ^ nat (52 - ilog2 b)"
      using assms(2) by (intro mult_strict_right_mono) auto
    then show ?thesis using 1 False b by (simp add: int_pattern_def)
  next
    case 2
    then have "(ilog2 a + 1024) * 2 ^ 52 \<le> (ilog2 b + 1023) * 2 ^ 52" by simp
    with pa(2) pb(1) show ?thesis by linarith
  qed
qed

lemma int_pattern_range:
  assumes "0 \<le> n" "n < 2 ^ 53"
  shows "0 \<le> int_pattern n" "int_pattern n < 1076 * 2 ^ 52"
proof -
  have "0 \<le> int_pattern n \<and> int_pattern n < 1076 * 2 ^ 52"
  proof (cases "n = 0")
    case True
    then show ?thesis by (simp add: int_pattern_def)
  next
    case False
    with int_pattern_bounds [of n] assms have b: "(ilog2 n + 1023) * 2 ^ 52 \<le> int_pattern n"
        "int_pattern n < (ilog2 n + 1024) * 2 ^ 52" "0 \<le> ilog2 n" "ilog2 n \<le> 52"
      by simp_all
    have "(ilog2 n + 1024) * 2 ^ 52 \<le> 1076 * 2 ^ 52"
      using b(4) by (intro mult_right_mono) simp_all
    moreover have "0 \<le> (ilog2 n + 1023) * 2 ^ 52" using b(3) by (intro mult_nonneg_nonneg) simp_all
    ultimately show ?thesis using b(1,2) by linarith
  qed
  then show "0 \<le> int_pattern n" "int_pattern n < 1076 * 2 ^ 52" by simp_all
qed

lemma f64_of_ratio_small:
  assumes "0 \<le> n" "n < 2 ^ 53"
  shows "f64_of_ratio s n 1 = word_of_int (int_pattern n + (if s then 2 ^ 63 else 0))"
proof (cases "n = 0")
  case True
  then show ?thesis by (simp add: f64_of_ratio_def f64_zero_def int_pattern_def)
next
  case False
  then have n: "1 \<le> n" using assms by simp
  note b = int_pattern_bounds [OF n assms(2)]
  have "ilog2 1 = 0" by (simp add: ilog2.simps)
  then have p: "ratio_pow n 1 = ilog2 n + 1023"
    using b(3) ilog2_bounds [OF n] by (simp add: ratio_pow_def Let_def pow2_def)
  have "int_pattern n < 2047 * 2 ^ 52"
    using int_pattern_range [OF assms] by simp
  moreover have "round_even k 1 = k" for k by (simp add: round_even_def)
  ultimately show ?thesis
    using False b(4) by (simp add: f64_of_ratio_def p Let_def pow2_def int_pattern_def algebra_simps)
qed

lemma f64_of_int_key:
  assumes "\<bar>i\<bar> < 2 ^ 53"
  shows "f64_key (f64_of_int i) = (if i < 0 then - int_pattern \<bar>i\<bar> else int_pattern \<bar>i\<bar>)"
    and "\<not> is_nan (f64_of_int i)"
proof -
  let ?m = "int_pattern \<bar>i\<bar>"
  have m: "0 \<le> ?m" "?m < 1076 * 2 ^ 52" using int_pattern_range [of "\<bar>i\<bar>"] assms by simp_all
  have w: "f64_of_int i = word_of_int (?m + (if i < 0 then 2 ^ 63 else 0))"
    using f64_of_ratio_small [of "\<bar>i\<bar>"] assms by (simp add: f64_of_int_def)
  have u: "uint (f64_of_int i) = ?m + (if i < 0 then 2 ^ 63 else 0)"
    unfolding w using m by (subst uint_word_of_int_eq) (auto simp: take_bit_eq_mod)
  show "f64_key (f64_of_int i) = (if i < 0 then - ?m else ?m)"
    using m by (auto simp: f64_key_def f64_neg_def u)
  have "f64_exp (f64_of_int i) = ?m div 2 ^ 52"
  proof (cases "i < 0")
    case True
    have "(?m + 2 ^ 63) div 2 ^ 52 = ?m div 2 ^ 52 + 2048" by simp
    moreover have "0 \<le> ?m div 2 ^ 52" "?m div 2 ^ 52 < 1076" using m by auto
    ultimately show ?thesis using True by (simp add: f64_exp_def u)
  next
    case False
    have "0 \<le> ?m div 2 ^ 52" "?m div 2 ^ 52 < 1076" using m by auto
    with False show ?thesis by (simp add: f64_exp_def u)
  qed
  moreover have "?m div 2 ^ 52 < 1076" using m by auto
  ultimately show "\<not> is_nan (f64_of_int i)" by (simp add: is_nan_def)
qed

lemma f64_of_int_mono:
  assumes "\<bar>a\<bar> < 2 ^ 53" "\<bar>b\<bar> < 2 ^ 53" "a < b"
  shows "f64_key (f64_of_int a) < f64_key (f64_of_int b)"
proof -
  have nonneg: "0 \<le> n \<Longrightarrow> 0 \<le> int_pattern n" for n
    using ilog2_bounds [of n] by (cases "n = 0") (auto simp: int_pattern_def)
  have pos: "0 < n \<Longrightarrow> 0 < int_pattern n" for n
    using ilog2_bounds [of n] by (simp add: int_pattern_def add_pos_nonneg)
  consider "a < 0" "b < 0" | "a < 0" "0 \<le> b" | "0 \<le> a" "0 \<le> b" using assms(3) by linarith
  then show ?thesis
  proof cases
    case 1
    with int_pattern_mono [of "- b" "- a"] assms show ?thesis by (simp add: f64_of_int_key)
  next
    case 2
    with pos [of "- a"] nonneg [of b] assms show ?thesis by (simp add: f64_of_int_key)
  next
    case 3
    with int_pattern_mono [of a b] assms show ?thesis by (simp add: f64_of_int_key)
  qed
qed

text \<open>Below \<open>2^53\<close> the conversion is exact: it keeps the order and equality.\<close>

lemma f64_of_int_exact:
  assumes "\<bar>a\<bar> < 2 ^ 53" "\<bar>b\<bar> < 2 ^ 53"
  shows "f64_lt (f64_of_int a) (f64_of_int b) \<longleftrightarrow> a < b" "f64_eq (f64_of_int a) (f64_of_int b) \<longleftrightarrow> a = b"
    "f64_le (f64_of_int a) (f64_of_int b) \<longleftrightarrow> a \<le> b"
  using f64_of_int_mono [OF assms] f64_of_int_mono [OF assms(2,1)] f64_of_int_key(2) assms
  by (cases a b rule: linorder_cases; simp add: f64_lt_def f64_eq_def f64_le_def)+

end
