(* ===== verification/Bson.thy ===== *)
theory Bson
  imports F64
begin

text \<open>
  BSON values and documents as leafmask handles them, the interface to the external crates, and
  the dotted-path access that transform/apply.rs, transform/condition.rs, transform/dynamic.rs,
  subset/database_subsetting.rs and mongo.rs each repeat (\<open>get_path\<close>, \<open>set_path\<close>).
\<close>

type_synonym bytes = "8 word list"
type_synonym i32 = "32 word"
type_synonym i64 = "64 word"

definition string_bytes :: "string \<Rightarrow> bytes" where
  "string_bytes s = map of_char s"

section \<open>Values\<close>

text \<open>
  The variants of \<open>bson::Bson\<close> the source names; \<open>BOther\<close> stands for the remaining ones (regular
  expressions, timestamps, symbols, \<dots>), which every function of the source treats alike in its
  catch-all branch: a tag and the rendering that \<open>Display\<close> gives them.
\<close>

datatype bson =
    BDouble f64
  | BString string
  | BArray "bson list"
  | BDocument "(string \<times> bson) list"
  | BBoolean bool
  | BNull
  | BInt32 i32
  | BInt64 i64
  | BDateTime i64
  | BObjectId bytes
  | BBinary "8 word" bytes
  | BDecimal128 bytes
  | BOther nat string

type_synonym document = "(string \<times> bson) list"

abbreviation doc_get :: "string \<Rightarrow> document \<Rightarrow> bson option" where
  "doc_get \<equiv> kv_get"

abbreviation doc_insert :: "string \<Rightarrow> bson \<Rightarrow> document \<Rightarrow> document" where
  "doc_insert \<equiv> ix_insert"

fun as_document :: "bson \<Rightarrow> document option" where
  "as_document (BDocument d) = Some d"
| "as_document _ = None"

fun as_str :: "bson \<Rightarrow> string option" where
  "as_str (BString s) = Some s"
| "as_str _ = None"

fun as_bool :: "bson \<Rightarrow> bool option" where
  "as_bool (BBoolean b) = Some b"
| "as_bool _ = None"

text \<open>
  \<open>==\<close> on \<open>Bson\<close> is derived: doubles compare as \<open>f64\<close> (NaN differs from itself, the zeros are
  equal), documents compare as maps, whatever the order of their keys.
\<close>

fun bson_pe :: "bson \<Rightarrow> bson \<Rightarrow> bool"
  and bson_pe_list :: "bson list \<Rightarrow> bson list \<Rightarrow> bool"
  and bson_pe_fields :: "(string \<times> bson) list \<Rightarrow> document \<Rightarrow> bool" where
  "bson_pe (BDouble x) b = (case b of BDouble y \<Rightarrow> f64_eq x y | _ \<Rightarrow> False)"
| "bson_pe (BArray xs) b = (case b of BArray ys \<Rightarrow> bson_pe_list xs ys | _ \<Rightarrow> False)"
| "bson_pe (BDocument d) b =
     (case b of BDocument e \<Rightarrow> length d = length e \<and> bson_pe_fields d e | _ \<Rightarrow> False)"
| "bson_pe a b = (a = b)"
| "bson_pe_list [] ys = (ys = [])"
| "bson_pe_list (x # xs) ys = (case ys of [] \<Rightarrow> False | y # ys' \<Rightarrow> bson_pe x y \<and> bson_pe_list xs ys')"
| "bson_pe_fields [] e = True"
| "bson_pe_fields ((k, v) # d) e =
     ((case kv_get k e of None \<Rightarrow> False | Some w \<Rightarrow> bson_pe v w) \<and> bson_pe_fields d e)"

text \<open>On scalars other than doubles \<open>==\<close> is equality.\<close>

fun plain_scalar :: "bson \<Rightarrow> bool" where
  "plain_scalar (BDouble x) = False"
| "plain_scalar (BArray xs) = False"
| "plain_scalar (BDocument d) = False"
| "plain_scalar _ = True"

lemma bson_pe_plain: "plain_scalar a \<Longrightarrow> bson_pe a b \<longleftrightarrow> a = b"
  by (cases a) auto

lemma bson_pe_plain_right: "plain_scalar b \<Longrightarrow> bson_pe a b \<longleftrightarrow> a = b"
  by (cases a; cases b) auto

section \<open>External code\<close>

text \<open>
  What leafmask calls in other crates (and the Unicode tables behind \<open>char::is_alphanumeric\<close>
  outside ASCII) is a parameter of the model: one record of functions, passed to the definitions
  that use it.
    \<^item> \<open>x_sha256\<close>: the SHA-256 of a byte string (crate sha2), 32 bytes as a 256-bit word;
    \<^item> \<open>x_bson_display\<close>: \<open>Display for Bson\<close>, and \<open>x_doc_debug\<close>: \<open>Debug for Document\<close> (crate bson);
    \<^item> \<open>x_rfc3339\<close>: \<open>bson::DateTime::parse_rfc3339_str\<close>, in epoch milliseconds;
    \<^item> \<open>x_oid_parse\<close>, \<open>x_dec128_parse\<close>: \<open>ObjectId::parse_str\<close>, \<open>Decimal128::from_str\<close>;
    \<^item> \<open>x_alnum\<close>: \<open>char::is_alphanumeric\<close> of a non-ASCII character, given its UTF-8 bytes;
    \<^item> \<open>x_regex_ok\<close>, \<open>x_regex_replace\<close>: compiling a pattern and \<open>replace_all\<close> (crate regex);
    \<^item> \<open>x_template\<close>: \<open>replace_all\<close> of the placeholder pattern of the template transformers, with a
      function from the captured field name to its replacement (crate regex);
    \<^item> \<open>x_hex\<close>: \<open>hex::encode\<close> (crate hex);
    \<^item> \<open>x_number_display\<close>: the rendering of a non-integer YAML number (crate serde_yaml);
    \<^item> \<open>x_yaml_key\<close>: \<open>serde_yaml::to_string\<close> of a non-string mapping key.
\<close>

datatype ynum = YPosInt "64 word" | YNegInt "64 word" | YFloat f64

datatype yaml =
    YNull
  | YBool bool
  | YNumber ynum
  | YString string
  | YSequence "yaml list"
  | YMapping "(yaml \<times> yaml) list"
  | YTagged string yaml

record ext =
  x_sha256 :: "bytes \<Rightarrow> 256 word"
  x_bson_display :: "bson \<Rightarrow> string"
  x_doc_debug :: "document \<Rightarrow> string"
  x_rfc3339 :: "string \<Rightarrow> i64 option"
  x_oid_parse :: "string \<Rightarrow> bytes option"
  x_dec128_parse :: "string \<Rightarrow> bytes option"
  x_alnum :: "string \<Rightarrow> bool"
  x_regex_ok :: "string \<Rightarrow> bool"
  x_regex_replace :: "string \<Rightarrow> string \<Rightarrow> string \<Rightarrow> string"
  x_template :: "string \<Rightarrow> (string \<Rightarrow> string) \<Rightarrow> string"
  x_hex :: "bytes \<Rightarrow> string"
  x_number_display :: "f64 \<Rightarrow> string"
  x_yaml_key :: "yaml \<Rightarrow> string"

text \<open>A concrete instance, for evaluating the model on examples.\<close>

definition sample_ext :: ext where
  "sample_ext =
     \<lparr>x_sha256 = (\<lambda>bs. word_of_int (sum_list (map uint bs))),
      x_bson_display = (\<lambda>b. case b of BInt64 i \<Rightarrow> show_int (sint i) | BString s \<Rightarrow> s | _ \<Rightarrow> ''?''),
      x_doc_debug = (\<lambda>d. concat (map fst d)),
      x_rfc3339 = (\<lambda>s. None),
      x_oid_parse = (\<lambda>s. if length s = 24 then Some (replicate 12 0) else None),
      x_dec128_parse = (\<lambda>s. None),
      x_alnum = (\<lambda>s. True),
      x_regex_ok = (\<lambda>s. True),
      x_regex_replace = (\<lambda>re s repl. if re = s then repl else s),
      x_template = (\<lambda>t f. t),
      x_hex = (\<lambda>bs. concat (map (\<lambda>b. ''00'') bs)),
      x_number_display = (\<lambda>x. ''0''),
      x_yaml_key = (\<lambda>y. [])\<rparr>"

text \<open>\<open>to_string()\<close> on a \<open>Bson\<close>.\<close>

definition bson_to_string :: "ext \<Rightarrow> bson \<Rightarrow> string" where
  "bson_to_string E b = x_bson_display E b"

section \<open>Dotted paths\<close>

definition dot :: char where
  "dot = CHR ''.''"

fun get_parts :: "document \<Rightarrow> string list \<Rightarrow> bson option" where
  "get_parts d [] = None"
| "get_parts d [p] = kv_get p d"
| "get_parts d (p # q # ps) =
     (case kv_get p d of
        None \<Rightarrow> None
      | Some b \<Rightarrow> (case as_document b of None \<Rightarrow> None | Some c \<Rightarrow> get_parts c (q # ps)))"

definition get_path :: "document \<Rightarrow> string \<Rightarrow> bson option" where
  "get_path d path = get_parts d (split_on dot path)"

text \<open>
  \<open>set_path\<close> splits the path, and for more than one part replaces a non-document under the head by
  an empty document and recurses with the joined rest.
\<close>

definition child_doc :: "string \<Rightarrow> document \<Rightarrow> document" where
  "child_doc k d =
     (case doc_get k d of
        None \<Rightarrow> []
      | Some b \<Rightarrow> (case as_document b of None \<Rightarrow> [] | Some c \<Rightarrow> c))"

lemma join_tl_shorter:
  "length (split_on c s) \<noteq> 1 \<Longrightarrow> length (join_with [c] (tl (split_on c s))) < length s"
proof -
  assume ne: "length (split_on c s) \<noteq> 1"
  obtain x xs where s: "split_on c s = x # xs"
    by (meson neq_Nil_conv split_on_nonempty)
  with ne have "xs \<noteq> []" by auto
  then have "x @ [c] @ join_with [c] xs = s"
    using join_split_on [of c s] by (simp add: s join_with_Cons)
  from arg_cong [where f = length, OF this] show ?thesis by (simp add: s)
qed

function set_path :: "document \<Rightarrow> string \<Rightarrow> bson \<Rightarrow> document" where
  "set_path d path v =
     (let parts = split_on dot path
      in if length parts = 1 then doc_insert (hd parts) v d
         else let head = hd parts;
                  rest = join_with [dot] (tl parts);
                  child = child_doc head d
              in doc_insert head (BDocument (set_path child rest v)) d)"
  by pat_completeness auto
termination
  by (relation "measure (\<lambda>(d, path, v). length path)") (auto simp: join_tl_shorter)

declare set_path.simps [simp del]

fun set_parts :: "document \<Rightarrow> string list \<Rightarrow> bson \<Rightarrow> document" where
  "set_parts d [] v = d"
| "set_parts d [p] v = doc_insert p v d"
| "set_parts d (p # q # ps) v =
     doc_insert p (BDocument (set_parts (child_doc p d) (q # ps) v)) d"

lemma set_path_parts: "set_path d path v = set_parts d (split_on dot path) v"
proof (induction d path v rule: set_path.induct)
  case (1 d path v)
  obtain p ps where s: "split_on dot path = p # ps"
    by (meson neq_Nil_conv split_on_nonempty)
  show ?case
  proof (cases ps)
    case Nil
    then show ?thesis by (subst set_path.simps) (simp add: s)
  next
    case (Cons q qs)
    have "\<forall>x \<in> set ps. dot \<notin> set x"
      using s split_on_no_sep_inside [of _ dot path] by auto
    then have "split_on dot (join_with [dot] ps) = ps"
      using Cons by (intro split_on_join) auto
    moreover have "length (split_on dot path) \<noteq> 1"
      using Cons by (simp add: s)
    ultimately have "set_path (child_doc p d) (join_with [dot] ps) v = set_parts (child_doc p d) ps v"
      using 1 [OF refl _ refl refl refl] by (simp add: s)
    with Cons show ?thesis
      by (subst set_path.simps) (simp add: s)
  qed
qed

lemma get_set_parts_same: "ps \<noteq> [] \<Longrightarrow> get_parts (set_parts d ps v) ps = Some v"
  by (induction d ps v rule: set_parts.induct) (auto simp: ix_get_insert)

lemma get_path_set_path: "get_path (set_path d path v) path = Some v"
  by (simp add: get_path_def set_path_parts get_set_parts_same)

text \<open>Two paths are independent when neither is a prefix of the other.\<close>

definition paths_independent :: "string \<Rightarrow> string \<Rightarrow> bool" where
  "paths_independent p q =
     (\<not> prefix (split_on dot p) (split_on dot q) \<and> \<not> prefix (split_on dot q) (split_on dot p))"

lemma get_parts_Nil [simp]: "get_parts [] qs = None"
  by (cases "([] :: document, qs)" rule: get_parts.cases) auto

lemma get_set_parts_other:
  "ps \<noteq> [] \<Longrightarrow> \<not> prefix ps qs \<Longrightarrow> \<not> prefix qs ps \<Longrightarrow> get_parts (set_parts d ps v) qs = get_parts d qs"
proof (induction d ps v arbitrary: qs rule: set_parts.induct)
  case (2 d p v)
  then show ?case
    by (cases "(d, qs)" rule: get_parts.cases) (auto simp: ix_get_insert)
next
  case (3 d p r ps v)
  show ?case
  proof (cases "(d, qs)" rule: get_parts.cases)
    case (3 d' q q' qs')
    show ?thesis
    proof (cases "q = p")
      case True
      with 3 "3.prems" have "\<not> prefix (r # ps) (q' # qs')" "\<not> prefix (q' # qs') (r # ps)"
        by auto
      note IH = "3.IH" [OF _ this]
      show ?thesis
        using True 3 IH by (auto simp: ix_get_insert child_doc_def split: option.splits)
    qed (use 3 in \<open>auto simp: ix_get_insert\<close>)
  qed (use "3.prems" in \<open>auto simp: ix_get_insert\<close>)
qed simp

lemma get_path_set_path_other:
  "paths_independent p q \<Longrightarrow> get_path (set_path d p v) q = get_path d q"
  by (simp add: paths_independent_def get_path_def set_path_parts get_set_parts_other)

text \<open>A write under a top-level key leaves the other top-level keys alone, in place.\<close>

lemma set_parts_get_other:
  "ps \<noteq> [] \<Longrightarrow> k \<noteq> hd ps \<Longrightarrow> kv_get k (set_parts d ps v) = kv_get k d"
  by (cases "(d, ps, v)" rule: set_parts.cases) (auto simp: ix_get_insert)

lemma set_path_get_other:
  "k \<noteq> hd (split_on dot path) \<Longrightarrow> kv_get k (set_path d path v) = kv_get k d"
  by (simp add: set_path_parts set_parts_get_other)

lemma set_parts_keys:
  "ps \<noteq> [] \<Longrightarrow> map fst (set_parts d ps v) =
     (if hd ps \<in> set (map fst d) then map fst d else map fst d @ [hd ps])"
  by (cases "(d, ps, v)" rule: set_parts.cases) (auto simp: ix_insert_keys)

lemma set_path_keys:
  "map fst (set_path d path v) =
     (let h = hd (split_on dot path) in if h \<in> set (map fst d) then map fst d else map fst d @ [h])"
  by (simp add: set_path_parts set_parts_keys Let_def)

lemma get_path_top: "dot \<notin> set k \<Longrightarrow> get_path d k = kv_get k d"
  by (simp add: get_path_def split_on_no_sep)

end
