(* ===== verification/Config.thy ===== *)
theory Config
  imports Bson
begin

text \<open>
  Configuration (src/config.rs): the case-insensitive parameter bag, the configuration record,
  locating the file, expanding \<open>${VAR}\<close> before parsing, and rejecting unknown keys of the raw
  sections. Parsing YAML itself (serde_yaml) is a parameter of \<open>parse_str\<close>.
\<close>

section \<open>YAML values\<close>

text \<open>\<open>as_str\<close>, \<open>as_bool\<close>, \<open>as_i64\<close>, \<open>as_mapping\<close> look below tags.\<close>

fun untag :: "yaml \<Rightarrow> yaml" where
  "untag (YTagged t v) = untag v"
| "untag v = v"

definition y_as_str :: "yaml \<Rightarrow> string option" where
  "y_as_str v = (case untag v of YString s \<Rightarrow> Some s | _ \<Rightarrow> None)"

definition y_as_bool :: "yaml \<Rightarrow> bool option" where
  "y_as_bool v = (case untag v of YBool b \<Rightarrow> Some b | _ \<Rightarrow> None)"

definition y_as_mapping :: "yaml \<Rightarrow> (yaml \<times> yaml) list option" where
  "y_as_mapping v = (case untag v of YMapping m \<Rightarrow> Some m | _ \<Rightarrow> None)"

fun num_as_i64 :: "ynum \<Rightarrow> i64 option" where
  "num_as_i64 (YPosInt n) = (if uint n < 2 ^ 63 then Some n else None)"
| "num_as_i64 (YNegInt n) = Some n"
| "num_as_i64 (YFloat x) = None"

fun num_as_f64 :: "ynum \<Rightarrow> f64" where
  "num_as_f64 (YPosInt n) = f64_of_int (uint n)"
| "num_as_f64 (YNegInt n) = f64_of_int (sint n)"
| "num_as_f64 (YFloat x) = x"

fun num_to_string :: "ext \<Rightarrow> ynum \<Rightarrow> string" where
  "num_to_string E (YPosInt n) = show_int (uint n)"
| "num_to_string E (YNegInt n) = show_int (sint n)"
| "num_to_string E (YFloat x) = x_number_display E x"

definition y_as_i64 :: "yaml \<Rightarrow> i64 option" where
  "y_as_i64 v = (case untag v of YNumber n \<Rightarrow> num_as_i64 n | _ \<Rightarrow> None)"

section \<open>Parameters\<close>

type_synonym params = "(string \<times> yaml) list"

definition params_get :: "params \<Rightarrow> string \<Rightarrow> yaml option" where
  "params_get p key =
     map_option snd (find (\<lambda>(k, _). eq_ignore_ascii_case k key) p)"

text \<open>\<open>Params::deserialize\<close>: the mapping's entries in order, a non-string key rendered and
  trimmed.\<close>

definition params_of_mapping :: "ext \<Rightarrow> (yaml \<times> yaml) list \<Rightarrow> params" where
  "params_of_mapping E m =
     map (\<lambda>(k, v). (case k of YString s \<Rightarrow> s | other \<Rightarrow> trim (x_yaml_key E other), v)) m"

lemma params_get_case:
  "eq_ignore_ascii_case a b \<Longrightarrow> params_get p a = params_get p b"
  by (simp add: params_get_def eq_ignore_ascii_case_def)

lemma params_get_first:
  "params_get ((k, v) # p) key = (if eq_ignore_ascii_case k key then Some v else params_get p key)"
  by (simp add: params_get_def)

section \<open>The configuration document\<close>

record common_cfg =
  tmp_dir :: "string option"
  cfg_salt :: "string option"

record storage_cfg =
  kind :: "string option"
  st_params :: params

record config =
  common :: common_cfg
  mongo_uri :: "string option"
  storage_section :: storage_cfg
  resolved_warnings :: "string list"
  dump_section :: yaml
  restore_section :: yaml
  custom_transformers :: yaml
  virtual_references :: yaml

definition default_salt :: string where
  "default_salt = ''leafmask''"

definition resolve_salt :: "common_cfg \<Rightarrow> string \<times> bool" where
  "resolve_salt c =
     (case cfg_salt c of
        None \<Rightarrow> (default_salt, True)
      | Some s \<Rightarrow> if s \<noteq> [] then (s, False) else (default_salt, True))"

definition locate :: "string option \<Rightarrow> string option \<Rightarrow> string res" where
  "locate explicit env_var =
     (case explicit of
        Some p \<Rightarrow> Inr p
      | None \<Rightarrow>
          (case env_var of
             Some v \<Rightarrow> if v \<noteq> [] then Inr v
                       else Inl (ConfigError ''no config file: pass --config or set LEAFMASK_CONFIG'')
           | None \<Rightarrow> Inl (ConfigError ''no config file: pass --config or set LEAFMASK_CONFIG'')))"

section \<open>Environment interpolation\<close>

definition is_valid_env_name :: "string \<Rightarrow> bool" where
  "is_valid_env_name name =
     (name \<noteq> [] \<and> list_all (\<lambda>b. is_ascii_alnum b \<or> b = CHR ''_'') name \<and> \<not> is_digit (hd name))"

text \<open>The text before the first closing brace, and the text after it.\<close>

fun split_brace :: "string \<Rightarrow> (string \<times> string) option" where
  "split_brace [] = None"
| "split_brace (c # cs) =
     (if c = CHR ''}'' then Some ([], cs) else map_option (\<lambda>(a, b). (c # a, b)) (split_brace cs))"

lemma split_brace_shorter: "split_brace s = Some (a, b) \<Longrightarrow> length b < length s"
  by (induction s arbitrary: a) (auto split: if_splits)

text \<open>A reference at the front of the text: its variable name and what follows the brace.\<close>

definition env_ref :: "string \<Rightarrow> (string \<times> string) option" where
  "env_ref s =
     (if starts_with s ''${'' then
        (case split_brace (drop 2 s) of
           None \<Rightarrow> None
         | Some (name, rest) \<Rightarrow> if is_valid_env_name name then Some (name, rest) else None)
      else None)"

lemma env_ref_shorter: "env_ref s = Some (name, rest) \<Longrightarrow> length rest < length s"
  by (auto simp: env_ref_def split: if_splits option.splits dest!: split_brace_shorter)

function interpolate_env :: "(string \<Rightarrow> string option) \<Rightarrow> string \<Rightarrow> string" where
  "interpolate_env lookup s =
     (case s of
        [] \<Rightarrow> []
      | c # cs \<Rightarrow>
          (case env_ref s of
             Some (name, rest) \<Rightarrow>
               (case lookup name of None \<Rightarrow> [] | Some v \<Rightarrow> v) @ interpolate_env lookup rest
           | None \<Rightarrow>
               \<comment> \<open>copy the whole UTF-8 character\<close>
               c # takeWhile is_cont_byte cs @ interpolate_env lookup (dropWhile is_cont_byte cs)))"
  by pat_completeness auto
termination
  by (relation "measure (\<lambda>(lookup, s). length s)")
     (auto dest: env_ref_shorter simp: le_imp_less_Suc length_dropWhile_le)

declare interpolate_env.simps [simp del]

section \<open>Unknown keys\<close>

definition dump_keys :: "string list" where
  "dump_keys = [''transformation'', ''subset_conds'', ''include_databases'', ''exclude_databases'',
                ''include_collections'', ''exclude_collections'']"

definition restore_keys :: "string list" where
  "restore_keys = [''insert_error_exclusions'', ''scripts'', ''clean'', ''include_collections'',
                   ''exclude_collections'', ''include_indexes'', ''exclude_indexes'']"

fun check_keys :: "string \<Rightarrow> string list \<Rightarrow> yaml list \<Rightarrow> unit res" where
  "check_keys section known [] = Inr ()"
| "check_keys section known (k # ks) =
     (case y_as_str k of
        None \<Rightarrow> check_keys section known ks
      | Some name \<Rightarrow>
          if name \<in> set known then check_keys section known ks
          else Inl (ConfigError (section @ '': unknown field `'' @ name @ ''`, expected one of '' @
                 join_with '', '' (map (\<lambda>k. ''`'' @ k @ ''`'') known))))"

definition check_section_keys :: "string \<Rightarrow> yaml \<Rightarrow> string list \<Rightarrow> unit res" where
  "check_section_keys section v known =
     (case y_as_mapping v of
        None \<Rightarrow> Inr ()
      | Some m \<Rightarrow> check_keys section known (map fst m))"

text \<open>\<open>parse_str\<close> and \<open>load_str_with_env\<close>, over serde_yaml's typed deserialization.\<close>

definition parse_str :: "(string \<Rightarrow> string + config) \<Rightarrow> string \<Rightarrow> config res" where
  "parse_str from_yaml interpolated =
     (case from_yaml interpolated of
        Inl m \<Rightarrow> Inl (ConfigError m)
      | Inr cfg \<Rightarrow>
          (case check_section_keys ''dump'' (dump_section cfg) dump_keys of
             Inl e \<Rightarrow> Inl e
           | Inr _ \<Rightarrow>
               (case check_section_keys ''restore'' (restore_section cfg) restore_keys of
                  Inl e \<Rightarrow> Inl e
                | Inr _ \<Rightarrow> Inr cfg)))"

definition load_str_with_env ::
    "(string \<Rightarrow> string + config) \<Rightarrow> string \<Rightarrow> (string \<times> string) list \<Rightarrow> config res" where
  "load_str_with_env from_yaml raw env =
     parse_str from_yaml (interpolate_env (\<lambda>name. kv_get name env) raw)"

section \<open>Lemmas\<close>

text \<open>\<open>check_keys\<close> accepts exactly the sections whose string keys are all known.\<close>

definition keys_known :: "string list \<Rightarrow> yaml list \<Rightarrow> bool" where
  "keys_known known ks = list_all (\<lambda>k. case y_as_str k of None \<Rightarrow> True | Some n \<Rightarrow> n \<in> set known) ks"

lemma check_keys_ok: "check_keys section known ks = Inr () \<longleftrightarrow> keys_known known ks"
  by (induction ks) (auto simp: keys_known_def split: option.splits)

lemma check_keys_err: "check_keys section known ks = Inl e \<Longrightarrow> \<exists>m. e = ConfigError m"
  by (induction ks) (auto split: option.splits if_splits)

text \<open>A text without a reference at any position is copied.\<close>

fun no_refs :: "string \<Rightarrow> bool" where
  "no_refs [] = True"
| "no_refs (c # cs) = (env_ref (c # cs) = None \<and> no_refs cs)"

lemma no_refs_dropWhile: "no_refs s \<Longrightarrow> no_refs (dropWhile p s)"
  by (induction s) auto

lemma interpolate_no_refs: "no_refs s \<Longrightarrow> interpolate_env lookup s = s"
proof (induction lookup s rule: interpolate_env.induct)
  case (1 lookup s)
  show ?case
  proof (cases s)
    case (Cons c cs)
    with "1.prems" have none: "env_ref (c # cs) = None" and "no_refs cs" by auto
    then have "interpolate_env lookup (dropWhile is_cont_byte cs) = dropWhile is_cont_byte cs"
      using 1 Cons by (auto intro: no_refs_dropWhile)
    with none Cons show ?thesis by (subst interpolate_env.simps) simp
  qed (subst interpolate_env.simps, simp)
qed

lemma env_ref_dollar: "env_ref s \<noteq> None \<Longrightarrow> \<exists>t. s = CHR ''$'' # CHR ''{'' # t"
  by (cases s; cases "tl s") (auto simp: env_ref_def split: if_splits)

lemma env_ref_none: "CHR ''$'' \<notin> set s \<Longrightarrow> no_refs s"
  by (induction s) (auto dest: env_ref_dollar)

text \<open>A leading character that starts no reference is copied; for ASCII it is one byte.\<close>

lemma interpolate_copy:
  assumes "env_ref (c # cs) = None" and "cs = [] \<or> \<not> is_cont_byte (hd cs)"
  shows "interpolate_env lookup (c # cs) = c # interpolate_env lookup cs"
proof -
  have "takeWhile is_cont_byte cs = []" and "dropWhile is_cont_byte cs = cs"
    using assms(2) by (cases cs; simp)+
  with assms(1) show ?thesis
    by (subst interpolate_env.simps) simp
qed

lemma split_brace_name: "CHR ''}'' \<notin> set name \<Longrightarrow> split_brace (name @ CHR ''}'' # rest) = Some (name, rest)"
  by (induction name) auto

lemma valid_env_name_no_brace: "is_valid_env_name name \<Longrightarrow> CHR ''}'' \<notin> set name"
  by (auto simp: is_valid_env_name_def list_all_iff is_ascii_alnum_def is_digit_def
        is_ascii_alpha_def Let_def)

lemma env_ref_reference:
  "is_valid_env_name name \<Longrightarrow> env_ref (''${'' @ name @ ''}'' @ rest) = Some (name, rest)"
  by (simp add: env_ref_def split_brace_name valid_env_name_no_brace)

lemma interpolate_reference:
  "is_valid_env_name name \<Longrightarrow>
     interpolate_env lookup (''${'' @ name @ ''}'' @ rest) =
       (case lookup name of None \<Rightarrow> [] | Some v \<Rightarrow> v) @ interpolate_env lookup rest"
  by (subst interpolate_env.simps) (simp add: env_ref_reference [simplified])

text \<open>A plain ASCII prefix without \<open>$\<close> is copied whatever follows.\<close>

lemma interpolate_prefix:
  "CHR ''$'' \<notin> set a \<Longrightarrow> list_all (\<lambda>c. \<not> is_cont_byte c) (a @ b) \<Longrightarrow>
     interpolate_env lookup (a @ b) = a @ interpolate_env lookup b"
proof (induction a)
  case (Cons c a)
  have "env_ref (c # a @ b) = None"
    using Cons.prems by (auto simp: env_ref_def)
  moreover have "a @ b = [] \<or> \<not> is_cont_byte (hd (a @ b))"
    using Cons.prems by (cases "a @ b") auto
  ultimately show ?case
    using Cons by (simp add: interpolate_copy)
qed simp

end
