(* ===== verification/Hash.thy ===== *)
theory Hash
  imports Bson
begin

text \<open>
  The deterministic value generator of src/hash.rs: digests of \<open>salt || input\<close>, byte streams of
  any length, and the projections into integers, ranges and indices.
\<close>

section \<open>Bytes of integers\<close>

fun be_bytes :: "nat \<Rightarrow> int \<Rightarrow> bytes" where
  "be_bytes 0 i = []"
| "be_bytes (Suc n) i = be_bytes n (i div 256) @ [word_of_int i]"

definition from_be :: "bytes \<Rightarrow> int" where
  "from_be bs = foldl (\<lambda>a b. a * 256 + uint b) 0 bs"

lemma length_be_bytes [simp]: "length (be_bytes n i) = n"
  by (induction n arbitrary: i) auto

lemma from_be_snoc: "from_be (bs @ [b]) = from_be bs * 256 + uint b"
  by (simp add: from_be_def)

lemma from_be_range: "0 \<le> from_be bs \<and> from_be bs < 256 ^ length bs"
proof (induction bs rule: rev_induct)
  case (snoc b bs)
  have "uint b \<le> 255" using uint_lt2p [of b] by simp
  moreover have "0 \<le> uint b" by simp
  ultimately show ?case using snoc by (auto simp: from_be_snoc)
qed (simp add: from_be_def)

lemma from_be_be_bytes: "0 \<le> i \<Longrightarrow> i < 256 ^ n \<Longrightarrow> from_be (be_bytes n i) = i"
proof (induction n arbitrary: i)
  case (Suc n)
  have "i div 256 < 256 ^ n"
    using Suc.prems by (simp add: div_less_iff_less_mult mult.commute)
  with Suc have "from_be (be_bytes n (i div 256)) = i div 256" by simp
  then show ?case by (simp add: from_be_snoc uint_word_of_int)
qed (simp add: from_be_def)

section \<open>The engine\<close>

record hash_engine =
  salt :: bytes

text \<open>\<open>HashEngine::digest\<close>, \<open>hash_bytes\<close>: the block counter is a \<open>u32\<close>.\<close>

definition digest :: "ext \<Rightarrow> hash_engine \<Rightarrow> bytes \<Rightarrow> bytes" where
  "digest E eng input = be_bytes 32 (uint (x_sha256 E (salt eng @ input)))"

definition hash_block :: "ext \<Rightarrow> hash_engine \<Rightarrow> bytes \<Rightarrow> 32 word \<Rightarrow> bytes" where
  "hash_block E eng input counter =
     be_bytes 32 (uint (x_sha256 E (salt eng @ input @ be_bytes 4 (uint counter))))"

function hash_bytes_loop :: "ext \<Rightarrow> hash_engine \<Rightarrow> bytes \<Rightarrow> nat \<Rightarrow> 32 word \<Rightarrow> bytes \<Rightarrow> bytes" where
  "hash_bytes_loop E eng input n counter out =
     (if length out < n
      then hash_bytes_loop E eng input n (counter + 1) (out @ hash_block E eng input counter)
      else out)"
  by pat_completeness auto
termination
  by (relation "measure (\<lambda>(E, eng, input, n, counter, out). n - length out)")
     (auto simp: hash_block_def)

declare hash_bytes_loop.simps [simp del]

definition hash_bytes :: "ext \<Rightarrow> hash_engine \<Rightarrow> bytes \<Rightarrow> nat \<Rightarrow> bytes" where
  "hash_bytes E eng input n = take n (hash_bytes_loop E eng input n 0 [])"

definition hash_u64 :: "ext \<Rightarrow> hash_engine \<Rightarrow> bytes \<Rightarrow> 64 word" where
  "hash_u64 E eng input = word_of_int (from_be (take 8 (digest E eng input)))"

definition hash_i64 :: "ext \<Rightarrow> hash_engine \<Rightarrow> bytes \<Rightarrow> i64" where
  "hash_i64 E eng input = drop_bit 1 (hash_u64 E eng input)"

text \<open>\<open>ranged_i64\<close> computes in 128 bits, where the width of any \<open>i64\<close> pair fits.\<close>

definition ranged_i64 :: "ext \<Rightarrow> hash_engine \<Rightarrow> bytes \<Rightarrow> i64 \<Rightarrow> i64 \<Rightarrow> i64" where
  "ranged_i64 E eng input lo hi =
     (if sint hi \<le> sint lo then lo
      else let width = sint hi - sint lo + 1;
               r = uint (hash_u64 E eng input) mod width
           in word_of_int (sint lo + r))"

definition index :: "ext \<Rightarrow> hash_engine \<Rightarrow> bytes \<Rightarrow> nat \<Rightarrow> nat" where
  "index E eng input len =
     (if len = 0 then 0 else nat (uint (hash_u64 E eng input) mod int len))"

section \<open>Lengths, ranges and bounds\<close>

lemma length_hash_block [simp]: "length (hash_block E eng input c) = 32"
  by (simp add: hash_block_def)

lemma length_digest [simp]: "length (digest E eng input) = 32"
  by (simp add: digest_def)

text \<open>The loop appends the blocks of consecutive counters; what was there stays in front.\<close>

fun hash_stream :: "ext \<Rightarrow> hash_engine \<Rightarrow> bytes \<Rightarrow> 32 word \<Rightarrow> nat \<Rightarrow> bytes" where
  "hash_stream E eng input c 0 = []"
| "hash_stream E eng input c (Suc k) = hash_block E eng input c @ hash_stream E eng input (c + 1) k"

lemma hash_stream_add:
  "hash_stream E eng input c (j + k) =
     hash_stream E eng input c j @ hash_stream E eng input (c + of_nat j) k"
  by (induction j arbitrary: c) (auto simp: add.assoc)

lemma length_hash_stream [simp]: "length (hash_stream E eng input c k) = 32 * k"
  by (induction k arbitrary: c) auto

lemma hash_bytes_loop_stream:
  "hash_bytes_loop E eng input n c out =
     out @ hash_stream E eng input c ((n - length out + 31) div 32)"
proof (induction E eng input n c out rule: hash_bytes_loop.induct)
  case (1 E eng input n c out)
  show ?case
  proof (cases "length out < n")
    case True
    then have "(n - length out + 31) div 32 = Suc ((n - (length out + 32) + 31) div 32)"
      by (cases "n - length out \<le> 32") (auto simp: div_eq_dividend_iff)
    with 1 True show ?thesis by (subst hash_bytes_loop.simps) simp
  qed (subst hash_bytes_loop.simps, simp)
qed

lemma hash_bytes_stream:
  "hash_bytes E eng input n = take n (hash_stream E eng input 0 ((n + 31) div 32))"
  by (simp add: hash_bytes_def hash_bytes_loop_stream)

lemma length_hash_bytes [simp]: "length (hash_bytes E eng input n) = n"
  by (simp add: hash_bytes_stream)

lemma hash_bytes_take:
  "n \<le> m \<Longrightarrow> take n (hash_bytes E eng input m) = hash_bytes E eng input n"
proof -
  assume le: "n \<le> m"
  then have "(n + 31) div 32 \<le> (m + 31) div 32" by (simp add: div_le_mono)
  then obtain k where k: "(m + 31) div 32 = (n + 31) div 32 + k"
    using le_iff_add by blast
  have "n \<le> 32 * ((n + 31) div 32)" by simp
  with le show ?thesis
    by (simp add: hash_bytes_stream k hash_stream_add min_def)
qed

lemma ranged_i64_width:
  "sint (lo :: i64) \<le> sint (hi :: i64) \<Longrightarrow> i64_min \<le> sint lo \<and> sint hi \<le> i64_max"
  using sint_i64_range [of lo] sint_i64_range [of hi] by simp

lemma ranged_i64_bounds:
  assumes "sint lo \<le> sint hi"
  shows "sint lo \<le> sint (ranged_i64 E eng input lo hi) \<and> sint (ranged_i64 E eng input lo hi) \<le> sint hi"
proof (cases "sint hi \<le> sint lo")
  case True
  with assms show ?thesis by (simp add: ranged_i64_def)
next
  case False
  define r where "r = uint (hash_u64 E eng input) mod (sint hi - sint lo + 1)"
  have "0 < sint hi - sint lo + 1" using False by simp
  then have r: "0 \<le> r" "r < sint hi - sint lo + 1"
    unfolding r_def by (rule pos_mod_sign, rule pos_mod_bound)
  have "sint (word_of_int (sint lo + r) :: i64) = sint lo + r"
    using r ranged_i64_width [OF assms] by (intro sint_word_of_int_i64) auto
  with False r show ?thesis by (simp add: ranged_i64_def r_def [symmetric])
qed

lemma index_bound: "0 < len \<Longrightarrow> index E eng input len < len"
  by (simp add: index_def nat_less_iff)

lemma hash_i64_nonneg: "0 \<le> sint (hash_i64 E eng input)"
proof -
  let ?u = "hash_u64 E eng input"
  have "uint (drop_bit 1 ?u) = uint ?u div 2"
    by (simp add: drop_bit_eq_div uint_div)
  moreover have "uint ?u < 2 ^ 64" using uint_lt2p [of ?u] by simp
  ultimately have "uint (drop_bit 1 ?u) < 2 ^ 63" by simp
  then show ?thesis unfolding hash_i64_def by (simp only: sint_small_i64 uint_ge_0)
qed

end
