(* ===== verification/Toolkit.thy ===== *)
theory Toolkit
  imports Config Hash
begin

text \<open>
  The parameter framework (src/toolkit.rs): declared parameter types, casting YAML and BSON
  values to them, and the static validation of a transformer's configured parameters. Where an
  error message embeds the text of an external crate's error, the model keeps the part the
  source writes.
\<close>

section \<open>Parameter types and definitions\<close>

datatype param_type =
    PString | PInt | PFloat | PBool | PBytes | PObjectId | PDecimal128 | PDateTime | PBinary | PAny

fun type_name :: "param_type \<Rightarrow> string" where
  "type_name PString = ''string''"
| "type_name PInt = ''int''"
| "type_name PFloat = ''float''"
| "type_name PBool = ''bool''"
| "type_name PBytes = ''bytes''"
| "type_name PObjectId = ''objectId''"
| "type_name PDecimal128 = ''decimal128''"
| "type_name PDateTime = ''datetime''"
| "type_name PBinary = ''binary''"
| "type_name PAny = ''any''"

definition from_name :: "string \<Rightarrow> param_type option" where
  "from_name name =
     (if name = ''string'' then Some PString
      else if name = ''int'' then Some PInt
      else if name = ''float'' then Some PFloat
      else if name = ''bool'' then Some PBool
      else if name = ''bytes'' then Some PBytes
      else if name = ''objectId'' then Some PObjectId
      else if name = ''decimal128'' then Some PDecimal128
      else if name = ''datetime'' then Some PDateTime
      else if name = ''binary'' then Some PBinary
      else if name = ''any'' then Some PAny
      else None)"

record param_def =
  pd_name :: string
  pd_kind :: param_type
  pd_required :: bool
  pd_default :: "bson option"
  pd_description :: string

definition required :: "string \<Rightarrow> param_type \<Rightarrow> string \<Rightarrow> param_def" where
  "required name k desc =
     \<lparr>pd_name = name, pd_kind = k, pd_required = True, pd_default = None, pd_description = desc\<rparr>"

definition optional :: "string \<Rightarrow> param_type \<Rightarrow> bson \<Rightarrow> string \<Rightarrow> param_def" where
  "optional name k def desc =
     \<lparr>pd_name = name, pd_kind = k, pd_required = False, pd_default = Some def, pd_description = desc\<rparr>"

section \<open>Casts\<close>

fun to_i64 :: "bson \<Rightarrow> i64 option" where
  "to_i64 (BInt32 v) = Some (word_of_int (sint v))"
| "to_i64 (BInt64 v) = Some v"
| "to_i64 (BDouble v) = Some (f64_to_i64 v)"
| "to_i64 (BString s) = parse_i64 s"
| "to_i64 _ = None"

fun to_f64 :: "bson \<Rightarrow> f64 option" where
  "to_f64 (BInt32 v) = Some (f64_of_int (sint v))"
| "to_f64 (BInt64 v) = Some (f64_of_int (sint v))"
| "to_f64 (BDouble v) = Some v"
| "to_f64 (BString s) = parse_f64 s"
| "to_f64 _ = None"

fun to_hashable_bytes :: "ext \<Rightarrow> bson \<Rightarrow> bytes" where
  "to_hashable_bytes E (BString s) = string_bytes s"
| "to_hashable_bytes E (BInt32 v) = be_bytes 4 (uint v)"
| "to_hashable_bytes E (BInt64 v) = be_bytes 8 (uint v)"
| "to_hashable_bytes E (BDouble v) = be_bytes 8 (uint v)"
| "to_hashable_bytes E (BBoolean v) = [if v then 1 else 0]"
| "to_hashable_bytes E (BObjectId bs) = bs"
| "to_hashable_bytes E (BBinary t bs) = bs"
| "to_hashable_bytes E (BDateTime ms) = be_bytes 8 (uint ms)"
| "to_hashable_bytes E (BDecimal128 bs) = bs"
| "to_hashable_bytes E BNull = []"
| "to_hashable_bytes E b = string_bytes (bson_to_string E b)"

definition scalar_to_string :: "ext \<Rightarrow> yaml \<Rightarrow> string option" where
  "scalar_to_string E v =
     (case v of
        YString s \<Rightarrow> Some s
      | YBool b \<Rightarrow> Some (if b then ''true'' else ''false'')
      | YNumber n \<Rightarrow> Some (num_to_string E n)
      | _ \<Rightarrow> None)"

text \<open>\<open>yaml_to_bson\<close>: a later duplicate key of a mapping replaces the earlier value.\<close>

fun yaml_to_bson :: "ext \<Rightarrow> yaml \<Rightarrow> bson"
  and yaml_to_bsons :: "ext \<Rightarrow> yaml list \<Rightarrow> bson list"
  and yaml_to_doc :: "ext \<Rightarrow> (yaml \<times> yaml) list \<Rightarrow> document \<Rightarrow> document" where
  "yaml_to_bson E YNull = BNull"
| "yaml_to_bson E (YBool b) = BBoolean b"
| "yaml_to_bson E (YNumber n) =
     (case num_as_i64 n of Some i \<Rightarrow> BInt64 i | None \<Rightarrow> BDouble (num_as_f64 n))"
| "yaml_to_bson E (YString s) = BString s"
| "yaml_to_bson E (YSequence vs) = BArray (yaml_to_bsons E vs)"
| "yaml_to_bson E (YMapping m) = BDocument (yaml_to_doc E m [])"
| "yaml_to_bson E (YTagged t v) = yaml_to_bson E v"
| "yaml_to_bsons E [] = []"
| "yaml_to_bsons E (v # vs) = yaml_to_bson E v # yaml_to_bsons E vs"
| "yaml_to_doc E [] d = d"
| "yaml_to_doc E ((k, v) # m) d =
     yaml_to_doc E m
       (doc_insert (case y_as_str k of Some s \<Rightarrow> s | None \<Rightarrow> trim (x_yaml_key E k)) (yaml_to_bson E v) d)"

definition generic_binary :: "string \<Rightarrow> bson" where
  "generic_binary s = BBinary 0 (string_bytes s)"

definition yaml_to_typed :: "ext \<Rightarrow> yaml \<Rightarrow> param_type \<Rightarrow> bson res" where
  "yaml_to_typed E v k =
     (case k of
        PAny \<Rightarrow> Inr (yaml_to_bson E v)
      | PString \<Rightarrow>
          (case y_as_str v of
             Some s \<Rightarrow> Inr (BString s)
           | None \<Rightarrow> map_sum id BString (ok_or (ParameterError ''not a string'') (scalar_to_string E v)))
      | PInt \<Rightarrow>
          (case v of
             YNumber n \<Rightarrow> map_sum id BInt64 (ok_or (ParameterError ''not an integer'') (num_as_i64 n))
           | YString s \<Rightarrow> map_sum id BInt64
               (ok_or (ParameterError (quoted s @ '' is not an integer'')) (parse_i64 s))
           | _ \<Rightarrow> Inl (ParameterError ''not an integer''))
      | PFloat \<Rightarrow>
          (case v of
             YNumber n \<Rightarrow> Inr (BDouble (num_as_f64 n))
           | YString s \<Rightarrow> map_sum id BDouble
               (ok_or (ParameterError (quoted s @ '' is not a float'')) (parse_f64 s))
           | _ \<Rightarrow> Inl (ParameterError ''not a float''))
      | PBool \<Rightarrow> map_sum id BBoolean (ok_or (ParameterError ''not a bool'') (y_as_bool v))
      | PBytes \<Rightarrow> map_sum id generic_binary
          (ok_or (ParameterError ''bytes must be given as a string'') (y_as_str v))
      | PObjectId \<Rightarrow>
          (case y_as_str v of
             None \<Rightarrow> Inl (ParameterError ''objectId must be a hex string'')
           | Some s \<Rightarrow> map_sum id BObjectId (ok_or (ParameterError ''invalid objectId'') (x_oid_parse E s)))
      | PDecimal128 \<Rightarrow>
          (case (case y_as_str v of Some s \<Rightarrow> Some s | None \<Rightarrow> map_option (\<lambda>_. []) (y_as_i64 v)) of
             None \<Rightarrow> Inl (ParameterError ''decimal128 must be a string'')
           | Some s \<Rightarrow>
               let txt = (if s = [] then (case scalar_to_string E v of None \<Rightarrow> [] | Some t \<Rightarrow> t) else s)
               in map_sum id BDecimal128
                    (ok_or (ParameterError ''invalid decimal128'') (x_dec128_parse E txt)))
      | PDateTime \<Rightarrow>
          (case y_as_str v of
             None \<Rightarrow> Inl (ParameterError ''datetime must be an RFC3339 string'')
           | Some s \<Rightarrow> map_sum id BDateTime (ok_or (ParameterError ''invalid datetime'') (x_rfc3339 E s)))
      | PBinary \<Rightarrow> map_sum id generic_binary
          (ok_or (ParameterError ''binary must be given as a string'') (y_as_str v)))"

definition bson_to_typed :: "ext \<Rightarrow> bson \<Rightarrow> param_type \<Rightarrow> bson res" where
  "bson_to_typed E v k =
     (case k of
        PAny \<Rightarrow> Inr v
      | PString \<Rightarrow>
          (case v of
             BString _ \<Rightarrow> Inr v
           | BInt32 _ \<Rightarrow> Inr (BString (bson_to_string E v))
           | BInt64 _ \<Rightarrow> Inr (BString (bson_to_string E v))
           | BDouble _ \<Rightarrow> Inr (BString (bson_to_string E v))
           | BBoolean _ \<Rightarrow> Inr (BString (bson_to_string E v))
           | _ \<Rightarrow> Inl (ParameterError ''value is not a string''))
      | PInt \<Rightarrow> map_sum id BInt64 (ok_or (ParameterError ''value is not an integer'') (to_i64 v))
      | PFloat \<Rightarrow> map_sum id BDouble (ok_or (ParameterError ''value is not a float'') (to_f64 v))
      | PBool \<Rightarrow> map_sum id BBoolean (ok_or (ParameterError ''value is not a bool'') (as_bool v))
      | PObjectId \<Rightarrow>
          (case v of
             BObjectId _ \<Rightarrow> Inr v
           | BString s \<Rightarrow> map_sum id BObjectId
               (ok_or (ParameterError ''invalid objectId'') (x_oid_parse E s))
           | _ \<Rightarrow> Inl (ParameterError ''value is not an objectId''))
      | PDateTime \<Rightarrow>
          (case v of
             BDateTime _ \<Rightarrow> Inr v
           | BString s \<Rightarrow> map_sum id BDateTime
               (ok_or (ParameterError ''invalid datetime'') (x_rfc3339 E s))
           | _ \<Rightarrow> Inl (ParameterError ''value is not a datetime''))
      | PDecimal128 \<Rightarrow>
          (case v of
             BDecimal128 _ \<Rightarrow> Inr v
           | BString s \<Rightarrow> map_sum id BDecimal128
               (ok_or (ParameterError ''invalid decimal128'') (x_dec128_parse E s))
           | _ \<Rightarrow> Inl (ParameterError ''value is not a decimal128''))
      | _ \<Rightarrow>
          (case v of
             BBinary _ _ \<Rightarrow> Inr v
           | BString s \<Rightarrow> Inr (generic_binary s)
           | _ \<Rightarrow> Inl (ParameterError ''value is not binary'')))"

section \<open>Validation\<close>

type_synonym param_values = "(string \<times> bson) list"

definition pv_get :: "param_values \<Rightarrow> string \<Rightarrow> bson option" where
  "pv_get p name = kv_get name p"

definition pv_str :: "param_values \<Rightarrow> string \<Rightarrow> string option" where
  "pv_str p name = Option.bind (kv_get name p) as_str"

definition pv_i64 :: "param_values \<Rightarrow> string \<Rightarrow> i64 option" where
  "pv_i64 p name = Option.bind (kv_get name p) to_i64"

definition pv_f64 :: "param_values \<Rightarrow> string \<Rightarrow> f64 option" where
  "pv_f64 p name = Option.bind (kv_get name p) to_f64"

fun validate_loop :: "ext \<Rightarrow> param_def list \<Rightarrow> params \<Rightarrow> param_values \<Rightarrow> param_values res" where
  "validate_loop E [] provided out = Inr out"
| "validate_loop E (d # defs) provided out =
     (case params_get provided (pd_name d) of
        Some raw \<Rightarrow>
          (case yaml_to_typed E raw (pd_kind d) of
             Inl e \<Rightarrow> Inl (ParameterError (''parameter '' @ quoted (pd_name d) @ '' expects '' @
                        type_name (pd_kind d) @ '': '' @ error_display e))
           | Inr b \<Rightarrow> validate_loop E defs provided (bt_insert (pd_name d) b out))
      | None \<Rightarrow>
          (case pd_default d of
             Some def \<Rightarrow> validate_loop E defs provided (bt_insert (pd_name d) def out)
           | None \<Rightarrow>
               if pd_required d then
                 Inl (ParameterError (''required parameter '' @ quoted (pd_name d) @ '' is missing''))
               else validate_loop E defs provided out))"

definition validate_static :: "ext \<Rightarrow> param_def list \<Rightarrow> params \<Rightarrow> param_values res" where
  "validate_static E defs provided = validate_loop E defs provided []"

section \<open>Lemmas\<close>

lemma from_name_type_name: "from_name (type_name k) = Some k"
  by (cases k) (simp_all add: from_name_def)

lemma type_name_from_name: "from_name s = Some k \<Longrightarrow> type_name k = s"
  by (auto simp: from_name_def split: if_splits)

text \<open>The typing discipline: the variant a value of a declared type has.\<close>

fun has_type :: "param_type \<Rightarrow> bson \<Rightarrow> bool" where
  "has_type PAny b = True"
| "has_type PString b = (\<exists>s. b = BString s)"
| "has_type PInt b = (\<exists>i. b = BInt64 i)"
| "has_type PFloat b = (\<exists>x. b = BDouble x)"
| "has_type PBool b = (\<exists>x. b = BBoolean x)"
| "has_type PObjectId b = (\<exists>x. b = BObjectId x)"
| "has_type PDecimal128 b = (\<exists>x. b = BDecimal128 x)"
| "has_type PDateTime b = (\<exists>x. b = BDateTime x)"
| "has_type PBytes b = (\<exists>t x. b = BBinary t x)"
| "has_type PBinary b = (\<exists>t x. b = BBinary t x)"

lemma map_sum_ok_or [simp]:
  "map_sum id f (ok_or e o') = Inr y \<longleftrightarrow> (\<exists>x. o' = Some x \<and> y = f x)"
  "map_sum id f (ok_or e o') = Inl e' \<longleftrightarrow> o' = None \<and> e' = e"
  by (cases o'; auto)+

lemma yaml_to_typed_has_type: "yaml_to_typed E v k = Inr b \<Longrightarrow> has_type k b"
  by (cases k)
     (auto simp: yaml_to_typed_def generic_binary_def Let_def split: option.splits yaml.splits)

lemma bson_to_typed_has_type: "bson_to_typed E v k = Inr b \<Longrightarrow> has_type k b"
  by (cases k)
     (auto simp: bson_to_typed_def generic_binary_def split: bson.splits)

lemma bson_to_typed_id: "has_type k v \<Longrightarrow> bson_to_typed E v k = Inr v"
  by (cases k) (auto simp: bson_to_typed_def)

text \<open>Casting is idempotent: a cast value is left alone by a second cast.\<close>

lemma bson_to_typed_idem: "bson_to_typed E v k = Inr b \<Longrightarrow> bson_to_typed E b k = Inr b"
  by (rule bson_to_typed_id) (rule bson_to_typed_has_type)

text \<open>What validation promises for one parameter, independent of the loop.\<close>

definition resolve_param :: "ext \<Rightarrow> params \<Rightarrow> param_def \<Rightarrow> bson option" where
  "resolve_param E provided d =
     (case params_get provided (pd_name d) of
        Some raw \<Rightarrow> (case yaml_to_typed E raw (pd_kind d) of Inl e \<Rightarrow> None | Inr b \<Rightarrow> Some b)
      | None \<Rightarrow> pd_default d)"

definition param_ok :: "ext \<Rightarrow> params \<Rightarrow> param_def \<Rightarrow> bool" where
  "param_ok E provided d =
     (case params_get provided (pd_name d) of
        Some raw \<Rightarrow> (case yaml_to_typed E raw (pd_kind d) of Inl e \<Rightarrow> False | Inr b \<Rightarrow> True)
      | None \<Rightarrow> pd_default d \<noteq> None \<or> \<not> pd_required d)"

lemma validate_loop_ok_iff:
  "(\<exists>vs. validate_loop E defs provided out = Inr vs) \<longleftrightarrow> list_all (param_ok E provided) defs"
  by (induction defs arbitrary: out) (auto simp: param_ok_def split: option.splits sum.splits)

lemma validate_loop_get:
  "validate_loop E defs provided out = Inr vs \<Longrightarrow> distinct (map pd_name defs) \<Longrightarrow>
     kv_get n vs =
       (case find (\<lambda>d. pd_name d = n) defs of
          None \<Rightarrow> kv_get n out
        | Some d \<Rightarrow> (case resolve_param E provided d of None \<Rightarrow> kv_get n out | Some b \<Rightarrow> Some b))"
proof (induction defs arbitrary: out)
  case (Cons d defs)
  have nd: "pd_name d = n \<Longrightarrow> find (\<lambda>d. pd_name d = n) defs = None"
    using Cons.prems(2) by (auto simp: find_None_iff) (metis imageI)
  show ?case
  proof (cases "pd_name d = n")
    case True
    with Cons nd show ?thesis
      by (auto simp: resolve_param_def bt_get_insert split: option.splits sum.splits if_splits)
  next
    case False
    with Cons show ?thesis
      by (auto simp: bt_get_insert split: option.splits sum.splits if_splits)
  qed
qed simp

lemma validate_loop_sorted:
  "validate_loop E defs provided out = Inr vs \<Longrightarrow> bt_sorted out \<Longrightarrow> bt_sorted vs"
  by (induction defs arbitrary: out)
     (auto split: option.splits sum.splits if_splits intro: bt_sorted_insert)

lemma resolve_param_has_type:
  "resolve_param E provided d = Some b \<Longrightarrow>
     (\<And>def. pd_default d = Some def \<Longrightarrow> has_type (pd_kind d) def) \<Longrightarrow> has_type (pd_kind d) b"
  by (auto simp: resolve_param_def split: option.splits sum.splits dest: yaml_to_typed_has_type)

end
