(* ===== verification/Condition.thy ===== *)
theory Condition
  imports Toolkit
begin

text \<open>
  The \<open>when\<close> and \<open>subset_conds\<close> expressions (src/transform/condition.rs): splitting at the
  boolean operators outside quotes, finding a comparison operator, literals, the in-memory
  evaluator and the translation to a MongoDB filter.

  A quoted literal is taken by slicing off its first and last byte; on a one-character string
  that is a quote the slice is out of range and the code panics. Evaluation therefore has type
  \<open>bool option\<close> and the translation \<open>document option\<close>, with \<open>None\<close> for the panic; \<open>any\<close> and \<open>all\<close>
  stop at the first decisive element, so a panic behind it does not happen.
\<close>

section \<open>Splitting outside quotes\<close>

definition is_quote :: "char \<Rightarrow> bool" where
  "is_quote c = (c = CHR 0x27 \<or> c = CHR 0x22)"

text \<open>The loop of \<open>split_top\<close>: the remaining text, the open quote, the current piece (reversed).\<close>

function split_top_loop :: "string \<Rightarrow> string \<Rightarrow> char option \<Rightarrow> string \<Rightarrow> string list" where
  "split_top_loop sep s quote cur =
     (case s of
        [] \<Rightarrow> [rev cur]
      | c # cs \<Rightarrow>
          (case quote of
             Some q \<Rightarrow> split_top_loop sep cs (if c = q then None else Some q) (c # cur)
           | None \<Rightarrow>
               if is_quote c then split_top_loop sep cs (Some c) (c # cur)
               else if sep \<noteq> [] \<and> starts_with s sep
               then rev cur # split_top_loop sep (drop (length sep) s) None []
               else split_top_loop sep cs None (c # cur)))"
  by pat_completeness auto
termination
  by (relation "measure (\<lambda>(sep, s, quote, cur). length s)") auto

declare split_top_loop.simps [simp del]

definition split_top :: "string \<Rightarrow> string \<Rightarrow> string list" where
  "split_top expr sep = split_top_loop sep expr None []"

section \<open>Finding an operator\<close>

text \<open>\<open>find_op\<close>: the byte index of the first occurrence outside quotes.\<close>

fun find_op_loop :: "string \<Rightarrow> string \<Rightarrow> char option \<Rightarrow> nat \<Rightarrow> nat option" where
  "find_op_loop op [] quote i = None"
| "find_op_loop op (c # cs) quote i =
     (case quote of
        Some q \<Rightarrow> find_op_loop op cs (if c = q then None else Some q) (Suc i)
      | None \<Rightarrow>
          if is_quote c then find_op_loop op cs (Some c) (Suc i)
          else if starts_with (c # cs) op then Some i
          else find_op_loop op cs None (Suc i))"

definition find_op :: "string \<Rightarrow> string \<Rightarrow> nat option" where
  "find_op term op = find_op_loop op term None 0"

text \<open>\<open>is_alphanumeric\<close> of the character whose UTF-8 bytes are given.\<close>

definition char_alnum :: "ext \<Rightarrow> string \<Rightarrow> bool" where
  "char_alnum E bs =
     (case bs of
        [c] \<Rightarrow> if of_char c < (128 :: int) then is_ascii_alnum c else x_alnum E bs
      | _ \<Rightarrow> x_alnum E bs)"

definition word_char :: "ext \<Rightarrow> string \<Rightarrow> bool" where
  "word_char E bs = (char_alnum E bs \<or> bs = ''_'')"

text \<open>The last character of a text, as its UTF-8 bytes: the bytes from the last start byte on.\<close>

definition last_char :: "string \<Rightarrow> string option" where
  "last_char s =
     (case dropWhile is_cont_byte (rev s) of
        [] \<Rightarrow> None
      | c # _ \<Rightarrow> Some (c # rev (takeWhile is_cont_byte (rev s))))"

text \<open>
  \<open>find_word_op\<close>: like \<open>find_op\<close>, but the characters around the match, if any, must not belong to
  a word; \<open>before\<close> is the text already passed, reversed.
\<close>

fun find_word_op_loop :: "ext \<Rightarrow> string \<Rightarrow> string \<Rightarrow> string \<Rightarrow> char option \<Rightarrow> nat option" where
  "find_word_op_loop E op before [] quote = None"
| "find_word_op_loop E op before (c # cs) quote =
     (case quote of
        Some q \<Rightarrow> find_word_op_loop E op (c # before) cs (if c = q then None else Some q)
      | None \<Rightarrow>
          if is_quote c then find_word_op_loop E op (c # before) cs (Some c)
          else if starts_with (c # cs) op
            \<and> (case last_char (rev before) of None \<Rightarrow> True | Some b \<Rightarrow> \<not> word_char E b)
            \<and> (case first_char (drop (length op) (c # cs)) of None \<Rightarrow> True | Some b \<Rightarrow> \<not> word_char E b)
          then Some (length before)
          else find_word_op_loop E op (c # before) cs None)"

definition find_word_op :: "ext \<Rightarrow> string \<Rightarrow> string \<Rightarrow> nat option" where
  "find_word_op E term op = find_word_op_loop E op [] term None"

section \<open>Literals\<close>

definition quoted_by :: "string \<Rightarrow> char \<Rightarrow> bool" where
  "quoted_by s q = (starts_with s [q] \<and> ends_with s [q])"

text \<open>\<open>&s[1..len - 1]\<close>: out of range for a single quote character.\<close>

definition inner_slice :: "string \<Rightarrow> string option" where
  "inner_slice s = (if length s < 2 then None else Some (butlast (tl s)))"

definition parse_literal :: "string \<Rightarrow> bson option" where
  "parse_literal s0 =
     (let s = trim s0
      in if quoted_by s (CHR 0x27) \<or> quoted_by s (CHR 0x22) then map_option BString (inner_slice s)
         else if s = ''true'' then Some (BBoolean True)
         else if s = ''false'' then Some (BBoolean False)
         else if s = ''null'' then Some BNull
         else (case parse_i64 s of
                 Some i \<Rightarrow> Some (BInt64 i)
               | None \<Rightarrow> (case parse_f64 s of Some x \<Rightarrow> Some (BDouble x) | None \<Rightarrow> Some (BString s))))"

text \<open>Mapping a partial function over a list; \<open>None\<close> as soon as one element panics.\<close>

fun map_opt :: "('a \<Rightarrow> 'b option) \<Rightarrow> 'a list \<Rightarrow> 'b list option" where
  "map_opt f [] = Some []"
| "map_opt f (x # xs) =
     (case f x of
        None \<Rightarrow> None
      | Some y \<Rightarrow> (case map_opt f xs of None \<Rightarrow> None | Some ys \<Rightarrow> Some (y # ys)))"

text \<open>\<open>parse_list\<close>: outer \<open>None\<close> is the panic, inner \<open>None\<close> a text without brackets.\<close>

definition parse_list :: "string \<Rightarrow> bson list option option" where
  "parse_list s0 =
     (let s = trim s0
      in if \<not> starts_with s ''['' \<or> \<not> ends_with s '']'' then Some None
         else let interior = butlast (tl s)
              in if trim interior = [] then Some (Some [])
                 else map_option Some
                        (map_opt (\<lambda>piece. parse_literal (trim piece)) (split_top interior '','')))"

section \<open>Comparison\<close>

fun as_f64 :: "bson \<Rightarrow> f64 option" where
  "as_f64 (BInt32 v) = Some (f64_of_int (sint v))"
| "as_f64 (BInt64 v) = Some (f64_of_int (sint v))"
| "as_f64 (BDouble v) = Some v"
| "as_f64 _ = None"

fun as_millis :: "ext \<Rightarrow> bson \<Rightarrow> i64 option" where
  "as_millis E (BDateTime ms) = Some ms"
| "as_millis E (BString s) = x_rfc3339 E s"
| "as_millis E _ = None"

definition bson_eq :: "ext \<Rightarrow> bson \<Rightarrow> bson \<Rightarrow> bool" where
  "bson_eq E a b =
     (case (as_f64 a, as_f64 b) of
        (Some x, Some y) \<Rightarrow> f64_eq x y
      | _ \<Rightarrow> (case (as_millis E a, as_millis E b) of
                (Some x, Some y) \<Rightarrow> x = y
              | _ \<Rightarrow> bson_pe a b))"

fun truthy :: "bson option \<Rightarrow> bool" where
  "truthy None = False"
| "truthy (Some BNull) = False"
| "truthy (Some (BBoolean b)) = b"
| "truthy (Some (BString s)) = (s \<noteq> [])"
| "truthy (Some (BInt32 n)) = (n \<noteq> 0)"
| "truthy (Some (BInt64 n)) = (n \<noteq> 0)"
| "truthy (Some (BDouble x)) = (\<not> f64_eq x 0)"
| "truthy (Some _) = True"

definition compare_f64 :: "string \<Rightarrow> f64 \<Rightarrow> f64 \<Rightarrow> bool" where
  "compare_f64 op a b =
     (if op = ''>'' then f64_lt b a
      else if op = ''<'' then f64_lt a b
      else if op = ''>='' then f64_le b a
      else if op = ''<='' then f64_le a b
      else False)"

definition eval_compare :: "ext \<Rightarrow> string \<Rightarrow> string \<Rightarrow> string \<Rightarrow> document \<Rightarrow> bool option" where
  "eval_compare E lhs op rhs doc =
     (let left = (case get_path doc lhs of None \<Rightarrow> BNull | Some v \<Rightarrow> v)
      in if op = ''in'' \<or> op = ''not in'' then
           (case parse_list rhs of
              None \<Rightarrow> None
            | Some l \<Rightarrow>
                let found = list_ex (bson_eq E left) (case l of None \<Rightarrow> [] | Some vs \<Rightarrow> vs)
                in Some (if op = ''in'' then found else \<not> found))
         else
           (case parse_literal rhs of
              None \<Rightarrow> None
            | Some right \<Rightarrow>
                Some (if op = ''=='' then bson_eq E left right
                      else if op = ''!='' then \<not> bson_eq E left right
                      else (case (as_f64 left, as_f64 right) of
                              (Some a, Some b) \<Rightarrow> compare_f64 op a b
                            | _ \<Rightarrow> (case (as_millis E left, as_millis E right) of
                                      (Some a, Some b) \<Rightarrow>
                                        compare_f64 op (f64_of_int (sint a)) (f64_of_int (sint b))
                                    | _ \<Rightarrow> False)))))"

section \<open>The operator of a term\<close>

text \<open>
  \<open>eval_term\<close> and \<open>filter_term\<close> look for the operators in the same order, the symbolic ones
  first; the first one that occurs splits the term.
\<close>

definition sym_ops :: "string list" where
  "sym_ops = [''=='', ''!='', ''>='', ''<='', ''>'', ''<'']"

definition word_ops :: "string list" where
  "word_ops = [''not in'', ''in'']"

fun first_op :: "(string \<Rightarrow> nat option) \<Rightarrow> string list \<Rightarrow> (string \<times> nat) option" where
  "first_op f [] = None"
| "first_op f (op # ops) = (case f op of Some i \<Rightarrow> Some (op, i) | None \<Rightarrow> first_op f ops)"

definition split_term :: "ext \<Rightarrow> string \<Rightarrow> (string \<times> string \<times> string) option" where
  "split_term E term =
     (case (case first_op (find_op term) sym_ops of
              Some r \<Rightarrow> Some r
            | None \<Rightarrow> first_op (find_word_op E term) word_ops) of
        None \<Rightarrow> None
      | Some (op, i) \<Rightarrow> Some (trim (take i term), op, trim (drop (i + length op) term)))"

definition eval_term :: "ext \<Rightarrow> string \<Rightarrow> document \<Rightarrow> bool option" where
  "eval_term E term doc =
     (case split_term E term of
        Some (lhs, op, rhs) \<Rightarrow> eval_compare E lhs op rhs doc
      | None \<Rightarrow> Some (truthy (get_path doc (trim term))))"

section \<open>Boolean composition\<close>

fun any_opt :: "('a \<Rightarrow> bool option) \<Rightarrow> 'a list \<Rightarrow> bool option" where
  "any_opt p [] = Some False"
| "any_opt p (x # xs) = (case p x of None \<Rightarrow> None | Some True \<Rightarrow> Some True | Some False \<Rightarrow> any_opt p xs)"

fun all_opt :: "('a \<Rightarrow> bool option) \<Rightarrow> 'a list \<Rightarrow> bool option" where
  "all_opt p [] = Some True"
| "all_opt p (x # xs) = (case p x of None \<Rightarrow> None | Some False \<Rightarrow> Some False | Some True \<Rightarrow> all_opt p xs)"

definition eval_and :: "ext \<Rightarrow> string \<Rightarrow> document \<Rightarrow> bool option" where
  "eval_and E expr doc = all_opt (\<lambda>c. eval_term E (trim c) doc) (split_top expr '' and '')"

definition eval_or :: "ext \<Rightarrow> string \<Rightarrow> document \<Rightarrow> bool option" where
  "eval_or E expr doc = any_opt (\<lambda>c. eval_and E c doc) (split_top expr '' or '')"

record condition =
  cond_text :: string

definition parse_condition :: "string \<Rightarrow> condition res" where
  "parse_condition e =
     (if trim e = [] then Inl (TransformError ''empty when expression'') else Inr \<lparr>cond_text = e\<rparr>)"

definition eval_cond :: "ext \<Rightarrow> condition \<Rightarrow> document \<Rightarrow> bool option" where
  "eval_cond E c doc = eval_or E (cond_text c) doc"

section \<open>Translation to a MongoDB filter\<close>

definition literal_to_filter_bson :: "ext \<Rightarrow> string \<Rightarrow> bson option" where
  "literal_to_filter_bson E s =
     (case parse_literal s of
        None \<Rightarrow> None
      | Some (BString t) \<Rightarrow> (case x_rfc3339 E t of Some ms \<Rightarrow> Some (BDateTime ms) | None \<Rightarrow> Some (BString t))
      | Some other \<Rightarrow> Some other)"

definition list_item_to_filter :: "ext \<Rightarrow> bson \<Rightarrow> bson option" where
  "list_item_to_filter E v =
     (case v of BString s \<Rightarrow> literal_to_filter_bson E (quoted s) | other \<Rightarrow> Some other)"

definition filter_compare :: "ext \<Rightarrow> string \<Rightarrow> string \<Rightarrow> string \<Rightarrow> document option" where
  "filter_compare E lhs op rhs =
     (if op = ''in'' \<or> op = ''not in'' then
        (case parse_list rhs of
           None \<Rightarrow> None
         | Some l \<Rightarrow>
             map_option
               (\<lambda>vs. [(lhs, BDocument [(if op = ''in'' then ''$in'' else ''$nin'', BArray vs)])])
               (map_opt (list_item_to_filter E) (case l of None \<Rightarrow> [] | Some vs \<Rightarrow> vs)))
      else
        map_option
          (\<lambda>value.
             if op = ''=='' then [(lhs, value)]
             else if op = ''!='' then [(lhs, BDocument [(''$ne'', value)])]
             else [(lhs, BDocument [(if op = ''>'' then ''$gt'' else if op = ''<'' then ''$lt''
                                     else if op = ''>='' then ''$gte'' else ''$lte'', value)])])
          (literal_to_filter_bson E rhs))"

definition falsy_values :: "bson list" where
  "falsy_values = [BNull, BBoolean False, BInt32 0, BString []]"

definition filter_term :: "ext \<Rightarrow> string \<Rightarrow> document option" where
  "filter_term E term =
     (case split_term E term of
        Some (lhs, op, rhs) \<Rightarrow> filter_compare E lhs op rhs
      | None \<Rightarrow>
          Some [(trim term, BDocument [(''$exists'', BBoolean True), (''$nin'', BArray falsy_values)])])"

definition combine_filters :: "string \<Rightarrow> document list \<Rightarrow> document" where
  "combine_filters op parts = (case parts of [d] \<Rightarrow> d | _ \<Rightarrow> [(op, BArray (map BDocument parts))])"

definition filter_and :: "ext \<Rightarrow> string \<Rightarrow> document option" where
  "filter_and E expr =
     map_option (combine_filters ''$and'') (map_opt (\<lambda>c. filter_term E (trim c)) (split_top expr '' and ''))"

definition filter_or :: "ext \<Rightarrow> string \<Rightarrow> document option" where
  "filter_or E expr =
     map_option (combine_filters ''$or'') (map_opt (filter_and E) (split_top expr '' or ''))"

definition to_filter :: "ext \<Rightarrow> condition \<Rightarrow> document option" where
  "to_filter E c = filter_or E (cond_text c)"

section \<open>The literal that panics\<close>

text \<open>A literal that is a lone quote, as in \<open>name == '\<close>, is the only one with no value.\<close>

lemma parse_literal_panics: "parse_literal s = None \<longleftrightarrow> trim s = [CHR 0x27] \<or> trim s = [CHR 0x22]"
proof
  let ?t = "trim s"
  assume "parse_literal s = None"
  then have q: "quoted_by ?t (CHR 0x27) \<or> quoted_by ?t (CHR 0x22)" and len: "length ?t < 2"
    by (auto simp: parse_literal_def inner_slice_def Let_def split: if_splits option.splits)
  from q have "?t \<noteq> []" by (auto simp: quoted_by_def)
  with len obtain c where "?t = [c]" by (cases ?t; cases "tl ?t") auto
  with q show "?t = [CHR 0x27] \<or> ?t = [CHR 0x22]" by (auto simp: quoted_by_def ends_with_def)
qed (auto simp: parse_literal_def inner_slice_def quoted_by_def ends_with_def Let_def)

end
