(* ===== verification/References.thy ===== *)
theory References
  imports Toolkit
begin

text \<open>
  Virtual references (src/subset/virtual_references.rs): the declared edges of the reference
  graph, fixed or polymorphic, and the target an edge resolves to for a document.
\<close>

record polymorphic_case =
  pc_field :: string
  pc_value :: yaml
  pc_collection :: string

record reference_def =
  rd_field :: string
  rd_collection :: "string option"
  rd_references_field :: string
  rd_not_null :: bool
  rd_polymorphic :: "polymorphic_case list"

record reference_entry =
  re_collection :: string
  re_references :: "reference_def list"

datatype ref_target =
    Fixed string
  | Polymorphic "(string \<times> bson \<times> string) list"

record virtual_reference =
  from_collection :: string
  from_field :: string
  to_field :: string
  not_null :: bool
  target :: ref_target

text \<open>The first polymorphic case whose discriminator field holds its value decides.\<close>

fun first_case :: "document \<Rightarrow> (string \<times> bson \<times> string) list \<Rightarrow> string option" where
  "first_case doc [] = None"
| "first_case doc ((field, value, coll) # cases) =
     (case doc_get field doc of
        Some v \<Rightarrow> if bson_pe v value then Some coll else first_case doc cases
      | None \<Rightarrow> first_case doc cases)"

definition resolve_target :: "virtual_reference \<Rightarrow> document \<Rightarrow> string option" where
  "resolve_target e doc =
     (case target e of Fixed c \<Rightarrow> Some c | Polymorphic cases \<Rightarrow> first_case doc cases)"

definition target_collections :: "virtual_reference \<Rightarrow> string list" where
  "target_collections e =
     (case target e of Fixed c \<Rightarrow> [c] | Polymorphic cases \<Rightarrow> map (\<lambda>(_, _, c). c) cases)"

type_synonym reference_graph = "virtual_reference list"

definition edge_target :: "ext \<Rightarrow> reference_def \<Rightarrow> ref_target option" where
  "edge_target E r =
     (if rd_polymorphic r \<noteq> [] then
        Some (Polymorphic (map (\<lambda>c. (pc_field c, yaml_to_bson E (pc_value c), pc_collection c))
                             (rd_polymorphic r)))
      else (case rd_collection r of Some c \<Rightarrow> Some (Fixed c) | None \<Rightarrow> None))"

definition entry_edges :: "ext \<Rightarrow> reference_entry \<Rightarrow> virtual_reference list" where
  "entry_edges E en =
     List.map_filter
       (\<lambda>r. map_option
          (\<lambda>t. \<lparr>from_collection = re_collection en, from_field = rd_field r,
                to_field = rd_references_field r, not_null = rd_not_null r, target = t\<rparr>)
          (edge_target E r))
       (re_references en)"

definition from_entries :: "ext \<Rightarrow> reference_entry list \<Rightarrow> reference_graph" where
  "from_entries E entries = concat (map (entry_edges E) entries)"

definition references_from :: "reference_graph \<Rightarrow> string \<Rightarrow> virtual_reference list" where
  "references_from g collection = filter (\<lambda>e. from_collection e = collection) g"

lemma first_case_in: "first_case doc cases = Some c \<Longrightarrow> \<exists>f v. (f, v, c) \<in> set cases"
  by (induction doc cases rule: first_case.induct) (auto split: option.splits if_splits)

text \<open>An edge resolves only to a collection it declares.\<close>

lemma resolve_target_declared: "resolve_target e doc = Some c \<Longrightarrow> c \<in> set (target_collections e)"
  by (force simp: resolve_target_def target_collections_def split: ref_target.splits dest: first_case_in)

lemma resolve_target_fixed: "target e = Fixed c \<Longrightarrow> resolve_target e doc = Some c"
  by (simp add: resolve_target_def)

end
