(* ===== verification/SchemaDiff.thy ===== *)
theory SchemaDiff
  imports Bson
begin

text \<open>
  Collection structure and drift detection (the pure part of src/validate/schema_diff.rs).
\<close>

record index_spec =
  ix_name :: string
  ix_keys :: "(string \<times> i32) list"
  ix_unique :: bool

record collection_schema =
  cs_collection :: string
  cs_indexes :: "index_spec list"
  cs_validator :: "bson option"
  cs_options :: "(string \<times> bson) list"

definition new_schema :: "string \<Rightarrow> collection_schema" where
  "new_schema coll = \<lparr>cs_collection = coll, cs_indexes = [], cs_validator = None, cs_options = []\<rparr>"

definition schema_from_parts ::
    "string \<Rightarrow> index_spec list \<Rightarrow> bson option \<Rightarrow> (string \<times> bson) list \<Rightarrow> collection_schema" where
  "schema_from_parts coll ixs v opts =
     \<lparr>cs_collection = coll, cs_indexes = ixs, cs_validator = v, cs_options = opts\<rparr>"

definition schema_index :: "collection_schema \<Rightarrow> string \<Rightarrow> index_spec option" where
  "schema_index s name = find (\<lambda>i. ix_name i = name) (cs_indexes s)"

datatype schema_diff =
    IndexAdded string
  | IndexRemoved string
  | IndexChanged string
  | ValidatorChanged
  | OptionChanged string

fun describe :: "schema_diff \<Rightarrow> string \<Rightarrow> string" where
  "describe (IndexAdded n) coll = coll @ '': index '' @ quoted n @ '' added live, not recorded''"
| "describe (IndexRemoved n) coll = coll @ '': recorded index '' @ quoted n @ '' is missing live''"
| "describe (IndexChanged n) coll = coll @ '': index '' @ quoted n @ '' definition changed''"
| "describe ValidatorChanged coll = coll @ '': validator changed''"
| "describe (OptionChanged k) coll = coll @ '': option '' @ quoted k @ '' changed''"

text \<open>\<open>==\<close> on \<open>Option<Bson>\<close>.\<close>

fun opt_pe :: "bson option \<Rightarrow> bson option \<Rightarrow> bool" where
  "opt_pe None None = True"
| "opt_pe (Some a) (Some b) = bson_pe a b"
| "opt_pe _ _ = False"

definition recorded_diffs :: "collection_schema \<Rightarrow> index_spec \<Rightarrow> schema_diff list" where
  "recorded_diffs live r =
     (case schema_index live (ix_name r) of
        None \<Rightarrow> [IndexRemoved (ix_name r)]
      | Some l \<Rightarrow> if l \<noteq> r then [IndexChanged (ix_name r)] else [])"

definition option_keys :: "collection_schema \<Rightarrow> collection_schema \<Rightarrow> string list" where
  "option_keys recorded live =
     remdups_adj (sort (map fst (cs_options recorded) @ map fst (cs_options live)))"

definition diff_collection :: "collection_schema \<Rightarrow> collection_schema \<Rightarrow> schema_diff list" where
  "diff_collection recorded live =
     concat (map (recorded_diffs live) (cs_indexes recorded))
     @ map (\<lambda>l. IndexAdded (ix_name l))
         (filter (\<lambda>l. schema_index recorded (ix_name l) = None) (cs_indexes live))
     @ (if opt_pe (cs_validator recorded) (cs_validator live) then [] else [ValidatorChanged])
     @ map OptionChanged
         (filter (\<lambda>k. \<not> opt_pe (kv_get k (cs_options recorded)) (kv_get k (cs_options live)))
            (option_keys recorded live))"

definition diff_database :: "collection_schema list \<Rightarrow> collection_schema list \<Rightarrow> string list" where
  "diff_database recorded live =
     concat (map (\<lambda>r.
       let l = (case find (\<lambda>c. cs_collection c = cs_collection r) live of
                  None \<Rightarrow> new_schema (cs_collection r) | Some c \<Rightarrow> c)
       in map (\<lambda>d. describe d (cs_collection r)) (diff_collection r l)) recorded)"

section \<open>Lemmas\<close>

lemma find_distinct:
  "distinct (map f xs) \<Longrightarrow> x \<in> set xs \<Longrightarrow> find (\<lambda>y. f y = f x) xs = Some x"
  by (induction xs) auto

lemma find_some_in: "find P xs = Some x \<Longrightarrow> x \<in> set xs \<and> P x"
  by (induction xs) (auto split: if_splits)

lemma schema_index_iff:
  "distinct (map ix_name (cs_indexes s)) \<Longrightarrow>
     schema_index s n = Some i \<longleftrightarrow> i \<in> set (cs_indexes s) \<and> ix_name i = n"
  unfolding schema_index_def using find_distinct [of ix_name "cs_indexes s" i] find_some_in by fastforce

lemma schema_index_none: "schema_index s n = None \<longleftrightarrow> n \<notin> ix_name ` set (cs_indexes s)"
  by (auto simp: schema_index_def find_None_iff)

lemma set_option_keys [simp]:
  "set (option_keys r l) = fst ` set (cs_options r) \<union> fst ` set (cs_options l)"
  by (simp add: option_keys_def)

lemma option_keys_agree:
  "(\<forall>k \<in> set (option_keys r l). opt_pe (kv_get k (cs_options r)) (kv_get k (cs_options l))) \<longleftrightarrow>
     (\<forall>k. opt_pe (kv_get k (cs_options r)) (kv_get k (cs_options l)))"
proof -
  have "opt_pe (kv_get k (cs_options r)) (kv_get k (cs_options l))" if "k \<notin> set (option_keys r l)" for k
  proof -
    have "kv_get k (cs_options r) = None" "kv_get k (cs_options l) = None"
      using that by (auto simp: kv_get_None)
    then show ?thesis by simp
  qed
  then show ?thesis by auto
qed

lemma recorded_diffs_Nil: "recorded_diffs live r = [] \<longleftrightarrow> schema_index live (ix_name r) = Some r"
  by (auto simp: recorded_diffs_def split: option.splits)

lemma diff_collection_Nil:
  "diff_collection r l = [] \<longleftrightarrow>
     (\<forall>i \<in> set (cs_indexes r). schema_index l (ix_name i) = Some i)
     \<and> (\<forall>i \<in> set (cs_indexes l). schema_index r (ix_name i) \<noteq> None)
     \<and> opt_pe (cs_validator r) (cs_validator l)
     \<and> (\<forall>k. opt_pe (kv_get k (cs_options r)) (kv_get k (cs_options l)))"
  unfolding option_keys_agree [symmetric]
  by (auto simp: diff_collection_def recorded_diffs_Nil filter_empty_conv)

section \<open>Properties\<close>

text \<open>
  Drift detection is exact: with distinct index names, the diff of a recorded collection
  against the live one is empty exactly when both have the same indexes, equal validators and
  the same value for every collection option.
\<close>

theorem diff_collection_exact:
  assumes "distinct (map ix_name (cs_indexes r))" "distinct (map ix_name (cs_indexes l))"
  shows "diff_collection r l = [] \<longleftrightarrow>
     set (cs_indexes r) = set (cs_indexes l) \<and> opt_pe (cs_validator r) (cs_validator l)
     \<and> (\<forall>k. opt_pe (kv_get k (cs_options r)) (kv_get k (cs_options l)))"
proof -
  have "(\<forall>i \<in> set (cs_indexes r). schema_index l (ix_name i) = Some i)
        \<and> (\<forall>i \<in> set (cs_indexes l). schema_index r (ix_name i) \<noteq> None)
      \<longleftrightarrow> set (cs_indexes r) = set (cs_indexes l)"
    (is "?A \<longleftrightarrow> ?B")
  proof
    assume A: ?A
    have sub: "set (cs_indexes r) \<subseteq> set (cs_indexes l)"
      using A by (auto simp: schema_index_iff [OF assms(2)])
    have "i \<in> set (cs_indexes r)" if i: "i \<in> set (cs_indexes l)" for i
    proof -
      obtain j where j: "j \<in> set (cs_indexes r)" "ix_name j = ix_name i"
        using A i by (auto simp: schema_index_none)
      with A have "schema_index l (ix_name i) = Some j" by metis
      moreover have "schema_index l (ix_name i) = Some i"
        using i by (simp add: schema_index_iff [OF assms(2)])
      ultimately have "j = i" by simp
      with j(1) show ?thesis by blast
    qed
    with sub show ?B by blast
  next
    assume ?B
    then show ?A by (simp add: schema_index_iff [OF assms(2)] schema_index_none)
  qed
  then show ?thesis by (simp only: diff_collection_Nil) blast
qed

definition sample_schema :: collection_schema where
  "sample_schema = \<lparr>cs_collection = ''users'', cs_indexes =
     [\<lparr>ix_name = ''_id_'', ix_keys = [(''_id'', 1)], ix_unique = True\<rparr>,
      \<lparr>ix_name = ''email_1'', ix_keys = [(''email'', 1)], ix_unique = False\<rparr>],
     cs_validator = None, cs_options = [(''capped'', BBoolean True)]\<rparr>"

theorem diff_collection_exact_witness:
  "diff_collection sample_schema (sample_schema\<lparr>cs_indexes := rev (cs_indexes sample_schema)\<rparr>) = []
   \<and> diff_collection sample_schema (sample_schema\<lparr>cs_indexes := []\<rparr>) \<noteq> []"
proof -
  let ?r = "sample_schema\<lparr>cs_indexes := rev (cs_indexes sample_schema)\<rparr>"
  have "opt_pe (kv_get k (cs_options sample_schema)) (kv_get k (cs_options sample_schema))" for k
    by (simp add: sample_schema_def)
  then show ?thesis
    using diff_collection_exact [of sample_schema ?r]
      diff_collection_exact [of sample_schema "sample_schema\<lparr>cs_indexes := []\<rparr>"]
    by (simp add: sample_schema_def insert_commute)
qed

end
