(* ===== verification/Exclusions.thy ===== *)
theory Exclusions
  imports Bson
begin

text \<open>
  Insert errors and the exclusions that tolerate them (src/restore/error_exclusions.rs).
\<close>

record insert_error =
  ie_code :: "i32 option"
  ie_index :: "string option"

definition code_error :: "i32 \<Rightarrow> insert_error" where
  "code_error c = \<lparr>ie_code = Some c, ie_index = None\<rparr>"

definition duplicate_key :: "string \<Rightarrow> insert_error" where
  "duplicate_key name = \<lparr>ie_code = Some 11000, ie_index = Some name\<rparr>"

record collection_exclusion =
  ce_collection :: string
  ce_codes :: "i32 list"
  ce_indexes :: "string list"

record error_exclusions =
  global_codes :: "i32 list"
  global_indexes :: "string list"
  ex_collections :: "collection_exclusion list"

text \<open>\<open>err.code.map(|c| codes.contains(&c)).unwrap_or(false)\<close>, and the same for the index name.\<close>

definition listed :: "'a option \<Rightarrow> 'a list \<Rightarrow> bool" where
  "listed o' xs = (case o' of None \<Rightarrow> False | Some x \<Rightarrow> List.member xs x)"

definition matches_code_global :: "error_exclusions \<Rightarrow> insert_error \<Rightarrow> bool" where
  "matches_code_global ex err = listed (ie_code err) (global_codes ex)"

definition matches_index_global :: "error_exclusions \<Rightarrow> insert_error \<Rightarrow> bool" where
  "matches_index_global ex err = listed (ie_index err) (global_indexes ex)"

fun excluded_by :: "collection_exclusion list \<Rightarrow> string \<Rightarrow> insert_error \<Rightarrow> bool" where
  "excluded_by [] coll err = False"
| "excluded_by (c # cs) coll err =
     (if ce_collection c = coll then
        if listed (ie_code err) (ce_codes c) then True
        else if listed (ie_index err) (ce_indexes c) then True
        else excluded_by cs coll err
      else excluded_by cs coll err)"

definition is_excluded :: "error_exclusions \<Rightarrow> string \<Rightarrow> insert_error \<Rightarrow> bool" where
  "is_excluded ex coll err =
     (if matches_code_global ex err \<or> matches_index_global ex err then True
      else excluded_by (ex_collections ex) coll err)"

lemma listed_iff: "listed o' xs \<longleftrightarrow> (\<exists>x \<in> set xs. o' = Some x)"
  by (auto simp: listed_def split: option.splits)

lemma excluded_by_iff:
  "excluded_by cs coll err \<longleftrightarrow>
     (\<exists>c \<in> set cs. ce_collection c = coll \<and>
        (listed (ie_code err) (ce_codes c) \<or> listed (ie_index err) (ce_indexes c)))"
  by (induction cs) auto

section \<open>Properties\<close>

text \<open>
  An insert error is tolerated exactly when its code or its index name is declared, globally
  or for the collection it occurred in: an error without a code and without an index name is
  never tolerated, and an exclusion of one collection never tolerates an error of another.
\<close>

theorem is_excluded_exact:
  "is_excluded ex coll err \<longleftrightarrow>
     (\<exists>code. ie_code err = Some code
        \<and> (code \<in> set (global_codes ex)
           \<or> (\<exists>c \<in> set (ex_collections ex). ce_collection c = coll \<and> code \<in> set (ce_codes c))))
     \<or> (\<exists>name. ie_index err = Some name
        \<and> (name \<in> set (global_indexes ex)
           \<or> (\<exists>c \<in> set (ex_collections ex). ce_collection c = coll \<and> name \<in> set (ce_indexes c))))"
  by (auto simp: is_excluded_def matches_code_global_def matches_index_global_def listed_iff excluded_by_iff)

end
