(* ===== verification/Mongo.thy ===== *)
theory Mongo
  imports SchemaDiff Exclusions "HOL-Library.Product_Lexorder"
begin

text \<open>
  The MongoDB access layer (src/mongo.rs): the read side and the write side as records of
  operations, the default methods of the two traits, and the in-memory deployment that
  implements both. A sink threads its state explicitly; an operation that may fail returns its
  result with the new state. The driver of the \<open>mongo\<close> feature is in \<open>Driver\<close>.
\<close>

section \<open>Data and interfaces\<close>

record collection_data =
  d_database :: string
  d_collection :: string
  d_documents :: "document list"
  d_indexes :: "index_spec list"
  d_validator :: "bson option"
  d_options :: "(string \<times> bson) list"

record collection_structure =
  st_indexes :: "index_spec list"
  st_validator :: "bson option"
  st_options :: "(string \<times> bson) list"

text \<open>
  A stream of documents is what it delivers before it ends, and the error it ends with, if any;
  \<open>stream_each\<close> runs the caller's closure on each document and stops at its first error.
\<close>

type_synonym doc_stream = "document list \<times> error option"

record mongo_source =
  ms_databases :: "string list res"
  ms_collections :: "string \<Rightarrow> string list res"
  ms_read :: "string \<Rightarrow> string \<Rightarrow> collection_data res"
  ms_structure :: "string \<Rightarrow> string \<Rightarrow> collection_structure res"
  ms_stream :: "string \<Rightarrow> string \<Rightarrow> document option \<Rightarrow> doc_stream"
  ms_projected :: "string \<Rightarrow> string \<Rightarrow> document option \<Rightarrow> string list \<Rightarrow> doc_stream"
  ms_sample :: "string \<Rightarrow> string \<Rightarrow> nat \<Rightarrow> document list res"

fun each_doc :: "(document \<Rightarrow> 'a \<Rightarrow> 'a res) \<Rightarrow> document list \<Rightarrow> 'a \<Rightarrow> 'a res" where
  "each_doc f [] s = Inr s"
| "each_doc f (d # ds) s = (case f d s of Inl e \<Rightarrow> Inl e | Inr s' \<Rightarrow> each_doc f ds s')"

definition stream_each :: "(document \<Rightarrow> 'a \<Rightarrow> 'a res) \<Rightarrow> doc_stream \<Rightarrow> 'a \<Rightarrow> 'a res" where
  "stream_each f str s =
     (case each_doc f (fst str) s of
        Inl e \<Rightarrow> Inl e
      | Inr s' \<Rightarrow> (case snd str of None \<Rightarrow> Inr s' | Some e \<Rightarrow> Inl e))"

record batch_insert =
  bi_inserted :: nat
  bi_failures :: "(nat \<times> insert_error) list"

record 's mongo_sink =
  sk_ensure :: "string \<Rightarrow> string \<Rightarrow> bson option \<Rightarrow> (string \<times> bson) list \<Rightarrow> 's \<Rightarrow> unit res \<times> 's"
  sk_insert :: "string \<Rightarrow> string \<Rightarrow> document \<Rightarrow> 's \<Rightarrow> (insert_error + unit) \<times> 's"
  sk_insert_many :: "string \<Rightarrow> string \<Rightarrow> document list \<Rightarrow> bool \<Rightarrow> 's \<Rightarrow> batch_insert res \<times> 's"
  sk_create_index :: "string \<Rightarrow> string \<Rightarrow> index_spec \<Rightarrow> 's \<Rightarrow> unit res \<times> 's"
  sk_drop :: "string \<Rightarrow> string \<Rightarrow> 's \<Rightarrow> unit res \<times> 's"

section \<open>Default methods\<close>

definition read_structure_default ::
    "(string \<Rightarrow> string \<Rightarrow> collection_data res) \<Rightarrow> string \<Rightarrow> string \<Rightarrow> collection_structure res" where
  "read_structure_default read db coll =
     map_sum id (\<lambda>d. \<lparr>st_indexes = d_indexes d, st_validator = d_validator d, st_options = d_options d\<rparr>)
       (read db coll)"

definition stream_default ::
    "(string \<Rightarrow> string \<Rightarrow> document option \<Rightarrow> collection_data res) \<Rightarrow> string \<Rightarrow> string \<Rightarrow> document option
       \<Rightarrow> doc_stream" where
  "stream_default read_filtered db coll flt =
     (case read_filtered db coll flt of Inl e \<Rightarrow> ([], Some e) | Inr d \<Rightarrow> (d_documents d, None))"

definition projected_default ::
    "(string \<Rightarrow> string \<Rightarrow> document option \<Rightarrow> doc_stream) \<Rightarrow> string \<Rightarrow> string \<Rightarrow> document option
       \<Rightarrow> string list \<Rightarrow> doc_stream" where
  "projected_default str db coll flt projection = str db coll flt"

definition sample_default ::
    "(string \<Rightarrow> string \<Rightarrow> collection_data res) \<Rightarrow> string \<Rightarrow> string \<Rightarrow> nat \<Rightarrow> document list res" where
  "sample_default read db coll limit = map_sum id (\<lambda>d. take limit (d_documents d)) (read db coll)"

text \<open>\<open>insert_many\<close> over single inserts: with \<open>ordered\<close> it stops at the first failure.\<close>

fun insert_loop ::
    "(document \<Rightarrow> 's \<Rightarrow> (insert_error + unit) \<times> 's) \<Rightarrow> document list \<Rightarrow> nat \<Rightarrow> bool \<Rightarrow> batch_insert \<Rightarrow> 's
       \<Rightarrow> batch_insert \<times> 's" where
  "insert_loop ins [] i ordered out s = (out, s)"
| "insert_loop ins (d # ds) i ordered out s =
     (case ins d s of
        (Inr u, s') \<Rightarrow>
          insert_loop ins ds (Suc i) ordered (out\<lparr>bi_inserted := bi_inserted out + 1\<rparr>) s'
      | (Inl e, s') \<Rightarrow>
          let out' = out\<lparr>bi_failures := bi_failures out @ [(i, e)]\<rparr>
          in if ordered then (out', s') else insert_loop ins ds (Suc i) ordered out' s')"

definition empty_batch :: batch_insert where
  "empty_batch = \<lparr>bi_inserted = 0, bi_failures = []\<rparr>"

definition insert_many_default ::
    "(string \<Rightarrow> string \<Rightarrow> document \<Rightarrow> 's \<Rightarrow> (insert_error + unit) \<times> 's) \<Rightarrow> string \<Rightarrow> string
       \<Rightarrow> document list \<Rightarrow> bool \<Rightarrow> 's \<Rightarrow> batch_insert res \<times> 's" where
  "insert_many_default ins db coll docs ordered s =
     (case insert_loop (ins db coll) docs 0 ordered empty_batch s of (b, s') \<Rightarrow> (Inr b, s'))"

section \<open>The in-memory deployment\<close>

type_synonym mem = "((string \<times> string) \<times> collection_data) list"

definition mem_seed :: "collection_data \<Rightarrow> mem \<Rightarrow> mem" where
  "mem_seed d m = bt_insert (d_database d, d_collection d) d m"

definition mem_documents :: "string \<Rightarrow> string \<Rightarrow> mem \<Rightarrow> document list" where
  "mem_documents db coll m =
     (case kv_get (db, coll) m of None \<Rightarrow> [] | Some c \<Rightarrow> d_documents c)"

definition mem_databases :: "mem \<Rightarrow> string list" where
  "mem_databases m = remdups_adj (sort (map fst (map fst m)))"

definition mem_collections :: "string \<Rightarrow> mem \<Rightarrow> string list" where
  "mem_collections db m = sort (map snd (filter (\<lambda>k. fst k = db) (map fst m)))"

definition mem_read :: "mem \<Rightarrow> string \<Rightarrow> string \<Rightarrow> collection_data res" where
  "mem_read m db coll =
     ok_or (MongoError (''collection '' @ db @ ''.'' @ coll @ '' not found'')) (kv_get (db, coll) m)"

definition op_matches :: "bson option \<Rightarrow> string \<times> bson \<Rightarrow> bool" where
  "op_matches actual p =
     (let isin = (\<lambda>vs. case actual of None \<Rightarrow> False | Some a \<Rightarrow> list_ex (\<lambda>v. bson_pe v a) vs)
      in case snd p of
           BArray vs \<Rightarrow> if fst p = ''$in'' then isin vs else if fst p = ''$nin'' then \<not> isin vs else False
         | _ \<Rightarrow> False)"

definition field_matches :: "document \<Rightarrow> string \<times> bson \<Rightarrow> bool" where
  "field_matches doc p =
     (let actual = get_path doc (fst p)
      in case (case snd p of BDocument ops \<Rightarrow>
                 if list_ex (\<lambda>k. starts_with k ''$'') (map fst ops) then Some ops else None
               | _ \<Rightarrow> None) of
           Some ops \<Rightarrow> list_all (op_matches actual) ops
         | None \<Rightarrow> opt_pe actual (Some (snd p)))"

definition matches_filter :: "document \<Rightarrow> document \<Rightarrow> bool" where
  "matches_filter doc flt = list_all (field_matches doc) flt"

definition mem_read_filtered ::
    "mem \<Rightarrow> string \<Rightarrow> string \<Rightarrow> document option \<Rightarrow> collection_data res" where
  "mem_read_filtered m db coll flt =
     (case mem_read m db coll of
        Inl e \<Rightarrow> Inl e
      | Inr d \<Rightarrow>
          Inr (case flt of
                 None \<Rightarrow> d
               | Some f \<Rightarrow> d\<lparr>d_documents := filter (\<lambda>doc. matches_filter doc f) (d_documents d)\<rparr>))"

definition mem_source :: "mem \<Rightarrow> mongo_source" where
  "mem_source m =
     \<lparr>ms_databases = Inr (mem_databases m),
      ms_collections = (\<lambda>db. Inr (mem_collections db m)),
      ms_read = mem_read m,
      ms_structure = read_structure_default (mem_read m),
      ms_stream = stream_default (mem_read_filtered m),
      ms_projected = projected_default (stream_default (mem_read_filtered m)),
      ms_sample = sample_default (mem_read m)\<rparr>"

definition empty_collection :: "string \<Rightarrow> string \<Rightarrow> collection_data" where
  "empty_collection db coll =
     \<lparr>d_database = db, d_collection = coll, d_documents = [], d_indexes = [], d_validator = None,
      d_options = []\<rparr>"

text \<open>\<open>entry(key).or_insert_with(...)\<close>.\<close>

definition mem_entry :: "string \<Rightarrow> string \<Rightarrow> collection_data \<Rightarrow> mem \<Rightarrow> collection_data" where
  "mem_entry db coll dflt m = (case kv_get (db, coll) m of None \<Rightarrow> dflt | Some c \<Rightarrow> c)"

definition mem_ensure ::
    "string \<Rightarrow> string \<Rightarrow> bson option \<Rightarrow> (string \<times> bson) list \<Rightarrow> mem \<Rightarrow> unit res \<times> mem" where
  "mem_ensure db coll v opts m =
     (let c = mem_entry db coll ((empty_collection db coll)\<lparr>d_validator := v, d_options := opts\<rparr>) m
      in (Inr (), bt_insert (db, coll) c m))"

definition id_taken :: "collection_data \<Rightarrow> document \<Rightarrow> bool" where
  "id_taken c doc =
     (case doc_get ''_id'' doc of
        None \<Rightarrow> False
      | Some i \<Rightarrow> list_ex (\<lambda>d. opt_pe (doc_get ''_id'' d) (Some i)) (d_documents c))"

definition mem_insert :: "string \<Rightarrow> string \<Rightarrow> document \<Rightarrow> mem \<Rightarrow> (insert_error + unit) \<times> mem" where
  "mem_insert db coll doc m =
     (let c = mem_entry db coll (empty_collection db coll) m
      in if id_taken c doc then (Inl (duplicate_key ''_id_''), bt_insert (db, coll) c m)
         else (Inr (), bt_insert (db, coll) (c\<lparr>d_documents := d_documents c @ [doc]\<rparr>) m))"

definition mem_create_index :: "string \<Rightarrow> string \<Rightarrow> index_spec \<Rightarrow> mem \<Rightarrow> unit res \<times> mem" where
  "mem_create_index db coll ix m =
     (let c = mem_entry db coll (empty_collection db coll) m;
          c' = (if list_ex (\<lambda>i. ix_name i = ix_name ix) (d_indexes c) then c
                else c\<lparr>d_indexes := d_indexes c @ [ix]\<rparr>)
      in (Inr (), bt_insert (db, coll) c' m))"

definition mem_drop :: "string \<Rightarrow> string \<Rightarrow> mem \<Rightarrow> unit res \<times> mem" where
  "mem_drop db coll m = (Inr (), filter (\<lambda>p. fst p \<noteq> (db, coll)) m)"

definition mem_sink :: "mem mongo_sink" where
  "mem_sink =
     \<lparr>sk_ensure = mem_ensure, sk_insert = mem_insert,
      sk_insert_many = insert_many_default mem_insert,
      sk_create_index = mem_create_index, sk_drop = mem_drop\<rparr>"

section \<open>The contract of a batched insert\<close>

text \<open>
  What the restore relies on when it hands a batch to a sink: every document is accounted for at
  most once, without \<open>ordered\<close> every document is accounted for, and with it the batch stops at its
  first failure, all documents before it inserted.
\<close>

locale batch_sink =
  fixes many :: "document list \<Rightarrow> bool \<Rightarrow> 's \<Rightarrow> batch_insert res \<times> 's"
  assumes bounded: "many docs ord s = (Inr b, s') \<Longrightarrow>
      bi_inserted b + length (bi_failures b) \<le> length docs"
    and exhaustive: "many docs False s = (Inr b, s') \<Longrightarrow>
      bi_inserted b + length (bi_failures b) = length docs"
    and in_batch: "many docs ord s = (Inr b, s') \<Longrightarrow> (i, e) \<in> set (bi_failures b) \<Longrightarrow> i < length docs"
    and ordered_stop: "many docs True s = (Inr b, s') \<Longrightarrow>
      bi_failures b = [] \<and> bi_inserted b = length docs
      \<or> (\<exists>i e. bi_failures b = [(i, e)] \<and> bi_inserted b = i \<and> i < length docs)"
begin

lemma no_failure_all_in:
  "many docs False s = (Inr b, s') \<Longrightarrow> bi_failures b = [] \<Longrightarrow> bi_inserted b = length docs"
  using exhaustive by fastforce

lemma inserted_le: "many docs ord s = (Inr b, s') \<Longrightarrow> bi_inserted b \<le> length docs"
  using bounded by fastforce

end

text \<open>The loop of the default method keeps the books; \<open>i\<close> is the index it has reached.\<close>

lemma insert_loop_counts:
  assumes "insert_loop ins docs i ord out s = (b, s')"
  shows "bi_inserted b + length (bi_failures b) \<le>
      bi_inserted out + length (bi_failures out) + length docs
    \<and> (\<not> ord \<longrightarrow> bi_inserted b + length (bi_failures b) =
      bi_inserted out + length (bi_failures out) + length docs)"
  using assms
proof (induction docs arbitrary: i out s)
  case (Cons d ds)
  show ?case
  proof (cases "ins d s")
    case (Pair r s1)
    show ?thesis
    proof (cases r)
      case (Inl e)
      with Cons Pair show ?thesis
        by (cases ord) (fastforce simp: Let_def)+
    next
      case (Inr u)
      with Cons Pair show ?thesis by fastforce
    qed
  qed
qed simp

lemma insert_loop_indices:
  assumes "insert_loop ins docs i ord out s = (b, s')"
  shows "\<exists>new. bi_failures b = bi_failures out @ new \<and> sorted_wrt (<) (map fst new)
    \<and> (\<forall>j \<in> fst ` set new. i \<le> j \<and> j < i + length docs) \<and> (ord \<longrightarrow> length new \<le> 1)"
  using assms
proof (induction docs arbitrary: i out s)
  case (Cons d ds)
  obtain r s1 where r: "ins d s = (r, s1)" by (cases "ins d s")
  show ?case
  proof (cases r)
    case (Inr u)
    then have "insert_loop ins ds (Suc i) ord (out\<lparr>bi_inserted := bi_inserted out + 1\<rparr>) s1 = (b, s')"
      using Cons.prems r by simp
    from Cons.IH [OF this] show ?thesis by fastforce
  next
    case (Inl e)
    let ?out = "out\<lparr>bi_failures := bi_failures out @ [(i, e)]\<rparr>"
    show ?thesis
    proof (cases ord)
      case True
      with Inl Cons.prems r have "b = ?out" by (simp add: Let_def)
      then show ?thesis by (intro exI [of _ "[(i, e)]"]) simp
    next
      case False
      with Inl Cons.prems r have "insert_loop ins ds (Suc i) ord ?out s1 = (b, s')" by (simp add: Let_def)
      from Cons.IH [OF this] obtain new where new: "bi_failures b = bi_failures out @ (i, e) # new"
          "sorted_wrt (<) (map fst new)" "\<forall>j \<in> fst ` set new. Suc i \<le> j \<and> j < Suc i + length ds"
        by auto
      show ?thesis
        using new False by (intro exI [of _ "(i, e) # new"]) force
    qed
  qed
qed simp

lemma insert_loop_ordered:
  assumes "insert_loop ins docs i True out s = (b, s')" "bi_failures out = []"
  shows "bi_failures b = [] \<and> bi_inserted b = bi_inserted out + length docs
    \<or> (\<exists>j e. bi_failures b = [(i + j, e)] \<and> bi_inserted b = bi_inserted out + j \<and> j < length docs)"
  using assms
proof (induction docs arbitrary: i out s)
  case (Cons d ds)
  obtain r s1 where r: "ins d s = (r, s1)" by (cases "ins d s")
  show ?case
  proof (cases r)
    case (Inl e)
    with Cons.prems r have "bi_failures b = [(i + 0, e)] \<and> bi_inserted b = bi_inserted out + 0"
      by (auto simp: Let_def)
    then show ?thesis by (intro disjI2 exI [of _ 0] exI [of _ e]) simp
  next
    case (Inr u)
    then have "insert_loop ins ds (Suc i) True (out\<lparr>bi_inserted := bi_inserted out + 1\<rparr>) s1 = (b, s')"
      using Cons.prems r by simp
    from Cons.IH [OF this] Cons.prems(2) show ?thesis
      by (auto intro: exI [of _ "Suc _"])
  qed
qed simp

lemma insert_many_default_cases:
  "insert_many_default ins db coll docs ord s = (Inr b, s') \<longleftrightarrow>
     insert_loop (ins db coll) docs 0 ord empty_batch s = (b, s')"
  by (auto simp: insert_many_default_def split: prod.splits)

interpretation mem_batch: batch_sink "sk_insert_many mem_sink db coll" for db coll
proof unfold_locales
  fix docs ord s b s'
  assume "sk_insert_many mem_sink db coll docs ord s = (Inr b, s')"
  then have l: "insert_loop (mem_insert db coll) docs 0 ord empty_batch s = (b, s')"
    by (simp add: mem_sink_def insert_many_default_cases)
  show "bi_inserted b + length (bi_failures b) \<le> length docs"
    using insert_loop_counts [OF l] by (simp add: empty_batch_def)
  fix i e
  assume "(i, e) \<in> set (bi_failures b)"
  then show "i < length docs"
    using insert_loop_indices [OF l] by (force simp: empty_batch_def)
next
  fix docs s b s'
  assume "sk_insert_many mem_sink db coll docs True s = (Inr b, s')"
  then have l: "insert_loop (mem_insert db coll) docs 0 True empty_batch s = (b, s')"
    by (simp add: mem_sink_def insert_many_default_cases)
  show "bi_failures b = [] \<and> bi_inserted b = length docs
      \<or> (\<exists>i e. bi_failures b = [(i, e)] \<and> bi_inserted b = i \<and> i < length docs)"
    using insert_loop_ordered [OF l] by (auto simp: empty_batch_def)
next
  fix docs s b s'
  assume "sk_insert_many mem_sink db coll docs False s = (Inr b, s')"
  then have l: "insert_loop (mem_insert db coll) docs 0 False empty_batch s = (b, s')"
    by (simp add: mem_sink_def insert_many_default_cases)
  show "bi_inserted b + length (bi_failures b) = length docs"
    using insert_loop_counts [OF l] by (simp add: empty_batch_def)
qed

section \<open>The in-memory store\<close>

text \<open>No two documents of a collection carry equal identifiers: each is fresh for those before it.\<close>

definition ids_fresh :: "document list \<Rightarrow> bool" where
  "ids_fresh docs = sorted_wrt (\<lambda>a b. case doc_get ''_id'' b of None \<Rightarrow> True
                      | Some i \<Rightarrow> \<not> opt_pe (doc_get ''_id'' a) (Some i)) docs"

lemma ids_fresh_snoc:
  "ids_fresh (d_documents c @ [d]) \<longleftrightarrow> ids_fresh (d_documents c) \<and> \<not> id_taken c d"
  by (auto simp: ids_fresh_def id_taken_def sorted_wrt_append list_ex_iff split: option.splits)

lemma mem_documents_entry:
  "d_documents (mem_entry db coll (empty_collection db coll) m) = mem_documents db coll m"
  by (simp add: mem_entry_def mem_documents_def empty_collection_def split: option.splits)

lemma mem_insert_documents:
  "mem_insert db coll doc m = (r, m') \<Longrightarrow>
     mem_documents db' coll' m' =
       (if (db', coll') = (db, coll) \<and> r = Inr () then mem_documents db coll m @ [doc]
        else mem_documents db' coll' m)"
  by (auto simp: mem_insert_def Let_def mem_documents_def mem_entry_def bt_get_insert empty_collection_def
      split: if_splits option.splits)

lemma mem_insert_fresh:
  assumes "mem_insert db coll doc m = (r, m')" "ids_fresh (mem_documents db coll m)"
  shows "ids_fresh (mem_documents db coll m')"
proof (cases r)
  case (Inr u)
  let ?c = "mem_entry db coll (empty_collection db coll) m"
  have "\<not> id_taken ?c doc" using assms(1) Inr by (auto simp: mem_insert_def Let_def split: if_splits)
  then have "ids_fresh (mem_documents db coll m @ [doc])"
    using assms(2) ids_fresh_snoc [of ?c doc] by (simp add: mem_documents_entry)
  then show ?thesis using mem_insert_documents [OF assms(1), of db coll] Inr by simp
next
  case (Inl e)
  then show ?thesis using mem_insert_documents [OF assms(1), of db coll] assms(2) by simp
qed

section \<open>Properties\<close>

text \<open>
  The default \<open>insert_many\<close> accounts for every document of an unordered batch: the number of
  inserted documents and the number of reported failures add up to the batch, the failures are
  reported at strictly ascending positions inside the batch. An ordered batch reports at most one
  failure and never counts more than the batch.
\<close>

theorem insert_many_accounts:
  assumes "insert_many_default ins db coll docs ord s = (Inr b, s')"
  shows "(\<not> ord \<longrightarrow> bi_inserted b + length (bi_failures b) = length docs)
    \<and> bi_inserted b + length (bi_failures b) \<le> length docs
    \<and> sorted_wrt (<) (map fst (bi_failures b)) \<and> (\<forall>i \<in> fst ` set (bi_failures b). i < length docs)
    \<and> (ord \<longrightarrow> length (bi_failures b) \<le> 1)"
proof -
  have l: "insert_loop (ins db coll) docs 0 ord empty_batch s = (b, s')"
    using assms by (simp add: insert_many_default_cases)
  show ?thesis
    using insert_loop_counts [OF l] insert_loop_indices [OF l] by (force simp: empty_batch_def)
qed

theorem insert_many_accounts_witness:
  "\<exists>b m. insert_many_default mem_insert ''db'' ''c''
       [[(''_id'', BInt32 1)], [(''_id'', BInt32 1)], [(''_id'', BInt32 2)]] False [] = (Inr b, m)
     \<and> bi_inserted b + length (bi_failures b) = 3 \<and> (\<forall>i \<in> fst ` set (bi_failures b). i < 3)"
proof -
  let ?docs = "[[(''_id'', BInt32 1)], [(''_id'', BInt32 1)], [(''_id'', BInt32 2)]]"
  obtain b m where "insert_loop (mem_insert ''db'' ''c'') ?docs 0 False empty_batch [] = (b, m)"
    by (rule prod.exhaust)
  then have l: "insert_many_default mem_insert ''db'' ''c'' ?docs False [] = (Inr b, m)"
    by (simp only: insert_many_default_cases)
  then show ?thesis using insert_many_accounts [OF l] by auto
qed

end
