(* ===== verification/Subset.thy ===== *)
theory Subset
  imports Condition References Mongo
begin

text \<open>
  The subsetting engine (src/subset/database_subsetting.rs) over an abstract document source, and
  the source that reads a MongoDB deployment (src/subset/mongo_source.rs).

  The traversal keeps the set of visited keys and a stack of admitted documents whose references
  are still to be followed; it ends when the stack is empty. It is a \<open>partial_function\<close>, so that
  a traversal that never ends has the value \<open>None\<close>; a failed read is \<open>Some (Inl e)\<close>. The closure
  \<open>on_admit\<close> is a state transformer \<open>adm\<close>.
\<close>

section \<open>The engine\<close>

record document_source =
  ds_all :: "string \<Rightarrow> document list res"
  ds_find_by :: "string \<Rightarrow> string \<Rightarrow> bson \<Rightarrow> document list res"
  ds_seed :: "string \<Rightarrow> condition \<Rightarrow> document list res"

fun filter_eval :: "ext \<Rightarrow> condition \<Rightarrow> document list \<Rightarrow> document list res" where
  "filter_eval E cond [] = Inr []"
| "filter_eval E cond (d # ds) =
     (case eval_cond E cond d of
        None \<Rightarrow> Inl (Panicked ''slice index out of range'')
      | Some b \<Rightarrow> map_sum id (\<lambda>r. if b then d # r else r) (filter_eval E cond ds))"

definition seed_default ::
    "ext \<Rightarrow> (string \<Rightarrow> document list res) \<Rightarrow> string \<Rightarrow> condition \<Rightarrow> document list res" where
  "seed_default E all_docs coll cond =
     (case all_docs coll of Inl e \<Rightarrow> Inl e | Inr docs \<Rightarrow> filter_eval E cond docs)"

type_synonym conds = "(string \<times> condition) list"

fun parse_conds :: "(string \<times> string) list \<Rightarrow> conds \<Rightarrow> conds res" where
  "parse_conds [] parsed = Inr parsed"
| "parse_conds ((coll, e) # cs) parsed =
     (case parse_condition e of
        Inl err \<Rightarrow> Inl err
      | Inr c \<Rightarrow> parse_conds cs (bt_insert coll c parsed))"

record subset_engine =
  se_graph :: reference_graph
  se_conds :: conds

definition engine_new :: "reference_graph \<Rightarrow> (string \<times> string) list \<Rightarrow> subset_engine res" where
  "engine_new g cs = map_sum id (\<lambda>parsed. \<lparr>se_graph = g, se_conds = parsed\<rparr>) (parse_conds cs [])"

definition doc_id :: "ext \<Rightarrow> document \<Rightarrow> string" where
  "doc_id E doc =
     (case doc_get ''_id'' doc of Some v \<Rightarrow> bson_to_string E v | None \<Rightarrow> x_doc_debug E doc)"

definition doc_key :: "ext \<Rightarrow> string \<times> document \<Rightarrow> string" where
  "doc_key E p = fst p @ '':'' @ doc_id E (snd p)"

type_synonym item = "string \<times> document"

text \<open>The state of the traversal: visited keys, the stack (its top in front), the caller's state.\<close>

record 'a walk =
  w_visited :: "string set"
  w_work :: "item list"
  w_acc :: 'a

definition admit :: "ext \<Rightarrow> (item \<Rightarrow> 'a \<Rightarrow> 'a) \<Rightarrow> string \<Rightarrow> document \<Rightarrow> 'a walk \<Rightarrow> 'a walk" where
  "admit E adm coll doc w =
     (if doc_key E (coll, doc) \<in> w_visited w then w
      else \<lparr>w_visited = insert (doc_key E (coll, doc)) (w_visited w),
            w_work = (coll, doc) # w_work w, w_acc = adm (coll, doc) (w_acc w)\<rparr>)"

definition admit_all :: "ext \<Rightarrow> (item \<Rightarrow> 'a \<Rightarrow> 'a) \<Rightarrow> string \<Rightarrow> document list \<Rightarrow> 'a walk \<Rightarrow> 'a walk" where
  "admit_all E adm coll docs w = foldl (\<lambda>w d. admit E adm coll d w) w docs"

fun seed_all ::
    "ext \<Rightarrow> document_source \<Rightarrow> (item \<Rightarrow> 'a \<Rightarrow> 'a) \<Rightarrow> conds \<Rightarrow> 'a walk \<Rightarrow> 'a walk res" where
  "seed_all E src adm [] w = Inr w"
| "seed_all E src adm ((coll, cond) # cs) w =
     (case ds_seed src coll cond of
        Inl e \<Rightarrow> Inl e
      | Inr docs \<Rightarrow> seed_all E src adm cs (admit_all E adm coll docs w))"

text \<open>What one edge asks the source for: the target collection, field and value, if it resolves.\<close>

definition edge_request :: "virtual_reference \<Rightarrow> document \<Rightarrow> (string \<times> string \<times> bson) option" where
  "edge_request e doc =
     (case resolve_target e doc of
        None \<Rightarrow> None
      | Some t \<Rightarrow>
          (case get_path doc (from_field e) of
             None \<Rightarrow> None
           | Some v \<Rightarrow> Some (t, to_field e, v)))"

fun follow_edges ::
    "ext \<Rightarrow> document_source \<Rightarrow> (item \<Rightarrow> 'a \<Rightarrow> 'a) \<Rightarrow> document \<Rightarrow> virtual_reference list \<Rightarrow> 'a walk
       \<Rightarrow> 'a walk res" where
  "follow_edges E src adm doc [] w = Inr w"
| "follow_edges E src adm doc (e # es) w =
     (case edge_request e doc of
        None \<Rightarrow> follow_edges E src adm doc es w
      | Some (t, f, v) \<Rightarrow>
          (case ds_find_by src t f v of
             Inl err \<Rightarrow> Inl err
           | Inr docs \<Rightarrow> follow_edges E src adm doc es (admit_all E adm t docs w)))"

partial_function (option) work_loop ::
    "ext \<Rightarrow> document_source \<Rightarrow> reference_graph \<Rightarrow> (item \<Rightarrow> 'a \<Rightarrow> 'a) \<Rightarrow> 'a walk \<Rightarrow> 'a walk res option" where
  "work_loop E src g adm w =
     (case w_work w of
        [] \<Rightarrow> Some (Inr w)
      | p # rest \<Rightarrow>
          (case follow_edges E src adm (snd p) (references_from g (fst p)) (w\<lparr>w_work := rest\<rparr>) of
             Inl e \<Rightarrow> Some (Inl e)
           | Inr w' \<Rightarrow> work_loop E src g adm w'))"

declare work_loop.simps [code]

definition traverse ::
    "ext \<Rightarrow> subset_engine \<Rightarrow> document_source \<Rightarrow> (item \<Rightarrow> 'a \<Rightarrow> 'a) \<Rightarrow> 'a \<Rightarrow> 'a res option" where
  "traverse E eng src adm acc =
     (case seed_all E src adm (se_conds eng) \<lparr>w_visited = {}, w_work = [], w_acc = acc\<rparr> of
        Inl e \<Rightarrow> Some (Inl e)
      | Inr w \<Rightarrow> map_option (map_sum id w_acc) (work_loop E src (se_graph eng) adm w))"

text \<open>\<open>compute\<close> collects the documents, \<open>compute_ids\<close> their identifiers.\<close>

definition push_doc :: "item \<Rightarrow> (string \<times> document list) list \<Rightarrow> (string \<times> document list) list" where
  "push_doc p m = bt_push (fst p) (snd p) m"

definition push_id :: "item \<Rightarrow> (string \<times> bson list) list \<Rightarrow> (string \<times> bson list) list" where
  "push_id p m =
     (case doc_get ''_id'' (snd p) of None \<Rightarrow> m | Some i \<Rightarrow> bt_push (fst p) i m)"

definition compute_subset ::
    "ext \<Rightarrow> subset_engine \<Rightarrow> document_source \<Rightarrow> (string \<times> document list) list res option" where
  "compute_subset E eng src = traverse E eng src push_doc []"

definition compute_ids ::
    "ext \<Rightarrow> subset_engine \<Rightarrow> document_source \<Rightarrow> (string \<times> bson list) list res option" where
  "compute_ids E eng src = traverse E eng src push_id []"

section \<open>The MongoDB-backed source\<close>

definition add_field :: "string \<Rightarrow> string \<Rightarrow> (string \<times> string list) list \<Rightarrow> (string \<times> string list) list" where
  "add_field coll field m =
     bt_insert coll ((case kv_get coll m of None \<Rightarrow> [''_id''] | Some fs \<Rightarrow> fs) @ [field]) m"

definition project_edge ::
    "(string \<times> string list) list \<Rightarrow> virtual_reference \<Rightarrow> (string \<times> string list) list" where
  "project_edge m e =
     (let m1 = add_field (from_collection e) (from_field e) m;
          m2 = (case target e of
                  Polymorphic cases \<Rightarrow>
                    foldl (\<lambda>m (disc, _, _). add_field (from_collection e) disc m) m1 cases
                | Fixed c \<Rightarrow> m1)
      in foldl (\<lambda>m t. add_field t (to_field e) m) m2 (target_collections e))"

definition projections :: "reference_graph \<Rightarrow> (string \<times> string list) list" where
  "projections g = map (\<lambda>(c, fs). (c, remdups_adj (sort fs))) (foldl project_edge [] g)"

definition projection :: "reference_graph \<Rightarrow> string \<Rightarrow> string list" where
  "projection g coll = (case kv_get coll (projections g) of None \<Rightarrow> [] | Some fs \<Rightarrow> fs)"

definition ds_collect ::
    "mongo_source \<Rightarrow> string \<Rightarrow> reference_graph \<Rightarrow> string \<Rightarrow> document option \<Rightarrow> document list res" where
  "ds_collect src db g coll flt =
     stream_each (\<lambda>d out. Inr (out @ [d])) (ms_projected src db coll flt (projection g coll)) []"

definition mongo_document_source ::
    "ext \<Rightarrow> mongo_source \<Rightarrow> string \<Rightarrow> reference_graph \<Rightarrow> document_source" where
  "mongo_document_source E src db g =
     \<lparr>ds_all = (\<lambda>coll. ds_collect src db g coll None),
      ds_find_by = (\<lambda>coll field v. ds_collect src db g coll (Some (doc_insert field v []))),
      ds_seed = (\<lambda>coll cond.
        case to_filter E cond of
          None \<Rightarrow> Inl (Panicked ''slice index out of range'')
        | Some f \<Rightarrow> ds_collect src db g coll (Some f))\<rparr>"

section \<open>What the subset has to contain\<close>

text \<open>The specification: the seeded documents, and with a document all those an edge asks for.\<close>

inductive needed :: "document_source \<Rightarrow> subset_engine \<Rightarrow> item \<Rightarrow> bool"
  for src :: document_source and eng :: subset_engine where
  seeded: "(coll, cond) \<in> set (se_conds eng) \<Longrightarrow> ds_seed src coll cond = Inr docs \<Longrightarrow> d \<in> set docs \<Longrightarrow>
     needed src eng (coll, d)"
| referenced: "needed src eng p \<Longrightarrow> e \<in> set (references_from (se_graph eng) (fst p)) \<Longrightarrow>
     edge_request e (snd p) = Some (t, f, v) \<Longrightarrow> ds_find_by src t f v = Inr docs \<Longrightarrow> d \<in> set docs \<Longrightarrow>
     needed src eng (t, d)"

text \<open>A document whose requests \<open>es\<close> are all answered, with every answer's key among \<open>ks\<close>.\<close>

definition answered ::
    "ext \<Rightarrow> document_source \<Rightarrow> document \<Rightarrow> virtual_reference list \<Rightarrow> string set \<Rightarrow> bool" where
  "answered E src doc es ks =
     (\<forall>e \<in> set es. \<forall>t f v. edge_request e doc = Some (t, f, v) \<longrightarrow>
        (\<exists>docs. ds_find_by src t f v = Inr docs \<and> (\<forall>d \<in> set docs. doc_key E (t, d) \<in> ks)))"

lemma answered_mono: "answered E src doc es ks \<Longrightarrow> ks \<subseteq> ks' \<Longrightarrow> answered E src doc es ks'"
  unfolding answered_def by (meson subsetD)

text \<open>Whatever the requests \<open>es\<close> of a document yield satisfies \<open>P\<close>.\<close>

definition yields ::
    "document_source \<Rightarrow> document \<Rightarrow> virtual_reference list \<Rightarrow> (item \<Rightarrow> bool) \<Rightarrow> bool" where
  "yields src doc es P =
     (\<forall>e \<in> set es. \<forall>t f v docs. edge_request e doc = Some (t, f, v) \<longrightarrow>
        ds_find_by src t f v = Inr docs \<longrightarrow> (\<forall>d \<in> set docs. P (t, d)))"

lemma yields_Cons:
  "yields src doc (e # es) P \<longleftrightarrow> yields src doc [e] P \<and> yields src doc es P"
  by (auto simp: yields_def)

definition keys_in :: "ext \<Rightarrow> item list \<Rightarrow> string set" where
  "keys_in E log = doc_key E ` set log"

definition log_adm :: "item \<Rightarrow> item list \<Rightarrow> item list" where
  "log_adm p log = log @ [p]"

text \<open>The invariant of the traversal with the log of admitted documents as the caller's state.\<close>

definition walk_ok :: "ext \<Rightarrow> (item \<Rightarrow> bool) \<Rightarrow> item list walk \<Rightarrow> bool" where
  "walk_ok E P w =
     ((\<forall>p \<in> set (w_acc w). P p) \<and> set (w_work w) \<subseteq> set (w_acc w)
        \<and> w_visited w = keys_in E (w_acc w) \<and> distinct (map (doc_key E) (w_acc w)))"

text \<open>How one walk extends another: nothing is forgotten, and each admitted document costs one of
  the unvisited keys.\<close>

definition walk_le :: "ext \<Rightarrow> item list walk \<Rightarrow> item list walk \<Rightarrow> bool" where
  "walk_le E w w' =
     (\<exists>new. w_acc w' = w_acc w @ new \<and> set (w_work w') = set (w_work w) \<union> set new
        \<and> length (w_work w') = length (w_work w) + length new)"

lemma walk_le_refl [simp]: "walk_le E w w"
  by (simp add: walk_le_def)

lemma walk_le_trans: "walk_le E a b \<Longrightarrow> walk_le E b c \<Longrightarrow> walk_le E a c"
  by (auto simp: walk_le_def)

lemma admit_spec:
  assumes "walk_ok E P w" "P (coll, doc)"
  shows "walk_ok E P (admit E log_adm coll doc w) \<and> walk_le E w (admit E log_adm coll doc w)
    \<and> doc_key E (coll, doc) \<in> keys_in E (w_acc (admit E log_adm coll doc w))"
  using assms by (auto simp: walk_ok_def admit_def walk_le_def keys_in_def log_adm_def)

lemma walk_le_keys: "walk_le E w w' \<Longrightarrow> keys_in E (w_acc w) \<subseteq> keys_in E (w_acc w')"
  by (auto simp: walk_le_def keys_in_def)

lemma admit_all_spec:
  assumes "walk_ok E P w" "\<forall>d \<in> set docs. P (coll, d)"
  shows "walk_ok E P (admit_all E log_adm coll docs w) \<and> walk_le E w (admit_all E log_adm coll docs w)
    \<and> (\<forall>d \<in> set docs. doc_key E (coll, d) \<in> keys_in E (w_acc (admit_all E log_adm coll docs w)))"
  using assms
proof (induction docs arbitrary: w)
  case (Cons d ds)
  let ?w = "admit E log_adm coll d w"
  note 1 = admit_spec [OF Cons.prems(1), of coll d]
  then have 2: "walk_ok E P ?w" "walk_le E w ?w" "doc_key E (coll, d) \<in> keys_in E (w_acc ?w)"
    using Cons.prems(2) by auto
  from Cons.IH [OF 2(1)] Cons.prems(2)
  have 3: "walk_ok E P (admit_all E log_adm coll ds ?w)" "walk_le E ?w (admit_all E log_adm coll ds ?w)"
    "\<forall>d \<in> set ds. doc_key E (coll, d) \<in> keys_in E (w_acc (admit_all E log_adm coll ds ?w))"
    by auto
  have "admit_all E log_adm coll (d # ds) w = admit_all E log_adm coll ds ?w"
    by (simp add: admit_all_def)
  with 2 3 walk_le_trans [OF 2(2) 3(2)] walk_le_keys [OF 3(2)] show ?case by auto
qed (simp add: admit_all_def)

lemma follow_edges_spec:
  assumes "walk_ok E P w" "follow_edges E src log_adm doc es w = Inr w'" "yields src doc es P"
  shows "walk_ok E P w' \<and> walk_le E w w' \<and> answered E src doc es (keys_in E (w_acc w'))"
  using assms
proof (induction es arbitrary: w)
  case (Cons e es)
  have y: "yields src doc [e] P" "yields src doc es P" using Cons.prems(3) yields_Cons by blast+
  show ?case
  proof (cases "edge_request e doc")
    case None
    have "walk_ok E P w' \<and> walk_le E w w' \<and> answered E src doc es (keys_in E (w_acc w'))"
      by (rule Cons.IH [OF Cons.prems(1) _ y(2)]) (use Cons.prems(2) None in simp)
    with None show ?thesis by (simp add: answered_def)
  next
    case (Some q)
    obtain t f v where q: "q = (t, f, v)" by (cases q)
    obtain docs where docs: "ds_find_by src t f v = Inr docs"
        "follow_edges E src log_adm doc es (admit_all E log_adm t docs w) = Inr w'"
      using Cons.prems(2) Some q by (auto split: sum.splits)
    let ?w = "admit_all E log_adm t docs w"
    have 1: "walk_ok E P ?w" "walk_le E w ?w" "\<forall>d \<in> set docs. doc_key E (t, d) \<in> keys_in E (w_acc ?w)"
      using admit_all_spec [OF Cons.prems(1), of docs t] y(1) Some q docs(1) by (auto simp: yields_def)
    have 2: "walk_ok E P w' \<and> walk_le E ?w w' \<and> answered E src doc es (keys_in E (w_acc w'))"
      by (rule Cons.IH [OF 1(1) docs(2) y(2)])
    have "\<forall>d \<in> set docs. doc_key E (t, d) \<in> keys_in E (w_acc w')"
      using 1(3) walk_le_keys 2 by blast
    with 2 walk_le_trans [OF 1(2)] Some q docs(1) show ?thesis
      by (auto simp: answered_def)
  qed
qed (simp add: answered_def)

text \<open>The main loop: every admitted document that is off the stack has its requests answered.\<close>

definition settled :: "ext \<Rightarrow> document_source \<Rightarrow> reference_graph \<Rightarrow> item list walk \<Rightarrow> bool" where
  "settled E src g w =
     (\<forall>p \<in> set (w_acc w) - set (w_work w).
        answered E src (snd p) (references_from g (fst p)) (keys_in E (w_acc w)))"

definition walk_measure :: "string set \<Rightarrow> item list walk \<Rightarrow> nat" where
  "walk_measure K w = 2 * card (K - w_visited w) + length (w_work w)"

lemma measure_le:
  assumes K: "finite K" and ok: "walk_ok E P w'" and P: "\<And>p. P p \<Longrightarrow> doc_key E p \<in> K"
    and le: "walk_le E w w'" and vis: "w_visited w = keys_in E (w_acc w)"
  shows "walk_measure K w' \<le> walk_measure K w"
proof -
  obtain new where new: "w_acc w' = w_acc w @ new" "length (w_work w') = length (w_work w) + length new"
    using le by (auto simp: walk_le_def)
  have dist: "distinct (map (doc_key E) (w_acc w @ new))" and inK: "\<forall>p \<in> set new. doc_key E p \<in> K"
    using ok P new(1) by (auto simp: walk_ok_def)
  let ?N = "doc_key E ` set new"
  have vis': "K - w_visited w' = (K - w_visited w) - ?N"
    using ok new(1) vis by (auto simp: walk_ok_def keys_in_def)
  have sub: "?N \<subseteq> K - w_visited w" using dist inK vis by (auto simp: keys_in_def)
  have cardN: "card ?N = length new"
    using dist distinct_card [of "map (doc_key E) new"] by simp
  have "card (K - w_visited w') = card (K - w_visited w) - length new"
    unfolding vis' using card_Diff_subset [of ?N "K - w_visited w"] sub cardN by simp
  moreover have "length new \<le> card (K - w_visited w)"
    using card_mono [OF _ sub] K cardN by simp
  ultimately show ?thesis using new(2) by (simp add: walk_measure_def)
qed

lemma references_yield:
  assumes "needed src eng p"
  shows "yields src (snd p) (references_from (se_graph eng) (fst p)) (needed src eng)"
  using assms referenced unfolding yields_def by blast

lemma work_loop_spec:
  assumes K: "finite K" "\<And>p. needed src eng p \<Longrightarrow> doc_key E p \<in> K"
    and ok: "walk_ok E (needed src eng) w" "settled E src (se_graph eng) w"
  shows "\<exists>r. work_loop E src (se_graph eng) log_adm w = Some r
    \<and> (\<forall>w'. r = Inr w' \<longrightarrow> walk_ok E (needed src eng) w' \<and> w_work w' = []
          \<and> settled E src (se_graph eng) w' \<and> prefix (w_acc w) (w_acc w'))"
  using ok
proof (induction "walk_measure K w" arbitrary: w rule: less_induct)
  case less
  show ?case
  proof (cases "w_work w")
    case Nil
    then show ?thesis
      using less.prems by (subst work_loop.simps) simp
  next
    case (Cons p rest)
    let ?w = "w\<lparr>w_work := rest\<rparr>"
    let ?r = "follow_edges E src log_adm (snd p) (references_from (se_graph eng) (fst p)) ?w"
    have unfold: "work_loop E src (se_graph eng) log_adm w =
        (case ?r of Inl e \<Rightarrow> Some (Inl e) | Inr w' \<Rightarrow> work_loop E src (se_graph eng) log_adm w')"
      using Cons by (subst work_loop.simps) simp
    show ?thesis
    proof (cases ?r)
      case (Inl e)
      with unfold show ?thesis by simp
    next
      case (Inr w1)
      have p: "needed src eng p" and ok: "walk_ok E (needed src eng) ?w"
        using less.prems(1) Cons by (auto simp: walk_ok_def)
      note 1 = follow_edges_spec [OF ok Inr references_yield [OF p]]
      have "walk_measure K w1 \<le> walk_measure K ?w"
        by (rule measure_le [OF K(1) _ K(2)]) (use 1 ok in \<open>auto simp: walk_ok_def\<close>)
      then have dec: "walk_measure K w1 < walk_measure K w" using Cons by (simp add: walk_measure_def)
      have keys: "keys_in E (w_acc w) \<subseteq> keys_in E (w_acc w1)" using walk_le_keys [of E ?w w1] 1 by simp
      have "settled E src (se_graph eng) w1"
        unfolding settled_def
      proof
        fix q assume q: "q \<in> set (w_acc w1) - set (w_work w1)"
        obtain new where "w_acc w1 = w_acc w @ new" "set (w_work w1) = set rest \<union> set new"
          using 1 unfolding walk_le_def by auto
        with q have "q \<in> set (w_acc w) - set rest" by auto
        then consider "q = p" | "q \<in> set (w_acc w) - set (w_work w)" using Cons by auto
        then show "answered E src (snd q) (references_from (se_graph eng) (fst q)) (keys_in E (w_acc w1))"
          by cases (use 1 less.prems(2) keys in \<open>auto simp: settled_def intro: answered_mono\<close>)
      qed
      with less.hyps [OF dec] 1 obtain r where r: "work_loop E src (se_graph eng) log_adm w1 = Some r"
          "\<forall>w'. r = Inr w' \<longrightarrow> walk_ok E (needed src eng) w' \<and> w_work w' = []
          \<and> settled E src (se_graph eng) w' \<and> prefix (w_acc w1) (w_acc w')"
        by blast
      have "prefix (w_acc w) (w_acc w1)" using 1 by (auto simp: walk_le_def)
      with r show ?thesis using prefix_order.trans by (auto simp: unfold Inr)
    qed
  qed
qed

text \<open>Seeding: what the conditions select is required, and admitted.\<close>

lemma seed_all_spec:
  assumes "walk_ok E P w" "seed_all E src log_adm cs w = Inr w'" "set (w_work w) = set (w_acc w)"
    and "\<And>coll cond docs d. (coll, cond) \<in> set cs \<Longrightarrow> ds_seed src coll cond = Inr docs \<Longrightarrow> d \<in> set docs \<Longrightarrow>
      P (coll, d)"
  shows "walk_ok E P w' \<and> walk_le E w w' \<and> set (w_work w') = set (w_acc w')
    \<and> (\<forall>(coll, cond) \<in> set cs. \<exists>docs. ds_seed src coll cond = Inr docs
         \<and> (\<forall>d \<in> set docs. doc_key E (coll, d) \<in> keys_in E (w_acc w')))"
  using assms
proof (induction cs arbitrary: w)
  case (Cons c cs)
  obtain coll cond where c: "c = (coll, cond)" by (cases c)
  obtain docs where docs: "ds_seed src coll cond = Inr docs"
      "seed_all E src log_adm cs (admit_all E log_adm coll docs w) = Inr w'"
    using Cons.prems(2) c by (auto split: sum.splits)
  let ?w = "admit_all E log_adm coll docs w"
  have P: "\<forall>d \<in> set docs. P (coll, d)" using Cons.prems(4) [of coll cond docs] c docs(1) by simp
  note 1 = admit_all_spec [OF Cons.prems(1) P]
  have 2: "set (w_work ?w) = set (w_acc ?w)" using 1 Cons.prems(3) by (auto simp: walk_le_def)
  have 3: "walk_ok E P w' \<and> walk_le E ?w w' \<and> set (w_work w') = set (w_acc w')
    \<and> (\<forall>(coll, cond) \<in> set cs. \<exists>docs. ds_seed src coll cond = Inr docs
         \<and> (\<forall>d \<in> set docs. doc_key E (coll, d) \<in> keys_in E (w_acc w')))"
    by (rule Cons.IH [OF _ docs(2) 2]) (use 1 Cons.prems(4) in \<open>auto intro: Cons.prems(4)\<close>)
  have "\<forall>d \<in> set docs. doc_key E (coll, d) \<in> keys_in E (w_acc w')"
    using 1 walk_le_keys [of E ?w w'] 3 by blast
  with 3 1 walk_le_trans [of E w ?w w'] docs(1) show ?case by (auto simp: c)
qed simp

definition start_walk :: "'a \<Rightarrow> 'a walk" where
  "start_walk acc = \<lparr>w_visited = {}, w_work = [], w_acc = acc\<rparr>"

definition subset_log :: "ext \<Rightarrow> subset_engine \<Rightarrow> document_source \<Rightarrow> item list res option" where
  "subset_log E eng src = traverse E eng src log_adm []"

text \<open>A log that is closed: sound, duplicate-free, with every seed and every request answered.\<close>

definition closed_log :: "ext \<Rightarrow> subset_engine \<Rightarrow> document_source \<Rightarrow> item list \<Rightarrow> bool" where
  "closed_log E eng src log =
     ((\<forall>p \<in> set log. needed src eng p) \<and> distinct (map (doc_key E) log)
        \<and> (\<forall>p \<in> set log. answered E src (snd p) (references_from (se_graph eng) (fst p)) (keys_in E log))
        \<and> (\<forall>(coll, cond) \<in> set (se_conds eng). \<exists>docs. ds_seed src coll cond = Inr docs
             \<and> (\<forall>d \<in> set docs. doc_key E (coll, d) \<in> keys_in E log)))"

lemma subset_log_spec:
  assumes "finite {p. needed src eng p}"
  shows "\<exists>r. subset_log E eng src = Some r \<and> (\<forall>log. r = Inr log \<longrightarrow> closed_log E eng src log)"
proof (cases "seed_all E src log_adm (se_conds eng) (start_walk [])")
  case (Inl e)
  then show ?thesis by (simp add: subset_log_def traverse_def start_walk_def)
next
  case (Inr w)
  let ?R = "needed src eng"
  have 0: "walk_ok E ?R (start_walk [])" by (simp add: walk_ok_def start_walk_def keys_in_def)
  have 1: "walk_ok E ?R w \<and> walk_le E (start_walk []) w \<and> set (w_work w) = set (w_acc w)
    \<and> (\<forall>(coll, cond) \<in> set (se_conds eng). \<exists>docs. ds_seed src coll cond = Inr docs
         \<and> (\<forall>d \<in> set docs. doc_key E (coll, d) \<in> keys_in E (w_acc w)))"
    by (rule seed_all_spec [OF 0 Inr]) (auto simp: start_walk_def intro: seeded)
  let ?K = "doc_key E ` {p. ?R p}"
  obtain r where r: "work_loop E src (se_graph eng) log_adm w = Some r"
      "\<forall>w'. r = Inr w' \<longrightarrow> walk_ok E ?R w' \<and> w_work w' = []
          \<and> settled E src (se_graph eng) w' \<and> prefix (w_acc w) (w_acc w')"
    using work_loop_spec [of ?K src eng E w] assms 1 by (auto simp: settled_def)
  have log: "subset_log E eng src = Some (map_sum id w_acc r)"
    using Inr r(1) by (simp add: subset_log_def traverse_def start_walk_def)
  have "closed_log E eng src (w_acc w')" if w': "r = Inr w'" for w'
  proof -
    have "keys_in E (w_acc w) \<subseteq> keys_in E (w_acc w')"
      using r(2) w' set_mono_prefix by (fastforce simp: keys_in_def)
    moreover have "walk_ok E ?R w' \<and> w_work w' = [] \<and> settled E src (se_graph eng) w'"
      using r(2) w' by blast
    ultimately show ?thesis
      using 1 unfolding closed_log_def walk_ok_def settled_def by fastforce
  qed
  with log show ?thesis by (auto simp: map_sum_Inr)
qed

text \<open>With keys that tell required documents apart, a closed log is the required documents.\<close>

lemma closed_log_key:
  assumes log: "closed_log E eng src log" and inj: "inj_on (doc_key E) {p. needed src eng p}"
    and p: "needed src eng p" "doc_key E p \<in> keys_in E log"
  shows "p \<in> set log"
proof -
  obtain q where q: "q \<in> set log" "doc_key E p = doc_key E q" using p(2) by (auto simp: keys_in_def)
  moreover have "needed src eng q" using log q(1) by (simp add: closed_log_def)
  ultimately show ?thesis using inj_onD [OF inj q(2)] p(1) by simp
qed

lemma closed_log_complete:
  assumes log: "closed_log E eng src log" and inj: "inj_on (doc_key E) {p. needed src eng p}"
  shows "needed src eng p \<Longrightarrow> p \<in> set log"
proof (induction rule: needed.induct)
  case (seeded coll cond docs d)
  have "\<forall>(coll, cond) \<in> set (se_conds eng). \<exists>docs. ds_seed src coll cond = Inr docs
      \<and> (\<forall>d \<in> set docs. doc_key E (coll, d) \<in> keys_in E log)"
    using log by (simp add: closed_log_def)
  with seeded have "doc_key E (coll, d) \<in> keys_in E log" by auto
  then show ?case by (rule closed_log_key [OF log inj needed.seeded [OF seeded]])
next
  case (referenced p e t f v docs d)
  have "answered E src (snd p) (references_from (se_graph eng) (fst p)) (keys_in E log)"
    using log referenced.IH by (simp add: closed_log_def)
  with referenced.hyps have "doc_key E (t, d) \<in> keys_in E log" by (auto simp: answered_def)
  then show ?case by (rule closed_log_key [OF log inj needed.referenced [OF referenced.hyps]])
qed

lemma closed_log_set:
  assumes "closed_log E eng src log" "inj_on (doc_key E) {p. needed src eng p}"
  shows "set log = {p. needed src eng p}"
proof
  show "set log \<subseteq> {p. needed src eng p}" using assms(1) by (auto simp: closed_log_def)
  show "{p. needed src eng p} \<subseteq> set log" using closed_log_complete [OF assms] by blast
qed

section \<open>Any closure against the log\<close>

text \<open>Running with the closure \<open>adm\<close> is running with the log and replaying it into \<open>adm\<close>.\<close>

definition replay :: "(item \<Rightarrow> 'a \<Rightarrow> 'a) \<Rightarrow> 'a \<Rightarrow> item list walk \<Rightarrow> 'a walk" where
  "replay adm acc w =
     \<lparr>w_visited = w_visited w, w_work = w_work w, w_acc = fold adm (w_acc w) acc\<rparr>"

lemma replay_sel [simp]:
  "w_visited (replay adm acc w) = w_visited w" "w_work (replay adm acc w) = w_work w"
  "w_acc (replay adm acc w) = fold adm (w_acc w) acc"
  "(replay adm acc w)\<lparr>w_work := rest\<rparr> = replay adm acc (w\<lparr>w_work := rest\<rparr>)"
  by (simp_all add: replay_def)

lemma admit_replay: "admit E adm coll d (replay adm acc w) = replay adm acc (admit E log_adm coll d w)"
  by (simp add: admit_def replay_def log_adm_def)

lemma admit_all_replay:
  "admit_all E adm coll ds (replay adm acc w) = replay adm acc (admit_all E log_adm coll ds w)"
  unfolding admit_all_def by (induction ds arbitrary: w) (simp_all add: admit_replay)

lemma follow_edges_replay:
  "follow_edges E src adm doc es (replay adm acc w) =
     map_sum id (replay adm acc) (follow_edges E src log_adm doc es w)"
  by (induction es arbitrary: w) (auto simp: admit_all_replay split: option.splits sum.splits)

lemma seed_all_replay:
  "seed_all E src adm cs (replay adm acc w) = map_sum id (replay adm acc) (seed_all E src log_adm cs w)"
  by (induction cs arbitrary: w) (auto simp: admit_all_replay split: sum.splits)

lemma work_loop_replay_aux:
  assumes "work_loop E src g ladm w = Some r"
  shows "ladm = log_adm \<longrightarrow>
     work_loop E src g adm (replay adm acc w) = Some (map_sum id (replay adm acc) r)"
  using assms
proof (rule work_loop.raw_induct [rotated])
  fix loop E src g ladm w r
  assume IH: "\<And>src g ladm w b y. loop src g ladm w b = Some y \<Longrightarrow>
      w = log_adm \<longrightarrow> work_loop src g ladm adm (replay adm acc b) = Some (map_sum id (replay adm acc) y)"
    and body: "(case w_work w of [] \<Rightarrow> Some (Inr w)
      | p # rest \<Rightarrow>
          case follow_edges E src ladm (snd p) (references_from g (fst p)) (w\<lparr>w_work := rest\<rparr>) of
            Inl e \<Rightarrow> Some (Inl e) | Inr w' \<Rightarrow> loop E src g ladm w') = Some r"
  show "ladm = log_adm \<longrightarrow>
     work_loop E src g adm (replay adm acc w) = Some (map_sum id (replay adm acc) r)"
  proof (intro impI)
    assume l: "ladm = log_adm"
    show "work_loop E src g adm (replay adm acc w) = Some (map_sum id (replay adm acc) r)"
    proof (cases "w_work w")
      case Nil
      with body show ?thesis by (subst work_loop.simps) auto
    next
      case (Cons p rest)
      let ?r = "follow_edges E src log_adm (snd p) (references_from g (fst p)) (w\<lparr>w_work := rest\<rparr>)"
      show ?thesis
      proof (cases ?r)
        case (Inl e)
        with body Cons l show ?thesis by (subst work_loop.simps) (auto simp: follow_edges_replay)
      next
        case (Inr w')
        with body Cons l have "loop E src g ladm w' = Some r" by simp
        then have IH: "work_loop E src g adm (replay adm acc w') = Some (map_sum id (replay adm acc) r)"
          using IH [of E src g ladm w'] l by blast
        have "work_loop E src g adm (replay adm acc w) = work_loop E src g adm (replay adm acc w')"
          using Inr Cons by (subst work_loop.simps) (simp add: follow_edges_replay)
        with IH show ?thesis by (simp only:)
      qed
    qed
  qed
qed

lemma traverse_replay:
  assumes "subset_log E eng src = Some r"
  shows "traverse E eng src adm acc = Some (map_sum id (\<lambda>log. fold adm log acc) r)"
proof -
  have start: "\<lparr>w_visited = {}, w_work = [], w_acc = acc\<rparr> = replay adm acc (start_walk [])"
    by (simp add: replay_def start_walk_def)
  have log: "subset_log E eng src =
      (case seed_all E src log_adm (se_conds eng) (start_walk []) of
         Inl e \<Rightarrow> Some (Inl e)
       | Inr w \<Rightarrow> map_option (map_sum id w_acc) (work_loop E src (se_graph eng) log_adm w))"
    by (simp add: subset_log_def traverse_def start_walk_def)
  show ?thesis
  proof (cases "seed_all E src log_adm (se_conds eng) (start_walk [])")
    case (Inl e)
    with assms log show ?thesis by (simp add: traverse_def start seed_all_replay) auto
  next
    case (Inr w)
    then obtain r' where r': "work_loop E src (se_graph eng) log_adm w = Some r'" "r = map_sum id w_acc r'"
      using assms log by auto
    have "work_loop E src (se_graph eng) adm (replay adm acc w) = Some (map_sum id (replay adm acc) r')"
      by (rule mp [OF work_loop_replay_aux [OF r'(1)] refl])
    with Inr r'(2) show ?thesis
      by (cases r') (simp_all add: traverse_def start seed_all_replay)
  qed
qed

text \<open>What a collection holds in the two results.\<close>

definition entries_of :: "string \<Rightarrow> (string \<times> 'v list) list \<Rightarrow> 'v list" where
  "entries_of coll m = (case kv_get coll m of None \<Rightarrow> [] | Some xs \<Rightarrow> xs)"

lemma entries_push: "entries_of coll (bt_push c x m) = entries_of coll m @ (if coll = c then [x] else [])"
  by (simp add: entries_of_def bt_get_push)

lemma entries_fold_docs:
  "entries_of coll (fold push_doc log m) = entries_of coll m @ map snd (filter (\<lambda>p. fst p = coll) log)"
  by (induction log arbitrary: m) (auto simp: push_doc_def entries_push)

definition doc_ids :: "document list \<Rightarrow> bson list" where
  "doc_ids docs = List.map_filter (doc_get ''_id'') docs"

lemma doc_ids_simps [simp]:
  "doc_ids [] = []"
  "doc_ids (d # ds) = (case doc_get ''_id'' d of None \<Rightarrow> doc_ids ds | Some i \<Rightarrow> i # doc_ids ds)"
  by (simp_all add: doc_ids_def map_filter_simps split: option.splits)

lemma entries_fold_ids:
  "entries_of coll (fold push_id log m) =
     entries_of coll m @ doc_ids (map snd (filter (\<lambda>p. fst p = coll) log))"
  by (induction log arbitrary: m) (auto simp: push_id_def entries_push split: option.splits)

lemma entries_Nil [simp]: "entries_of coll [] = []"
  by (simp add: entries_of_def)

text \<open>The result of \<open>compute\<close> comes from a closed log.\<close>

lemma compute_subset_log:
  assumes "finite {p. needed src eng p}" "compute_subset E eng src = Some (Inr m)"
  shows "\<exists>log. closed_log E eng src log \<and> m = fold push_doc log []"
proof -
  obtain r where r: "subset_log E eng src = Some r" "\<forall>log. r = Inr log \<longrightarrow> closed_log E eng src log"
    using subset_log_spec [OF assms(1), of E] by blast
  with assms(2) show ?thesis
    by (cases r) (auto simp: compute_subset_def traverse_replay)
qed

lemma compute_ids_log:
  assumes "finite {p. needed src eng p}" "compute_ids E eng src = Some (Inr ids)"
  shows "\<exists>log. closed_log E eng src log \<and> ids = fold push_id log []"
proof -
  obtain r where r: "subset_log E eng src = Some r" "\<forall>log. r = Inr log \<longrightarrow> closed_log E eng src log"
    using subset_log_spec [OF assms(1), of E] by blast
  with assms(2) show ?thesis
    by (cases r) (auto simp: compute_ids_def traverse_replay)
qed

text \<open>So the identifiers of a collection are those of its required documents.\<close>

lemma compute_ids_members:
  assumes "finite {p. needed src eng p}" "inj_on (doc_key E) {p. needed src eng p}"
    and "compute_ids E eng src = Some (Inr ids)"
  shows "set (entries_of coll ids) = {i. \<exists>d. needed src eng (coll, d) \<and> doc_get ''_id'' d = Some i}"
proof -
  obtain log where log: "closed_log E eng src log" "ids = fold push_id log []"
    using compute_ids_log [OF assms(1,3)] by blast
  have "set (doc_ids ds) = {i. \<exists>d \<in> set ds. doc_get ''_id'' d = Some i}" for ds
    by (induction ds) (auto split: option.splits)
  then show ?thesis
    using closed_log_set [OF log(1) assms(2)] by (force simp: log(2) entries_fold_ids)
qed

section \<open>Finite sources\<close>

text \<open>
  The interface under which the traversal ends: every document a read returns comes from a finite
  stock. A deployment at rest is such a source.
\<close>

locale finite_source =
  fixes src :: document_source and stock :: "item set"
  assumes finite_stock: "finite stock"
    and seed_stock: "ds_seed src coll cond = Inr docs \<Longrightarrow> d \<in> set docs \<Longrightarrow> (coll, d) \<in> stock"
    and find_stock: "ds_find_by src coll f v = Inr docs \<Longrightarrow> d \<in> set docs \<Longrightarrow> (coll, d) \<in> stock"
begin

lemma required_stock: "needed src eng p \<Longrightarrow> p \<in> stock"
  by (induction rule: needed.induct) (auto intro: seed_stock find_stock)

lemma finite_required: "finite {p. needed src eng p}"
  by (rule finite_subset [OF _ finite_stock]) (auto intro: required_stock)

end

text \<open>What an in-memory deployment holds in one database.\<close>

definition mem_stock :: "mem \<Rightarrow> string \<Rightarrow> item set" where
  "mem_stock m db = {(coll, d). d \<in> set (mem_documents db coll m)}"

lemma finite_mem_stock: "finite (mem_stock m db)"
proof -
  have "mem_stock m db \<subseteq> (\<Union>p \<in> set m. (\<lambda>d. (snd (fst p), d)) ` set (d_documents (snd p)))"
  proof
    fix x assume "x \<in> mem_stock m db"
    then obtain coll d where x: "x = (coll, d)" "d \<in> set (mem_documents db coll m)"
      by (auto simp: mem_stock_def)
    then obtain c where "kv_get (db, coll) m = Some c" "d \<in> set (d_documents c)"
      by (cases "kv_get (db, coll) m") (auto simp: mem_documents_def)
    with x(1) kv_get_in show "x \<in> (\<Union>p \<in> set m. (\<lambda>d. (snd (fst p), d)) ` set (d_documents (snd p)))"
      by (intro UN_I [of "((db, coll), c)"]) auto
  qed
  then show ?thesis by (rule finite_subset) simp
qed

lemma each_doc_collect: "each_doc (\<lambda>d out. Inr (out @ [d])) ds out = Inr (out @ ds)"
  by (induction ds arbitrary: out) auto

lemma ds_collect_mem:
  "ds_collect (mem_source m) db g coll flt = Inr docs \<Longrightarrow> set docs \<subseteq> set (mem_documents db coll m)"
  by (auto simp: ds_collect_def stream_each_def each_doc_collect mem_source_def projected_default_def
      stream_default_def mem_read_filtered_def mem_read_def mem_documents_def
      split: sum.splits option.splits)

interpretation mem_docs: finite_source "mongo_document_source E (mem_source m) db g" "mem_stock m db"
  for E m db g
proof unfold_locales
  show "finite (mem_stock m db)" by (rule finite_mem_stock)
  fix coll cond docs d
  assume "ds_seed (mongo_document_source E (mem_source m) db g) coll cond = Inr docs" "d \<in> set docs"
  then show "(coll, d) \<in> mem_stock m db"
    using ds_collect_mem by (force simp: mongo_document_source_def mem_stock_def split: option.splits)
next
  fix coll f v docs d
  assume "ds_find_by (mongo_document_source E (mem_source m) db g) coll f v = Inr docs" "d \<in> set docs"
  then show "(coll, d) \<in> mem_stock m db"
    using ds_collect_mem by (force simp: mongo_document_source_def mem_stock_def)
qed

section \<open>Properties\<close>

text \<open>
  C5. The subset is exactly the closure: when the traversal succeeds, each collection of the result
  holds the documents that are selected by its condition or transitively required by a declared
  reference, no others, and none of them twice. The documents involved are finitely many, and
  their keys \<open>collection:id\<close> tell them apart.
\<close>

theorem subset_exact:
  assumes "finite {p. needed src eng p}" "inj_on (doc_key E) {p. needed src eng p}"
    and "compute_subset E eng src = Some (Inr m)"
  shows "set (entries_of coll m) = {d. needed src eng (coll, d)} \<and> distinct (entries_of coll m)"
proof -
  obtain log where log: "closed_log E eng src log" "m = fold push_doc log []"
    using compute_subset_log [OF assms(1,3)] by blast
  have entries: "entries_of coll m = map snd (filter (\<lambda>p. fst p = coll) log)"
    by (simp add: log(2) entries_fold_docs)
  have "distinct log" using log(1) by (simp add: closed_log_def distinct_map)
  then have "distinct (entries_of coll m)"
    by (auto simp: entries distinct_map inj_on_def intro: prod_eqI)
  moreover have "set (entries_of coll m) = {d. (coll, d) \<in> set log}"
    by (force simp: entries)
  ultimately show ?thesis using closed_log_set [OF log(1) assms(2)] by simp
qed

text \<open>
  C4. The subset is referentially intact: for every document in it and every declared reference
  that resolves on it, the lookup of the referenced value succeeded and every document it found
  is in the subset, in the target's collection.
\<close>

theorem subset_referentially_intact:
  assumes "finite {p. needed src eng p}" "inj_on (doc_key E) {p. needed src eng p}"
    and "compute_subset E eng src = Some (Inr m)"
    and "d \<in> set (entries_of coll m)" "e \<in> set (references_from (se_graph eng) coll)"
    and "edge_request e d = Some (t, f, v)"
  shows "\<exists>docs. ds_find_by src t f v = Inr docs \<and> set docs \<subseteq> set (entries_of t m)"
proof -
  obtain log where log: "closed_log E eng src log" "m = fold push_doc log []"
    using compute_subset_log [OF assms(1,3)] by blast
  have mem: "set (entries_of c m) = {d. needed src eng (c, d)}" for c
    using closed_log_set [OF log(1) assms(2)] by (force simp: log(2) entries_fold_docs)
  have req: "needed src eng (coll, d)" using assms(4) mem by simp
  then have "(coll, d) \<in> set log" using closed_log_set [OF log(1) assms(2)] by simp
  then have "answered E src d (references_from (se_graph eng) coll) (keys_in E log)"
    using log(1) by (fastforce simp: closed_log_def)
  then obtain docs where docs: "ds_find_by src t f v = Inr docs"
    using assms(5,6) unfolding answered_def by blast
  have "set docs \<subseteq> set (entries_of t m)"
    using referenced [OF req, of e t f v docs] assms(5,6) docs by (auto simp: mem)
  with docs show ?thesis by blast
qed

text \<open>
  C7. The traversal ends, cyclic references included: whenever only finitely many documents are
  required, computing the subset or its identifiers returns a result or an error.
\<close>

theorem subset_terminates:
  assumes "finite {p. needed src eng p}"
  shows "(\<exists>r. compute_subset E eng src = Some r) \<and> (\<exists>r. compute_ids E eng src = Some r)"
  using subset_log_spec [OF assms, of E]
  by (auto simp: compute_subset_def compute_ids_def traverse_replay)

text \<open>
  C6. A failed read aborts: if the lookup of a reference of some required document fails, neither
  computation returns a subset; each returns an error.
\<close>

theorem subset_read_failure_aborts:
  assumes "finite {p. needed src eng p}" "inj_on (doc_key E) {p. needed src eng p}"
    and "needed src eng (coll, d)" "e \<in> set (references_from (se_graph eng) coll)"
    and "edge_request e d = Some (t, f, v)" "ds_find_by src t f v = Inl err"
  shows "(\<exists>x. compute_subset E eng src = Some (Inl x)) \<and> (\<exists>x. compute_ids E eng src = Some (Inl x))"
proof -
  obtain r where r: "subset_log E eng src = Some r" "\<forall>log. r = Inr log \<longrightarrow> closed_log E eng src log"
    using subset_log_spec [OF assms(1), of E] by blast
  have "\<not> closed_log E eng src log" for log
  proof
    assume log: "closed_log E eng src log"
    then have "(coll, d) \<in> set log" using closed_log_complete [OF log assms(2,3)] by simp
    then have "answered E src d (references_from (se_graph eng) coll) (keys_in E log)"
      using log by (fastforce simp: closed_log_def)
    with assms(4-6) show False by (auto simp: answered_def)
  qed
  with r obtain x where "r = Inl x" by (cases r) auto
  with r(1) show ?thesis by (simp add: compute_subset_def compute_ids_def traverse_replay)
qed

text \<open>
  \<open>compute_ids\<close> computes the same closure as \<open>compute\<close>: it fails with the same error, and its
  result holds, per collection and in the same order, the identifiers of the documents that have one.
\<close>

theorem compute_ids_projects:
  assumes "finite {p. needed src eng p}"
  shows "case compute_subset E eng src of
      None \<Rightarrow> False
    | Some (Inl err) \<Rightarrow> compute_ids E eng src = Some (Inl err)
    | Some (Inr m) \<Rightarrow> \<exists>ids. compute_ids E eng src = Some (Inr ids)
        \<and> (\<forall>coll. entries_of coll ids = doc_ids (entries_of coll m))"
proof -
  obtain r where r: "subset_log E eng src = Some r"
    using subset_log_spec [OF assms, of E] by blast
  show ?thesis
    by (cases r)
       (simp_all add: compute_subset_def compute_ids_def traverse_replay [OF r] entries_fold_docs
          entries_fold_ids)
qed

section \<open>An example\<close>

text \<open>Two orders and the users they reference; the subset starts from the first order.\<close>

definition shop :: mem where
  "shop =
     mem_seed ((empty_collection ''s'' ''orders'')\<lparr>d_documents :=
       [[(''_id'', BInt64 1), (''user'', BInt64 10)], [(''_id'', BInt64 2), (''user'', BInt64 20)]]\<rparr>)
    (mem_seed ((empty_collection ''s'' ''users'')\<lparr>d_documents :=
       [[(''_id'', BInt64 10)], [(''_id'', BInt64 20)]]\<rparr>) [])"

definition shop_engine :: subset_engine where
  "shop_engine =
     \<lparr>se_graph = [\<lparr>from_collection = ''orders'', from_field = ''user'', to_field = ''_id'',
                    not_null = False, target = Fixed ''users''\<rparr>],
      se_conds = [(''orders'', \<lparr>cond_text = ''_id == 1''\<rparr>)]\<rparr>"

definition shop_source :: document_source where
  "shop_source = mongo_document_source sample_ext (mem_source shop) ''s'' (se_graph shop_engine)"

lemma shop_compute:
  "compute_subset sample_ext shop_engine shop_source =
     Some (Inr [(''orders'', [[(''_id'', BInt64 1), (''user'', BInt64 10)]]),
                (''users'', [[(''_id'', BInt64 10)]])])"
  by code_simp

definition shop_items :: "item list" where
  "shop_items =
     [(''orders'', [(''_id'', BInt64 1), (''user'', BInt64 10)]),
      (''orders'', [(''_id'', BInt64 2), (''user'', BInt64 20)]),
      (''users'', [(''_id'', BInt64 10)]), (''users'', [(''_id'', BInt64 20)])]"

lemma shop_finite: "finite {p. needed shop_source shop_engine p}"
  unfolding shop_source_def by (rule mem_docs.finite_required)

lemma shop_stock: "mem_stock shop ''s'' \<subseteq> set shop_items"
  by (auto simp: mem_stock_def mem_documents_def shop_def mem_seed_def empty_collection_def
      shop_items_def bt_get_insert split: if_splits)

lemma shop_keys: "distinct (map (doc_key sample_ext) shop_items)"
  by code_simp

lemma shop_inj: "inj_on (doc_key sample_ext) {p. needed shop_source shop_engine p}"
proof (rule inj_on_subset)
  show "inj_on (doc_key sample_ext) (set shop_items)" using shop_keys by (simp only: distinct_map)
  show "{p. needed shop_source shop_engine p} \<subseteq> set shop_items"
    using mem_docs.required_stock shop_stock unfolding shop_source_def by blast
qed

theorem subset_exact_witness:
  "\<exists>m. compute_subset sample_ext shop_engine shop_source = Some (Inr m)
     \<and> set (entries_of ''users'' m) = {d. needed shop_source shop_engine (''users'', d)}
     \<and> entries_of ''users'' m = [[(''_id'', BInt64 10)]]"
  using subset_exact [OF shop_finite shop_inj shop_compute, of "''users''"] shop_compute
  by (auto simp: entries_of_def)

theorem subset_referentially_intact_witness:
  "\<exists>docs. ds_find_by shop_source ''users'' ''_id'' (BInt64 10) = Inr docs
     \<and> set docs \<subseteq> {[(''_id'', BInt64 10)]}"
proof -
  let ?e = "hd (se_graph shop_engine)"
  let ?d = "[(''_id'', BInt64 1), (''user'', BInt64 10)]"
  have e: "?e \<in> set (references_from (se_graph shop_engine) ''orders'')"
    by (simp add: shop_engine_def references_from_def)
  have r: "edge_request ?e ?d = Some (''users'', ''_id'', BInt64 10)"
    by (simp add: shop_engine_def edge_request_def resolve_target_def get_path_def split_on_no_sep dot_def)
  show ?thesis
    using subset_referentially_intact [OF shop_finite shop_inj shop_compute _ e r]
    by (auto simp: entries_of_def)
qed

theorem subset_terminates_witness: "\<exists>r. compute_subset sample_ext shop_engine shop_source = Some r"
  using subset_terminates [OF shop_finite] by blast

definition torn_shop :: mem where
  "torn_shop = snd (mem_drop ''s'' ''users'' shop)"

theorem compute_ids_projects_witness:
  "compute_ids sample_ext shop_engine shop_source =
     Some (Inr [(''orders'', [BInt64 1]), (''users'', [BInt64 10])])
   \<and> (\<exists>ids. compute_ids sample_ext shop_engine shop_source = Some (Inr ids)
        \<and> entries_of ''users'' ids = [BInt64 10])"
proof -
  have "compute_ids sample_ext shop_engine shop_source =
     Some (Inr [(''orders'', [BInt64 1]), (''users'', [BInt64 10])])"
    by code_simp
  moreover have "\<exists>ids. compute_ids sample_ext shop_engine shop_source = Some (Inr ids)
        \<and> entries_of ''users'' ids = [BInt64 10]"
    using compute_ids_projects [OF shop_finite, of sample_ext] by (auto simp: shop_compute entries_of_def)
  ultimately show ?thesis by blast
qed

definition torn_source :: document_source where
  "torn_source = mongo_document_source sample_ext (mem_source torn_shop) ''s'' (se_graph shop_engine)"

theorem subset_read_failure_aborts_witness:
  "\<exists>x. compute_ids sample_ext shop_engine torn_source = Some (Inl x)"
proof -
  let ?d = "[(''_id'', BInt64 1), (''user'', BInt64 10)]"
  let ?e = "hd (se_graph shop_engine)"
  have fin: "finite {p. needed torn_source shop_engine p}"
    unfolding torn_source_def by (rule mem_docs.finite_required)
  have "mem_stock torn_shop ''s'' \<subseteq> set shop_items"
    by (auto simp: mem_stock_def mem_documents_def torn_shop_def mem_drop_def shop_def mem_seed_def
      empty_collection_def shop_items_def split: if_splits)
  then have "{p. needed torn_source shop_engine p} \<subseteq> set shop_items"
    using mem_docs.required_stock unfolding torn_source_def by blast
  then have inj: "inj_on (doc_key sample_ext) {p. needed torn_source shop_engine p}"
    using shop_keys inj_on_subset by (auto simp: distinct_map)
  have "ds_seed torn_source ''orders'' \<lparr>cond_text = ''_id == 1''\<rparr> = Inr [?d]" by code_simp
  then have req: "needed torn_source shop_engine (''orders'', ?d)"
    by (intro seeded [where cond = "\<lparr>cond_text = ''_id == 1''\<rparr>"]) (auto simp: shop_engine_def)
  have e: "?e \<in> set (references_from (se_graph shop_engine) ''orders'')"
    by (simp add: shop_engine_def references_from_def)
  have r: "edge_request ?e ?d = Some (''users'', ''_id'', BInt64 10)"
    by (simp add: shop_engine_def edge_request_def resolve_target_def get_path_def split_on_no_sep dot_def)
  have f: "ds_find_by torn_source ''users'' ''_id'' (BInt64 10) =
      Inl (MongoError (''collection s.users not found''))"
    by code_simp
  show ?thesis
    using subset_read_failure_aborts [OF fin inj req e r f] by blast
qed

end
