(* ===== verification/Storage.thy ===== *)
theory Storage
  imports Bson
begin

text \<open>
  The storage interface (src/storage/mod.rs) as a record of operations on a backend state, the
  contract the dump format relies on (locale \<open>blob_store\<close>), and the directory backend
  (src/storage/directory.rs) over a model of the file system below its root.
\<close>

section \<open>The interface\<close>

record 's storage =
  sg_list_dumps :: "'s \<Rightarrow> string list res"
  sg_get :: "string \<Rightarrow> 's \<Rightarrow> bytes res"
  sg_put :: "string \<Rightarrow> bytes \<Rightarrow> 's \<Rightarrow> unit res \<times> 's"
  sg_exists :: "string \<Rightarrow> 's \<Rightarrow> bool res"
  sg_delete :: "string \<Rightarrow> 's \<Rightarrow> unit res \<times> 's"
  sg_list :: "string \<Rightarrow> 's \<Rightarrow> string list res"
  sg_size :: "string \<Rightarrow> 's \<Rightarrow> nat res"

text \<open>
  What the dump format needs of a backend: a written blob reads back, other blobs stay, nothing
  appears except the blob and what lies on the way to it. \<open>segs\<close> is the backend's reading of a
  path, \<open>inv\<close> its state invariant.
\<close>

locale blob_store =
  fixes get :: "string \<Rightarrow> 's \<Rightarrow> bytes res"
    and put :: "string \<Rightarrow> bytes \<Rightarrow> 's \<Rightarrow> unit res \<times> 's"
    and exist :: "string \<Rightarrow> 's \<Rightarrow> bool res"
    and segs :: "string \<Rightarrow> string list"
    and inv :: "'s \<Rightarrow> bool"
  assumes put_inv: "inv s \<Longrightarrow> put p d s = (r, s') \<Longrightarrow> inv s'"
    and get_put: "inv s \<Longrightarrow> put p d s = (Inr (), s') \<Longrightarrow> get p s' = Inr d"
    and get_put_other: "inv s \<Longrightarrow> put p d s = (Inr (), s') \<Longrightarrow> segs q \<noteq> segs p \<Longrightarrow> get q s = Inr b \<Longrightarrow>
      get q s' = Inr b"
    and exist_get: "get p s = Inr b \<Longrightarrow> exist p s = Inr True"
    and exist_put: "inv s \<Longrightarrow> put p d s = (r, s') \<Longrightarrow> exist q s' = Inr True \<Longrightarrow>
      exist q s = Inr True \<or> prefix (segs q) (segs p)"
    and exist_total: "\<exists>b. exist p s = Inr b"
begin

lemma exist_put_same: "inv s \<Longrightarrow> put p d s = (Inr (), s') \<Longrightarrow> exist p s' = Inr True"
  by (rule exist_get [OF get_put])

lemma absent_put:
  "inv s \<Longrightarrow> put p d s = (r, s') \<Longrightarrow> exist q s = Inr False \<Longrightarrow> \<not> prefix (segs q) (segs p) \<Longrightarrow>
     exist q s' = Inr False"
  using exist_put [of s p d r s' q] exist_total [of q s'] by auto

text \<open>Two writes to different places both stand.\<close>

lemma get_put_put:
  assumes "inv s" "put p d s = (Inr (), s1)" "put q b s1 = (Inr (), s2)" "segs p \<noteq> segs q"
  shows "get p s2 = Inr d \<and> get q s2 = Inr b"
  using get_put_other [OF put_inv [OF assms(1,2)] assms(3,4) get_put [OF assms(1,2)]]
    get_put [OF put_inv [OF assms(1,2)] assms(3)] by simp

end

section \<open>The directory backend\<close>

text \<open>\<open>resolve\<close>: empty, \<open>.\<close> and \<open>..\<close> segments are dropped.\<close>

definition slash :: char where
  "slash = CHR ''/''"

definition resolve_path :: "string \<Rightarrow> string list" where
  "resolve_path rel = filter (\<lambda>s. s \<noteq> [] \<and> s \<noteq> ''.'' \<and> s \<noteq> ''..'') (split_on slash rel)"

text \<open>
  The file system below the root: paths to their contents, \<open>None\<close> for a directory. The root is a
  directory (a removed root counts as an empty one: listing it gives nothing, writing recreates it).
\<close>

type_synonym fsys = "(string list \<times> bytes option) list"

definition fs_lookup :: "fsys \<Rightarrow> string list \<Rightarrow> bytes option option" where
  "fs_lookup fs p = (if p = [] then Some None else kv_get p fs)"

text \<open>A file on the way to a path makes every access through it fail.\<close>

definition fs_blocked :: "fsys \<Rightarrow> string list \<Rightarrow> bool" where
  "fs_blocked fs p =
     list_ex (\<lambda>n. case fs_lookup fs (take n p) of Some (Some b) \<Rightarrow> True | _ \<Rightarrow> False) [0..<length p]"

text \<open>\<open>create_dir_all\<close>.\<close>

fun make_dirs :: "string list \<Rightarrow> string list \<Rightarrow> fsys \<Rightarrow> unit res \<times> fsys" where
  "make_dirs base [] fs = (Inr (), fs)"
| "make_dirs base (seg # rest) fs =
     (case fs_lookup fs (base @ [seg]) of
        Some (Some b) \<Rightarrow> (Inl (StorageError ''not a directory''), fs)
      | Some None \<Rightarrow> make_dirs (base @ [seg]) rest fs
      | None \<Rightarrow> make_dirs (base @ [seg]) rest (ix_insert (base @ [seg]) None fs))"

definition dir_get :: "string \<Rightarrow> fsys \<Rightarrow> bytes res" where
  "dir_get path fs =
     (let full = resolve_path path
      in if fs_blocked fs full then Inl (StorageError ''not a directory'')
         else case fs_lookup fs full of
                None \<Rightarrow> Inl (NotFound (''blob '' @ quoted path @ '' not found''))
              | Some None \<Rightarrow> Inl (StorageError ''is a directory'')
              | Some (Some b) \<Rightarrow> Inr b)"

definition dir_put :: "string \<Rightarrow> bytes \<Rightarrow> fsys \<Rightarrow> unit res \<times> fsys" where
  "dir_put path data fs =
     (let full = resolve_path path
      in case make_dirs [] (butlast full) fs of
           (Inl e, fs') \<Rightarrow> (Inl e, fs')
         | (Inr u, fs') \<Rightarrow>
             (case fs_lookup fs' full of
                Some None \<Rightarrow> (Inl (StorageError ''is a directory''), fs')
              | _ \<Rightarrow> (Inr (), ix_insert full (Some data) fs')))"

definition dir_exists :: "string \<Rightarrow> fsys \<Rightarrow> bool res" where
  "dir_exists path fs =
     (let full = resolve_path path in Inr (\<not> fs_blocked fs full \<and> fs_lookup fs full \<noteq> None))"

definition dir_delete :: "string \<Rightarrow> fsys \<Rightarrow> unit res \<times> fsys" where
  "dir_delete path fs =
     (let full = resolve_path path
      in case fs_lookup fs full of
           Some None \<Rightarrow> (Inr (), filter (\<lambda>p. \<not> prefix full (fst p)) fs)
         | Some (Some b) \<Rightarrow> (Inr (), filter (\<lambda>p. fst p \<noteq> full) fs)
         | None \<Rightarrow> (Inr (), fs))"

definition dir_list :: "string \<Rightarrow> fsys \<Rightarrow> string list res" where
  "dir_list path fs =
     (let full = resolve_path path
      in case fs_lookup fs full of
           None \<Rightarrow> Inr []
         | Some (Some b) \<Rightarrow> Inl (StorageError ''not a directory'')
         | Some None \<Rightarrow>
             Inr (sort (map (\<lambda>p. join_with [slash] (fst p))
                    (filter (\<lambda>p. snd p \<noteq> None \<and> prefix full (fst p)) fs))))"

definition dir_list_dumps :: "fsys \<Rightarrow> string list res" where
  "dir_list_dumps fs = Inr (sort (map (\<lambda>p. hd (fst p)) (filter (\<lambda>p. snd p = None \<and> length (fst p) = 1) fs)))"

fun file_sizes :: "fsys \<Rightarrow> string list \<Rightarrow> nat \<Rightarrow> nat res" where
  "file_sizes fs [] n = Inr n"
| "file_sizes fs (rel # rels) n =
     (case fs_lookup fs (resolve_path rel) of
        Some (Some b) \<Rightarrow> file_sizes fs rels (n + length b)
      | Some None \<Rightarrow> file_sizes fs rels n
      | None \<Rightarrow> Inl (StorageError ''no such file''))"

definition dir_size :: "string \<Rightarrow> fsys \<Rightarrow> nat res" where
  "dir_size path fs =
     (case dir_list path fs of Inl e \<Rightarrow> Inl e | Inr rels \<Rightarrow> file_sizes fs rels 0)"

definition dir_storage :: "fsys storage" where
  "dir_storage =
     \<lparr>sg_list_dumps = dir_list_dumps, sg_get = dir_get, sg_put = dir_put, sg_exists = dir_exists,
      sg_delete = dir_delete, sg_list = dir_list, sg_size = dir_size\<rparr>"

section \<open>The file system invariant\<close>

text \<open>Whatever exists lies in directories.\<close>

definition fs_ok :: "fsys \<Rightarrow> bool" where
  "fs_ok fs = (\<forall>p q. fs_lookup fs p \<noteq> None \<longrightarrow> strict_prefix q p \<longrightarrow> fs_lookup fs q = Some None)"

lemma fs_lookup_insert:
  "p \<noteq> [] \<Longrightarrow> fs_lookup (ix_insert p e fs) q = (if q = p then Some e else fs_lookup fs q)"
  by (simp add: fs_lookup_def ix_get_insert)

lemma fs_blocked_iff:
  "fs_blocked fs p \<longleftrightarrow> (\<exists>q b. strict_prefix q p \<and> fs_lookup fs q = Some (Some b))"
proof
  assume "fs_blocked fs p"
  then obtain n b where n: "n < length p" "fs_lookup fs (take n p) = Some (Some b)"
    unfolding fs_blocked_def list_ex_iff by (force split: option.splits)
  have "length (take n p) \<noteq> length p" using n(1) by simp
  then have "take n p \<noteq> p" by auto
  then have "strict_prefix (take n p) p" by (simp add: strict_prefix_def take_is_prefix)
  with n(2) show "\<exists>q b. strict_prefix q p \<and> fs_lookup fs q = Some (Some b)" by blast
next
  assume "\<exists>q b. strict_prefix q p \<and> fs_lookup fs q = Some (Some b)"
  then obtain q b where q: "strict_prefix q p" "fs_lookup fs q = Some (Some b)" by blast
  then have "length q < length p" "take (length q) p = q"
    by (auto simp: strict_prefix_def prefix_def)
  with q(2) show "fs_blocked fs p" by (auto simp: fs_blocked_def list_ex_iff intro!: bexI [of _ "length q"])
qed

lemma fs_ok_not_blocked: "fs_ok fs \<Longrightarrow> fs_lookup fs p \<noteq> None \<Longrightarrow> \<not> fs_blocked fs p"
  by (fastforce simp: fs_blocked_iff fs_ok_def)

lemma fs_ok_insert:
  assumes "fs_ok fs" "p \<noteq> []" "\<forall>q. strict_prefix q p \<longrightarrow> fs_lookup fs q = Some None"
    and "fs_lookup fs p = Some None \<longrightarrow> e = None"
  shows "fs_ok (ix_insert p e fs)"
  unfolding fs_ok_def
proof (intro allI impI)
  fix x q
  assume x: "fs_lookup (ix_insert p e fs) x \<noteq> None" "strict_prefix q x"
  show "fs_lookup (ix_insert p e fs) q = Some None"
  proof (cases "x = p")
    case True
    with x(2) assms(2,3) show ?thesis by (auto simp: fs_lookup_insert)
  next
    case False
    with x assms(1,2) have q: "fs_lookup fs q = Some None"
      by (auto simp: fs_lookup_insert fs_ok_def)
    then have "q = p \<Longrightarrow> e = None" using assms(4) by simp
    with q assms(2) show ?thesis by (auto simp: fs_lookup_insert)
  qed
qed

text \<open>\<open>make_dirs\<close> keeps what exists, and on success every directory on the way is there.\<close>

lemma make_dirs_keeps:
  "make_dirs base ps fs = (r, fs') \<Longrightarrow> fs_lookup fs q \<noteq> None \<Longrightarrow> fs_lookup fs' q = fs_lookup fs q"
proof (induction base ps fs arbitrary: r fs' rule: make_dirs.induct)
  case (2 base seg rest fs)
  show ?case
  proof (cases "fs_lookup fs (base @ [seg])")
    case None
    with 2(3,4) 2(1) [OF None, of r fs'] show ?thesis
      by (auto simp: fs_lookup_insert split: if_splits)
  next
    case (Some e)
    with 2 show ?thesis by (cases e) auto
  qed
qed simp

lemma make_dirs_new:
  "make_dirs base ps fs = (r, fs') \<Longrightarrow> fs_lookup fs' q \<noteq> None \<Longrightarrow>
     fs_lookup fs q \<noteq> None \<or> (fs_lookup fs' q = Some None \<and> prefix q (base @ ps))"
proof (induction base ps fs arbitrary: r fs' rule: make_dirs.induct)
  case (2 base seg rest fs)
  show ?case
  proof (cases "fs_lookup fs (base @ [seg])")
    case None
    let ?fs = "ix_insert (base @ [seg]) None fs"
    have m: "make_dirs (base @ [seg]) rest ?fs = (r, fs')" using 2(3) None by simp
    from 2(1) [OF None m 2(4)] show ?thesis
    proof
      assume a: "fs_lookup ?fs q \<noteq> None"
      show ?thesis
      proof (cases "q = base @ [seg]")
        case True
        then have "fs_lookup fs' q = Some None"
          using make_dirs_keeps [OF m a] by (simp add: fs_lookup_insert)
        with True show ?thesis by simp
      next
        case False
        with a show ?thesis by (simp add: fs_lookup_insert)
      qed
    qed simp
  next
    case (Some e)
    with 2 show ?thesis by (cases e) auto
  qed
qed simp

lemma make_dirs_dirs:
  "make_dirs base ps fs = (Inr (), fs') \<Longrightarrow> prefix base q \<Longrightarrow> prefix q (base @ ps) \<Longrightarrow>
     fs_lookup fs base = Some None \<Longrightarrow> fs_lookup fs' q = Some None"
proof (induction base ps fs arbitrary: fs' rule: make_dirs.induct)
  case (2 base seg rest fs)
  let ?p = "base @ [seg]"
  obtain x where x: "q = base @ x" "prefix x (seg # rest)"
    using 2(4,5) by (auto simp: prefix_def)
  then have q: "q = base \<or> prefix ?p q"
    by (cases x) auto
  show ?case
  proof (cases "q = base")
    case True
    with make_dirs_keeps [OF 2(3), of base] 2(6) show ?thesis by simp
  next
    case False
    with q have q: "prefix ?p q" by simp
    show ?thesis
    proof (cases "fs_lookup fs ?p")
      case None
      with 2(1) [OF None _ q] 2(3,5) show ?thesis by (simp add: fs_lookup_insert)
    next
      case (Some e)
      with 2(2) [OF Some _ _ q] 2(3,5) show ?thesis by (cases e) auto
    qed
  qed
qed (auto dest: prefix_order.antisym)

lemma fs_lookup_Nil [simp]: "fs_lookup fs [] = Some None"
  by (simp add: fs_lookup_def)

lemma make_dirs_prefixes:
  "make_dirs [] ps fs = (Inr (), fs') \<Longrightarrow> prefix q ps \<Longrightarrow> fs_lookup fs' q = Some None"
  using make_dirs_dirs [of "[]" ps fs fs' q] by simp

lemma strict_prefix_butlast: "strict_prefix q p \<Longrightarrow> prefix q (butlast p)"
  by (cases p rule: rev_cases) (auto simp: strict_prefix_def)

lemma prefix_step:
  assumes "prefix base q" "prefix q (base @ seg # rest)"
  shows "q = base \<or> prefix (base @ [seg]) q"
proof -
  obtain x where x: "q = base @ x" "prefix x (seg # rest)"
    using assms by (auto simp: prefix_def)
  then show ?thesis by (cases x) auto
qed

text \<open>What \<open>make_dirs\<close> creates, it creates from the base downwards.\<close>

lemma make_dirs_chain:
  "make_dirs base ps fs = (r, fs') \<Longrightarrow> fs_lookup fs p = None \<Longrightarrow> fs_lookup fs' p \<noteq> None \<Longrightarrow>
     prefix base q \<Longrightarrow> prefix q p \<Longrightarrow> fs_lookup fs base = Some None \<Longrightarrow> fs_lookup fs' q = Some None"
proof (induction base ps fs arbitrary: r fs' rule: make_dirs.induct)
  case (2 base seg rest fs)
  let ?p = "base @ [seg]"
  have "prefix p (base @ seg # rest)" using make_dirs_new [OF 2(3) 2(5)] 2(4) by simp
  with 2(7) have "prefix q (base @ seg # rest)" by (rule prefix_order.trans)
  from prefix_step [OF 2(6) this] show ?case
  proof
    assume "q = base"
    with make_dirs_keeps [OF 2(3), of base] 2(8) show ?thesis by simp
  next
    assume q: "prefix ?p q"
    show ?thesis
    proof (cases "fs_lookup fs ?p")
      case None
      let ?fs = "ix_insert ?p None fs"
      have m: "make_dirs ?p rest ?fs = (r, fs')" using 2(3) None by simp
      have at: "fs_lookup ?fs ?p = Some None" by (simp add: fs_lookup_insert)
      show ?thesis
      proof (cases "p = ?p")
        case True
        with q 2(7) have "q = ?p" by (auto intro: prefix_order.antisym)
        with make_dirs_keeps [OF m, of ?p] at show ?thesis by simp
      next
        case False
        then have "fs_lookup ?fs p = None" using 2(4) by (simp add: fs_lookup_insert)
        from 2(1) [OF None m this 2(5) q 2(7) at] show ?thesis .
      qed
    next
      case (Some e)
      show ?thesis
      proof (cases e)
        case None
        with Some have at: "fs_lookup fs ?p = Some None" by simp
        with 2(3) have m: "make_dirs ?p rest fs = (r, fs')" by simp
        from 2(2) [OF Some None m 2(4,5) q 2(7) at] show ?thesis .
      next
        case s: (Some b)
        with 2(3-5) Some show ?thesis by simp
      qed
    qed
  qed
qed simp

lemma make_dirs_ok:
  assumes "fs_ok fs" "make_dirs [] ps fs = (r, fs')"
  shows "fs_ok fs'"
  unfolding fs_ok_def
proof (intro allI impI)
  fix p q assume p: "fs_lookup fs' p \<noteq> None" "strict_prefix q p"
  show "fs_lookup fs' q = Some None"
  proof (cases "fs_lookup fs p")
    case None
    with make_dirs_chain [OF assms(2) None p(1), of q] p(2) show ?thesis by (auto simp: strict_prefix_def)
  next
    case (Some e)
    then have "fs_lookup fs q = Some None" using assms(1) p(2) by (auto simp: fs_ok_def)
    with make_dirs_keeps [OF assms(2), of q] show ?thesis by simp
  qed
qed

text \<open>The state after a put: directories were made, and on success the blob was written.\<close>

lemma dir_put_cases:
  assumes "dir_put p d fs = (r, fs')"
  obtains e fs1 where "r = Inl e" "make_dirs [] (butlast (resolve_path p)) fs = (Inl e, fs')"
  | "r \<noteq> Inr ()" "make_dirs [] (butlast (resolve_path p)) fs = (Inr (), fs')"
  | fs1 where "r = Inr ()" "make_dirs [] (butlast (resolve_path p)) fs = (Inr (), fs1)"
      "fs_lookup fs1 (resolve_path p) \<noteq> Some None" "resolve_path p \<noteq> []"
      "fs' = ix_insert (resolve_path p) (Some d) fs1"
proof (cases "make_dirs [] (butlast (resolve_path p)) fs")
  case (Pair m fs1)
  show ?thesis
  proof (cases m)
    case (Inl e)
    with Pair assms that(1) show ?thesis by (auto simp: dir_put_def Let_def)
  next
    case (Inr u)
    show ?thesis
    proof (cases "fs_lookup fs1 (resolve_path p) = Some None")
      case True
      with Pair Inr assms that(2) show ?thesis by (auto simp: dir_put_def Let_def)
    next
      case False
      then have "resolve_path p \<noteq> []" by auto
      moreover have "r = Inr () \<and> fs' = ix_insert (resolve_path p) (Some d) fs1"
        using Pair Inr assms False by (auto simp: dir_put_def Let_def split: option.splits)
      ultimately show ?thesis using that(3) Pair Inr False by auto
    qed
  qed
qed

lemma dir_put_ok:
  assumes "fs_ok fs" "dir_put p d fs = (r, fs')"
  shows "fs_ok fs'"
  using assms(2)
proof (cases rule: dir_put_cases)
  case (3 fs1)
  have "\<forall>q. strict_prefix q (resolve_path p) \<longrightarrow> fs_lookup fs1 q = Some None"
    using make_dirs_prefixes [OF 3(2)] strict_prefix_butlast by blast
  then show ?thesis
    unfolding 3(5) by (intro fs_ok_insert make_dirs_ok [OF assms(1) 3(2)]) (use 3 in auto)
qed (use make_dirs_ok [OF assms(1)] in auto)

lemma dir_get_iff:
  "fs_ok fs \<Longrightarrow> dir_get p fs = Inr b \<longleftrightarrow> fs_lookup fs (resolve_path p) = Some (Some b)"
  using fs_ok_not_blocked [of fs "resolve_path p"]
  by (auto simp: dir_get_def Let_def split: option.splits)

lemma dir_exists_iff: "fs_ok fs \<Longrightarrow> dir_exists p fs = Inr True \<longleftrightarrow> fs_lookup fs (resolve_path p) \<noteq> None"
  using fs_ok_not_blocked [of fs "resolve_path p"] by (auto simp: dir_exists_def Let_def)

interpretation dir: blob_store dir_get dir_put dir_exists resolve_path fs_ok
proof unfold_locales
  fix s p d r s'
  assume "fs_ok s" "dir_put p d s = (r, s')"
  then show "fs_ok s'" by (rule dir_put_ok)
next
  fix s p d s'
  assume ok: "fs_ok s" and put: "dir_put p d s = (Inr (), s')"
  note ok' = dir_put_ok [OF ok put]
  from put have "fs_lookup s' (resolve_path p) = Some (Some d)"
    by (cases rule: dir_put_cases) (auto simp: fs_lookup_insert)
  then show "dir_get p s' = Inr d" by (simp add: dir_get_iff [OF ok'])
next
  fix s p d s' q b
  assume ok: "fs_ok s" and put: "dir_put p d s = (Inr (), s')" and ne: "resolve_path q \<noteq> resolve_path p"
    and get: "dir_get q s = Inr b"
  note ok' = dir_put_ok [OF ok put]
  have b: "fs_lookup s (resolve_path q) = Some (Some b)" using get by (simp add: dir_get_iff [OF ok])
  from put have "fs_lookup s' (resolve_path q) = Some (Some b)"
  proof (cases rule: dir_put_cases)
    case (3 fs1)
    with make_dirs_keeps [OF 3(2), of "resolve_path q"] b ne show ?thesis
      by (auto simp: fs_lookup_insert)
  qed auto
  then show "dir_get q s' = Inr b" by (simp add: dir_get_iff [OF ok'])
next
  fix p s b
  assume "dir_get p s = Inr b"
  then show "dir_exists p s = Inr True"
    by (auto simp: dir_get_def dir_exists_def Let_def split: if_splits option.splits)
next
  fix s p d r s' q
  assume ok: "fs_ok s" and put: "dir_put p d s = (r, s')" and ex: "dir_exists q s' = Inr True"
  note ok' = dir_put_ok [OF ok put]
  have q: "fs_lookup s' (resolve_path q) \<noteq> None" using ex by (simp add: dir_exists_iff [OF ok'])
  have made: "dir_exists q s = Inr True \<or> prefix (resolve_path q) (resolve_path p)"
    if "make_dirs [] (butlast (resolve_path p)) s = (m, fs1)" "fs_lookup fs1 (resolve_path q) \<noteq> None" for m fs1
    using make_dirs_new [OF that] prefix_order.trans [OF _ prefixeq_butlast]
    by (auto simp: dir_exists_iff [OF ok])
  from put show "dir_exists q s = Inr True \<or> prefix (resolve_path q) (resolve_path p)"
  proof (cases rule: dir_put_cases)
    case (3 fs1)
    show ?thesis
    proof (cases "resolve_path q = resolve_path p")
      case False
      with q 3 have "fs_lookup fs1 (resolve_path q) \<noteq> None" by (simp add: fs_lookup_insert)
      from made [OF 3(2) this] show ?thesis .
    qed simp
  qed (use made q in blast)+
next
  fix p s
  show "\<exists>b. dir_exists p s = Inr b" by (simp add: dir_exists_def Let_def)
qed

section \<open>Deletion\<close>

lemma kv_get_filter: "kv_get k (filter (\<lambda>p. Q (fst p)) m) = (if Q k then kv_get k m else None)"
  by (induction m) auto

lemma fs_lookup_filter:
  "p \<noteq> [] \<Longrightarrow> fs_lookup (filter (\<lambda>p. Q (fst p)) fs) p = (if Q p then fs_lookup fs p else None)"
  by (simp add: fs_lookup_def kv_get_filter)

text \<open>What a deletion removes: the file itself, or the directory with everything below it.\<close>

definition doomed :: "fsys \<Rightarrow> string list \<Rightarrow> string list \<Rightarrow> bool" where
  "doomed fs full x =
     (x \<noteq> [] \<and> (case fs_lookup fs full of
                   None \<Rightarrow> False | Some None \<Rightarrow> prefix full x | Some (Some b) \<Rightarrow> x = full))"

lemma dir_delete_lookup:
  assumes "dir_delete p fs = (r, fs')"
  shows "fs_lookup fs' x = (if doomed fs (resolve_path p) x then None else fs_lookup fs x)"
proof (cases "x = []")
  case False
  show ?thesis
    using assms fs_lookup_filter [OF False, of "\<lambda>q. \<not> prefix (resolve_path p) q" fs]
      fs_lookup_filter [OF False, of "\<lambda>q. q \<noteq> resolve_path p" fs] False
    by (auto simp: dir_delete_def Let_def doomed_def split: option.splits)
qed (simp add: doomed_def)

lemma dir_get_cong:
  assumes "\<And>q. prefix q (resolve_path p) \<Longrightarrow> fs_lookup fs' q = fs_lookup fs q"
  shows "dir_get p fs' = dir_get p fs"
proof -
  have "fs_blocked fs' (resolve_path p) = fs_blocked fs (resolve_path p)"
    unfolding fs_blocked_def list_ex_iff using assms by (auto simp: take_is_prefix)
  then show ?thesis using assms [of "resolve_path p"] by (simp add: dir_get_def Let_def)
qed

section \<open>Properties\<close>

text \<open>
  The directory backend keeps blobs: after a successful write the blob reads back exactly, every
  other blob still reads as before, and no path exists that did not, except the blob's and those of
  the directories above it.
\<close>

theorem directory_put_get:
  assumes "fs_ok fs" "dir_put p d fs = (Inr (), fs')"
  shows "dir_get p fs' = Inr d
    \<and> (\<forall>q b. resolve_path q \<noteq> resolve_path p \<longrightarrow> dir_get q fs = Inr b \<longrightarrow> dir_get q fs' = Inr b)
    \<and> (\<forall>q. dir_exists q fs' = Inr True \<longrightarrow>
         dir_exists q fs = Inr True \<or> prefix (resolve_path q) (resolve_path p))"
  using dir.get_put [OF assms] dir.get_put_other [OF assms] dir.exist_put [OF assms] by blast

theorem directory_put_get_witness:
  "fs_ok [] \<and> dir_put ''d1/../metadata.json'' [1, 2] [] =
      (Inr (), [([''d1''], None), ([''d1'', ''metadata.json''], Some [1, 2])])
   \<and> dir_get ''d1/../metadata.json'' [([''d1''], None), ([''d1'', ''metadata.json''], Some [1, 2])] = Inr [1, 2]"
proof -
  have ok: "fs_ok []" by (auto simp: fs_ok_def fs_lookup_def)
  have put: "dir_put ''d1/../metadata.json'' [1, 2] [] =
      (Inr (), [([''d1''], None), ([''d1'', ''metadata.json''], Some [1, 2])])"
    by code_simp
  from directory_put_get [OF ok put] ok put show ?thesis by blast
qed

text \<open>
  Deleting a dump from the directory backend touches nothing else: a blob whose path does not lie
  below the deleted one reads exactly as before, and no blob below it can be read any more.
\<close>

theorem directory_delete_confined:
  assumes "fs_ok fs" "resolve_path p \<noteq> []" "dir_delete p fs = (r, fs')"
  shows "(\<not> prefix (resolve_path p) (resolve_path q) \<longrightarrow> dir_get q fs' = dir_get q fs)
    \<and> (prefix (resolve_path p) (resolve_path q) \<longrightarrow> (\<forall>b. dir_get q fs' \<noteq> Inr b))"
proof (intro conjI impI allI)
  assume np: "\<not> prefix (resolve_path p) (resolve_path q)"
  show "dir_get q fs' = dir_get q fs"
  proof (rule dir_get_cong)
    fix x assume "prefix x (resolve_path q)"
    then have "\<not> prefix (resolve_path p) x" using np prefix_order.trans by blast
    then have "\<not> doomed fs (resolve_path p) x" by (auto simp: doomed_def split: option.splits)
    then show "fs_lookup fs' x = fs_lookup fs x" by (simp add: dir_delete_lookup [OF assms(3)])
  qed
next
  fix b assume p: "prefix (resolve_path p) (resolve_path q)"
  have ne: "resolve_path q \<noteq> []" using p assms(2) by auto
  show "dir_get q fs' \<noteq> Inr b"
  proof
    assume "dir_get q fs' = Inr b"
    then have b: "fs_lookup fs' (resolve_path q) = Some (Some b)"
      by (auto simp: dir_get_def Let_def split: if_splits option.splits)
    then have q: "fs_lookup fs (resolve_path q) = Some (Some b)" "\<not> doomed fs (resolve_path p) (resolve_path q)"
      by (auto simp: dir_delete_lookup [OF assms(3)] split: if_splits)
    show False
    proof (cases "resolve_path p = resolve_path q")
      case True
      with q ne show False by (simp add: doomed_def)
    next
      case False
      then have "strict_prefix (resolve_path p) (resolve_path q)" using p by (simp add: strict_prefix_def)
      then have "fs_lookup fs (resolve_path p) = Some None" using assms(1) q(1) by (auto simp: fs_ok_def)
      with q(2) p ne show False by (simp add: doomed_def)
    qed
  qed
qed

theorem directory_delete_confined_witness:
  "dir_get ''b/x'' (snd (dir_delete ''a'' (snd (dir_put ''b/x'' [7] (snd (dir_put ''a/x'' [5] [])))))) = Inr [7]
   \<and> dir_get ''a/x'' (snd (dir_delete ''a'' (snd (dir_put ''b/x'' [7] (snd (dir_put ''a/x'' [5] [])))))) \<noteq> Inr [5]"
proof -
  let ?fs = "snd (dir_put ''b/x'' [7] (snd (dir_put ''a/x'' [5] [])))"
  have ok: "fs_ok ?fs"
    by (intro dir_put_ok [OF _ prod.collapse [symmetric]]) (auto simp: fs_ok_def fs_lookup_def)
  have ne: "resolve_path ''a'' \<noteq> []" by code_simp
  have np: "\<not> prefix (resolve_path ''a'') (resolve_path ''b/x'')" by code_simp
  have p: "prefix (resolve_path ''a'') (resolve_path ''a/x'')" by code_simp
  have "dir_get ''b/x'' ?fs = Inr [7]" by code_simp
  with directory_delete_confined [OF ok ne prod.collapse [symmetric]] np p show ?thesis by metis
qed

end
