(* ===== verification/DumpFormat.thy ===== *)
theory DumpFormat
  imports Storage Mongo Hash
begin

text \<open>
  The dump format on storage (src/dump/mod.rs): metadata and table of contents, blob paths, the
  framing of documents in a data blob, writing and reading a collection. The encodings of the
  external crates (BSON, JSON, gzip) are the fields of a \<open>codec\<close>.
\<close>

section \<open>Metadata\<close>

datatype dump_status = Done | Failed | InProgress | Unknown

fun status_str :: "dump_status \<Rightarrow> string" where
  "status_str Done = ''done''"
| "status_str Failed = ''failed''"
| "status_str InProgress = ''in-progress''"
| "status_str Unknown = ''unknown''"

record collection_toc =
  toc_name :: string
  toc_count :: nat
  toc_indexes :: "string list"
  toc_order :: nat

record database_toc =
  dt_name :: string
  dt_collections :: "collection_toc list"

record dump_metadata =
  dm_id :: string
  dm_status :: dump_status
  dm_created_at :: string
  dm_databases :: "database_toc list"
  dm_size :: nat

record collection_meta =
  cm_database :: string
  cm_collection :: string
  cm_count :: nat
  cm_indexes :: "index_spec list"
  cm_validator :: "bson option"
  cm_options :: "(string \<times> bson) list"

text \<open>
  External encodings: \<open>None\<close> is a failed (de)serialization; a gunzipped stream delivers bytes and
  may then fail with a message.
\<close>

record codec =
  enc_doc :: "document \<Rightarrow> bytes option"
  dec_doc :: "bytes \<Rightarrow> document option"
  gz :: "bytes \<Rightarrow> bytes"
  gunzip :: "bytes \<Rightarrow> bytes \<times> string option"
  enc_meta :: "dump_metadata \<Rightarrow> bytes option"
  dec_meta :: "bytes \<Rightarrow> dump_metadata option"
  enc_cmeta :: "collection_meta \<Rightarrow> bytes option"
  dec_cmeta :: "bytes \<Rightarrow> collection_meta option"

definition metadata_path :: "string \<Rightarrow> string" where
  "metadata_path did = did @ ''/metadata.json''"

definition nl :: string where
  "nl = [CHR 0x0A]"

definition render_collection :: "collection_toc \<Rightarrow> string" where
  "render_collection c =
     ''    - '' @ toc_name c @ '' ('' @ show_nat (toc_count c) @ '' docs, '' @
       show_nat (length (toc_indexes c)) @ '' indexes) [restore #'' @ show_nat (toc_order c) @ '']'' @ nl @
       concat (map (\<lambda>i. ''        index: '' @ i @ nl) (toc_indexes c))"

definition render_toc :: "dump_metadata \<Rightarrow> string" where
  "render_toc m =
     ''dump '' @ dm_id m @ nl @ ''  status: '' @ status_str (dm_status m) @ nl @
     ''  created_at: '' @ dm_created_at m @ nl @ ''  size: '' @ show_nat (dm_size m) @ '' bytes'' @ nl @
     concat (map (\<lambda>db. ''  database '' @ dt_name db @ '':'' @ nl @
       concat (map render_collection (sort_key toc_order (dt_collections db)))) (dm_databases m))"

definition write_metadata :: "codec \<Rightarrow> 's storage \<Rightarrow> dump_metadata \<Rightarrow> 's \<Rightarrow> unit res \<times> 's" where
  "write_metadata C S m s =
     (case enc_meta C m of
        None \<Rightarrow> (Inl (StorageError ''cannot serialize metadata''), s)
      | Some js \<Rightarrow> sg_put S (metadata_path (dm_id m)) js s)"

definition read_metadata :: "codec \<Rightarrow> 's storage \<Rightarrow> string \<Rightarrow> 's \<Rightarrow> dump_metadata res" where
  "read_metadata C S did s =
     (case map_err (\<lambda>e. case e of NotFound m \<Rightarrow> NotFound (''dump '' @ quoted did @ '' not found'') | _ \<Rightarrow> e)
             (sg_get S (metadata_path did) s) of
        Inl e \<Rightarrow> Inl e
      | Inr bs \<Rightarrow> ok_or (StorageError (''corrupt metadata for '' @ quoted did)) (dec_meta C bs))"

definition unknown_stub :: "string \<Rightarrow> dump_metadata" where
  "unknown_stub did =
     \<lparr>dm_id = did, dm_status = Unknown, dm_created_at = [], dm_databases = [], dm_size = 0\<rparr>"

definition list_metadata :: "codec \<Rightarrow> 's storage \<Rightarrow> 's \<Rightarrow> dump_metadata list res" where
  "list_metadata C S s =
     map_sum id (map (\<lambda>did. case read_metadata C S did s of Inr m \<Rightarrow> m | Inl e \<Rightarrow> unknown_stub did))
       (sg_list_dumps S s)"

definition resolve_dump :: "codec \<Rightarrow> 's storage \<Rightarrow> string \<Rightarrow> 's \<Rightarrow> dump_metadata res" where
  "resolve_dump C S r s =
     (if r = ''latest'' then
        (case list_metadata C S s of
           Inl e \<Rightarrow> Inl e
         | Inr ms \<Rightarrow>
             (case sort_desc dm_created_at (filter (\<lambda>m. dm_status m = Done) ms) of
                [] \<Rightarrow> Inl (NotFound (''no completed dump found for '' @ quoted ''latest''))
              | m # _ \<Rightarrow> Inr m))
      else read_metadata C S r s)"

section \<open>Blob paths\<close>

definition data_path :: "string \<Rightarrow> string \<Rightarrow> bool \<Rightarrow> string" where
  "data_path db coll gzip =
     ''data/'' @ db @ ''/'' @ coll @ ''.'' @ (if gzip then ''bson.gz'' else ''bson'')"

definition meta_path :: "string \<Rightarrow> string \<Rightarrow> string" where
  "meta_path db coll = ''data/'' @ db @ ''/'' @ coll @ ''.meta.bson''"

definition in_dump :: "string \<Rightarrow> string \<Rightarrow> string" where
  "in_dump did path = did @ ''/'' @ path"

definition write_collection_meta ::
    "codec \<Rightarrow> 's storage \<Rightarrow> string \<Rightarrow> collection_meta \<Rightarrow> 's \<Rightarrow> nat res \<times> 's" where
  "write_collection_meta C S did m s =
     (case enc_cmeta C m of
        None \<Rightarrow> (Inl (StorageError ''cannot serialize collection meta''), s)
      | Some raw \<Rightarrow>
          (case sg_put S (in_dump did (meta_path (cm_database m) (cm_collection m))) raw s of
             (Inl e, s') \<Rightarrow> (Inl e, s')
           | (Inr u, s') \<Rightarrow> (Inr (length raw), s')))"

definition read_collection_meta ::
    "codec \<Rightarrow> 's storage \<Rightarrow> string \<Rightarrow> string \<Rightarrow> string \<Rightarrow> 's \<Rightarrow> collection_meta res" where
  "read_collection_meta C S did db coll s =
     (case sg_get S (in_dump did (meta_path db coll)) s of
        Inl e \<Rightarrow> Inl e
      | Inr raw \<Rightarrow> ok_or (StorageError ''corrupt collection meta'') (dec_cmeta C raw))"

section \<open>Framing\<close>

definition max_document_size :: int where
  "max_document_size = 64 * 1024 * 1024"

text \<open>\<open>i32::from_le_bytes\<close>.\<close>

definition le_i32 :: "bytes \<Rightarrow> int" where
  "le_i32 bs = sint (word_of_int (from_be (rev bs)) :: 32 word)"

text \<open>A reader: the bytes still to come, and the failure the stream ends with, if any.\<close>

record reader =
  rd_bytes :: bytes
  rd_end :: "string option"

definition next_document :: "codec \<Rightarrow> reader \<Rightarrow> (document option \<times> reader) res" where
  "next_document C rd =
     (let hdr = take 4 (rd_bytes rd)
      in if length hdr < 4 then
           (case rd_end rd of
              Some m \<Rightarrow> Inl (StorageError m)
            | None \<Rightarrow> if hdr = [] then Inr (None, rd)
                      else Inl (StorageError ''corrupt dump: truncated document length''))
         else
           let len = le_i32 hdr
           in if \<not> (5 \<le> len \<and> len \<le> max_document_size) then
                Inl (StorageError (''corrupt dump: invalid document length '' @ show_int len))
              else if length (rd_bytes rd) < nat len then
                Inl (StorageError (''corrupt dump: '' @
                  (case rd_end rd of Some m \<Rightarrow> m | None \<Rightarrow> ''failed to fill whole buffer'')))
              else
                (case dec_doc C (take (nat len) (rd_bytes rd)) of
                   None \<Rightarrow> Inl (StorageError ''invalid document'')
                 | Some d \<Rightarrow> Inr (Some d, rd\<lparr>rd_bytes := drop (nat len) (rd_bytes rd)\<rparr>)))"

fun next_batch_loop :: "codec \<Rightarrow> nat \<Rightarrow> document list \<Rightarrow> reader \<Rightarrow> (document list \<times> reader) res" where
  "next_batch_loop C 0 out rd = Inr (out, rd)"
| "next_batch_loop C (Suc k) out rd =
     (case next_document C rd of
        Inl e \<Rightarrow> Inl e
      | Inr (None, rd') \<Rightarrow> Inr (out, rd')
      | Inr (Some d, rd') \<Rightarrow> next_batch_loop C k (out @ [d]) rd')"

definition next_batch :: "codec \<Rightarrow> nat \<Rightarrow> reader \<Rightarrow> (document list \<times> reader) res" where
  "next_batch C n rd = next_batch_loop C (max n 1) [] rd"

lemma next_document_shorter:
  "next_document C rd = Inr (Some d, rd') \<Longrightarrow> length (rd_bytes rd') < length (rd_bytes rd)"
  by (auto simp: next_document_def Let_def split: if_splits option.splits)

function read_all :: "codec \<Rightarrow> document list \<Rightarrow> reader \<Rightarrow> document list res" where
  "read_all C out rd =
     (case next_document C rd of
        Inl e \<Rightarrow> Inl e
      | Inr (None, rd') \<Rightarrow> Inr out
      | Inr (Some d, rd') \<Rightarrow> read_all C (out @ [d]) rd')"
  by pat_completeness auto
termination
  by (relation "measure (\<lambda>(C, out, rd). length (rd_bytes rd))") (auto dest: next_document_shorter)

declare read_all.simps [simp del]

definition open_document_reader ::
    "codec \<Rightarrow> 's storage \<Rightarrow> string \<Rightarrow> string \<Rightarrow> string \<Rightarrow> 's \<Rightarrow> reader res" where
  "open_document_reader C S did db coll s =
     (case sg_exists S (in_dump did (data_path db coll True)) s of
        Inl e \<Rightarrow> Inl e
      | Inr True \<Rightarrow>
          map_sum id (\<lambda>bs. \<lparr>rd_bytes = fst (gunzip C bs), rd_end = snd (gunzip C bs)\<rparr>)
            (sg_get S (in_dump did (data_path db coll True)) s)
      | Inr False \<Rightarrow>
          map_sum id (\<lambda>bs. \<lparr>rd_bytes = bs, rd_end = None\<rparr>)
            (sg_get S (in_dump did (data_path db coll False)) s))"

section \<open>Writing and reading a collection\<close>

text \<open>The streaming writer: what has been appended so far, and how many documents that is.\<close>

record data_writer =
  dw_raw :: bytes
  dw_count :: nat
  dw_path :: string
  dw_gzip :: bool

definition writer_create :: "string \<Rightarrow> bool \<Rightarrow> data_writer" where
  "writer_create path gzip = \<lparr>dw_raw = [], dw_count = 0, dw_path = path, dw_gzip = gzip\<rparr>"

definition write_document :: "codec \<Rightarrow> document \<Rightarrow> data_writer \<Rightarrow> data_writer res" where
  "write_document C d w =
     (case enc_doc C d of
        None \<Rightarrow> Inl (StorageError ''cannot serialize document'')
      | Some bs \<Rightarrow> Inr (w\<lparr>dw_raw := dw_raw w @ bs, dw_count := dw_count w + 1\<rparr>))"

definition writer_finish :: "codec \<Rightarrow> 's storage \<Rightarrow> data_writer \<Rightarrow> 's \<Rightarrow> nat res \<times> 's" where
  "writer_finish C S w s =
     (let blob = (if dw_gzip w then gz C (dw_raw w) else dw_raw w)
      in case sg_put S (dw_path w) blob s of
           (Inl e, s') \<Rightarrow> (Inl e, s')
         | (Inr u, s') \<Rightarrow> (Inr (length blob), s'))"

fun encode_docs :: "codec \<Rightarrow> document list \<Rightarrow> bytes res" where
  "encode_docs C [] = Inr []"
| "encode_docs C (d # ds) =
     (case enc_doc C d of
        None \<Rightarrow> Inl (StorageError ''cannot serialize document'')
      | Some bs \<Rightarrow> map_sum id (append bs) (encode_docs C ds))"

definition meta_of_data :: "collection_data \<Rightarrow> collection_meta" where
  "meta_of_data d =
     \<lparr>cm_database = d_database d, cm_collection = d_collection d, cm_count = length (d_documents d),
      cm_indexes = d_indexes d, cm_validator = d_validator d, cm_options = d_options d\<rparr>"

definition write_collection_data ::
    "codec \<Rightarrow> 's storage \<Rightarrow> string \<Rightarrow> collection_data \<Rightarrow> bool \<Rightarrow> 's \<Rightarrow> nat res \<times> 's" where
  "write_collection_data C S did d gzip s =
     (case encode_docs C (d_documents d) of
        Inl e \<Rightarrow> (Inl e, s)
      | Inr raw \<Rightarrow>
          let blob = (if gzip then gz C raw else raw)
          in case sg_put S (in_dump did (data_path (d_database d) (d_collection d) gzip)) blob s of
               (Inl e, s') \<Rightarrow> (Inl e, s')
             | (Inr u, s') \<Rightarrow>
                 (case write_collection_meta C S did (meta_of_data d) s' of
                    (Inl e, s'') \<Rightarrow> (Inl e, s'')
                  | (Inr n, s'') \<Rightarrow> (Inr (length blob + n), s'')))"

definition read_collection_full ::
    "codec \<Rightarrow> 's storage \<Rightarrow> string \<Rightarrow> string \<Rightarrow> string \<Rightarrow> 's \<Rightarrow> collection_data res" where
  "read_collection_full C S did db coll s =
     (case read_collection_meta C S did db coll s of
        Inl e \<Rightarrow> Inl e
      | Inr m \<Rightarrow>
          (case open_document_reader C S did db coll s of
             Inl e \<Rightarrow> Inl e
           | Inr rd \<Rightarrow>
               map_sum id (\<lambda>docs. \<lparr>d_database = cm_database m, d_collection = cm_collection m,
                   d_documents = docs, d_indexes = cm_indexes m, d_validator = cm_validator m,
                   d_options = cm_options m\<rparr>)
                 (read_all C [] rd)))"

definition read_collection_data ::
    "codec \<Rightarrow> 's storage \<Rightarrow> string \<Rightarrow> string \<Rightarrow> string \<Rightarrow> 's \<Rightarrow> document list res" where
  "read_collection_data C S did db coll s = map_sum id d_documents (read_collection_full C S did db coll s)"

section \<open>Lemmas on framing\<close>

text \<open>
  What the format relies on of BSON for a document: it serializes to bytes that decode back, at
  most the size limit long, whose first four bytes are their own length.
\<close>

definition framed :: "codec \<Rightarrow> document \<Rightarrow> bool" where
  "framed C d =
     (case enc_doc C d of
        None \<Rightarrow> False
      | Some bs \<Rightarrow> dec_doc C bs = Some d \<and> 5 \<le> length bs \<and> int (length bs) \<le> max_document_size
          \<and> le_i32 (take 4 bs) = int (length bs))"

definition encoding :: "codec \<Rightarrow> document \<Rightarrow> bytes" where
  "encoding C d = (case enc_doc C d of None \<Rightarrow> [] | Some bs \<Rightarrow> bs)"

definition blob_of :: "codec \<Rightarrow> document list \<Rightarrow> bytes" where
  "blob_of C docs = concat (map (encoding C) docs)"

lemma blob_of_simps [simp]:
  "blob_of C [] = []" "blob_of C (d # ds) = encoding C d @ blob_of C ds"
  "blob_of C (ds @ es) = blob_of C ds @ blob_of C es"
  by (simp_all add: blob_of_def)

lemma framed_encoding:
  "framed C d \<Longrightarrow> enc_doc C d = Some (encoding C d) \<and> dec_doc C (encoding C d) = Some d
     \<and> 5 \<le> length (encoding C d) \<and> int (length (encoding C d)) \<le> max_document_size
     \<and> le_i32 (take 4 (encoding C d)) = int (length (encoding C d))"
  by (auto simp: framed_def encoding_def split: option.splits)

lemma encode_docs_blob: "\<forall>d \<in> set docs. framed C d \<Longrightarrow> encode_docs C docs = Inr (blob_of C docs)"
  by (induction docs) (auto simp: framed_encoding)

lemma next_document_framed:
  "framed C d \<Longrightarrow> next_document C \<lparr>rd_bytes = encoding C d @ rest, rd_end = e\<rparr> =
     Inr (Some d, \<lparr>rd_bytes = rest, rd_end = e\<rparr>)"
  using framed_encoding [of C d] by (simp add: next_document_def Let_def)

lemma next_document_cut:
  assumes "framed C d" "0 < k" "k < length (encoding C d)"
  shows "\<exists>x. next_document C \<lparr>rd_bytes = take k (encoding C d), rd_end = e\<rparr> = Inl x"
proof (cases "k < 4")
  case True
  with assms show ?thesis by (auto simp: next_document_def Let_def split: option.splits)
next
  case False
  then have "take 4 (take k (encoding C d)) = take 4 (encoding C d)" by (simp add: min_def)
  with False assms framed_encoding [OF assms(1)] show ?thesis by (simp add: next_document_def Let_def)
qed

lemma next_document_end [simp]:
  "next_document C \<lparr>rd_bytes = [], rd_end = None\<rparr> = Inr (None, \<lparr>rd_bytes = [], rd_end = None\<rparr>)"
  by (simp add: next_document_def Let_def)

lemma read_all_blob:
  "\<forall>d \<in> set docs. framed C d \<Longrightarrow>
     read_all C out \<lparr>rd_bytes = blob_of C docs @ rest, rd_end = e\<rparr> =
     read_all C (out @ docs) \<lparr>rd_bytes = rest, rd_end = e\<rparr>"
proof (induction docs arbitrary: out)
  case (Cons d ds)
  then show ?case
    by (subst read_all.simps) (simp add: next_document_framed)
qed simp

lemma read_all_end [simp]: "read_all C out \<lparr>rd_bytes = [], rd_end = None\<rparr> = Inr out"
  by (subst read_all.simps) simp

lemma read_all_docs:
  "\<forall>d \<in> set docs. framed C d \<Longrightarrow> read_all C [] \<lparr>rd_bytes = blob_of C docs, rd_end = None\<rparr> = Inr docs"
  using read_all_blob [of docs C "[]" "[]" None] by simp

lemma read_all_cut:
  "\<forall>d \<in> set docs. framed C d \<Longrightarrow> k \<le> length (blob_of C docs) \<Longrightarrow>
     read_all C out \<lparr>rd_bytes = take k (blob_of C docs), rd_end = None\<rparr> = Inr ds \<Longrightarrow>
     \<exists>j \<le> length docs. ds = out @ take j docs \<and> k = length (blob_of C (take j docs))"
proof (induction docs arbitrary: out k)
  case (Cons d docs)
  let ?n = "length (encoding C d)"
  have f: "framed C d" using Cons.prems(1) by simp
  consider "k = 0" | "0 < k" "k < ?n" | "?n \<le> k" by linarith
  then show ?case
  proof cases
    case 1
    with Cons.prems(3) show ?thesis by (intro exI [of _ 0]) simp
  next
    case 2
    obtain x where "next_document C \<lparr>rd_bytes = take k (encoding C d), rd_end = None\<rparr> = Inl x"
      using next_document_cut [OF f 2] by blast
    with Cons.prems(3) 2 show ?thesis by (subst (asm) read_all.simps) simp
  next
    case 3
    then have "read_all C (out @ [d]) \<lparr>rd_bytes = take (k - ?n) (blob_of C docs), rd_end = None\<rparr> = Inr ds"
      using Cons.prems(3) f by (subst (asm) read_all.simps) (simp add: next_document_framed)
    moreover have "k - ?n \<le> length (blob_of C docs)" using Cons.prems(2) by simp
    ultimately obtain j where "j \<le> length docs" "ds = (out @ [d]) @ take j docs"
        "k - ?n = length (blob_of C (take j docs))"
      using Cons.IH Cons.prems(1) by (meson list.set_intros(2))
    with 3 show ?thesis by (intro exI [of _ "Suc j"]) simp
  qed
qed simp

lemma next_batch_loop_blob:
  "\<forall>d \<in> set docs. framed C d \<Longrightarrow>
     next_batch_loop C k out \<lparr>rd_bytes = blob_of C docs, rd_end = None\<rparr> =
     Inr (out @ take k docs, \<lparr>rd_bytes = blob_of C (drop k docs), rd_end = None\<rparr>)"
proof (induction k arbitrary: out docs)
  case (Suc k)
  then show ?case by (cases docs) (simp_all add: next_document_framed)
qed simp

lemma write_documents_blob:
  "\<forall>d \<in> set docs. framed C d \<Longrightarrow>
     each_doc (write_document C) docs w =
       Inr (w\<lparr>dw_raw := dw_raw w @ blob_of C docs, dw_count := dw_count w + length docs\<rparr>)"
  by (induction docs arbitrary: w) (auto simp: write_document_def framed_encoding)

section \<open>Lemmas on paths\<close>

definition clean_name :: "string \<Rightarrow> bool" where
  "clean_name n = (slash \<notin> set n \<and> n \<noteq> [] \<and> n \<noteq> ''.'' \<and> n \<noteq> ''..'')"

lemma resolve_path_join:
  "xs \<noteq> [] \<Longrightarrow> \<forall>x \<in> set xs. clean_name x \<Longrightarrow> resolve_path (join_with [slash] xs) = xs"
  by (auto simp: resolve_path_def split_on_join clean_name_def filter_id_conv)

definition blob_segs :: "string \<Rightarrow> string \<Rightarrow> string \<Rightarrow> string list" where
  "blob_segs did db file = [did, ''data'', db, file]"

lemma blob_segs_clean:
  "clean_name did \<Longrightarrow> clean_name db \<Longrightarrow> clean_name file \<Longrightarrow>
     resolve_path (did @ ''/data/'' @ db @ ''/'' @ file) = blob_segs did db file"
  using resolve_path_join [of "blob_segs did db file"]
  by (simp add: blob_segs_def slash_def clean_name_def)

lemma clean_file: "slash \<notin> set coll \<Longrightarrow> slash \<notin> set ext \<Longrightarrow> 2 < length ext \<Longrightarrow> clean_name (coll @ ext)"
  by (auto simp: clean_name_def dest: arg_cong [where f = length])

lemma resolve_data_path:
  assumes "clean_name did" "clean_name db" "slash \<notin> set coll"
  shows "resolve_path (in_dump did (data_path db coll gzip)) =
     blob_segs did db (coll @ (if gzip then ''.bson.gz'' else ''.bson''))"
  using blob_segs_clean [OF assms(1,2) clean_file [OF assms(3)], of "''.bson.gz''"]
    blob_segs_clean [OF assms(1,2) clean_file [OF assms(3)], of "''.bson''"]
  by (auto simp: in_dump_def data_path_def slash_def)

lemma resolve_meta_path:
  assumes "clean_name did" "clean_name db" "slash \<notin> set coll"
  shows "resolve_path (in_dump did (meta_path db coll)) = blob_segs did db (coll @ ''.meta.bson'')"
  using blob_segs_clean [OF assms(1,2) clean_file [OF assms(3)], of "''.meta.bson''"]
  by (auto simp: in_dump_def meta_path_def slash_def)

text \<open>Uncompressed, the documents of a collection \<open>c.meta\<close> go where the structure of \<open>c\<close> goes.\<close>

lemma data_path_meets_meta_path: "data_path db (coll @ ''.meta'') False = meta_path db coll"
  by (simp add: data_path_def meta_path_def)

section \<open>Collections on any blob store\<close>

context blob_store begin

text \<open>
  A collection written to a dump is there to be read, on every backend that keeps blobs: its structure
  decodes, and its reader delivers exactly the bytes of its documents.
\<close>

lemma collection_parts:
  assumes ops: "sg_get S = get" "sg_put S = put" "sg_exists S = exist"
    and inv: "inv s"
    and docs: "\<forall>x \<in> set (d_documents d). framed C x"
    and gzip: "gz_on \<Longrightarrow> gunzip C (gz C (blob_of C (d_documents d))) = (blob_of C (d_documents d), None)"
    and meta: "\<And>raw. enc_cmeta C (meta_of_data d) = Some raw \<Longrightarrow> dec_cmeta C raw = Some (meta_of_data d)"
    and apart: "segs (in_dump did (data_path (d_database d) (d_collection d) gz_on))
        \<noteq> segs (in_dump did (meta_path (d_database d) (d_collection d)))"
    and plain: "\<not> gz_on \<Longrightarrow> exist (in_dump did (data_path (d_database d) (d_collection d) True)) s = Inr False
        \<and> \<not> prefix (segs (in_dump did (data_path (d_database d) (d_collection d) True)))
             (segs (in_dump did (data_path (d_database d) (d_collection d) False)))
        \<and> \<not> prefix (segs (in_dump did (data_path (d_database d) (d_collection d) True)))
             (segs (in_dump did (meta_path (d_database d) (d_collection d))))"
    and w: "write_collection_data C S did d gz_on s = (Inr n, s')"
  shows "read_collection_meta C S did (d_database d) (d_collection d) s' = Inr (meta_of_data d)
    \<and> open_document_reader C S did (d_database d) (d_collection d) s' =
        Inr \<lparr>rd_bytes = blob_of C (d_documents d), rd_end = None\<rparr>"
proof -
  let ?blob = "blob_of C (d_documents d)"
  let ?dp = "in_dump did (data_path (d_database d) (d_collection d) gz_on)"
  let ?gp = "in_dump did (data_path (d_database d) (d_collection d) True)"
  let ?mp = "in_dump did (meta_path (d_database d) (d_collection d))"
  let ?data = "if gz_on then gz C ?blob else ?blob"
  obtain s1 where s1: "put ?dp ?data s = (Inr (), s1)"
    using w ops(2) by (auto simp: write_collection_data_def Let_def encode_docs_blob [OF docs]
        split: prod.splits sum.splits)
  obtain raw where raw: "enc_cmeta C (meta_of_data d) = Some raw" "put ?mp raw s1 = (Inr (), s')"
    using w ops(2) s1
    by (auto simp: write_collection_data_def Let_def encode_docs_blob [OF docs] write_collection_meta_def
        meta_of_data_def split: prod.splits sum.splits option.splits)
  have both: "get ?dp s' = Inr ?data" "get ?mp s' = Inr raw"
    using get_put_put [OF inv s1 raw(2) apart] by simp_all
  have m: "read_collection_meta C S did (d_database d) (d_collection d) s' = Inr (meta_of_data d)"
    using both(2) meta [OF raw(1)] by (simp add: read_collection_meta_def ops)
  have r: "open_document_reader C S did (d_database d) (d_collection d) s' =
      Inr \<lparr>rd_bytes = ?blob, rd_end = None\<rparr>"
  proof (cases gz_on)
    case True
    with both(1) exist_get [OF both(1)] gzip show ?thesis by (simp add: open_document_reader_def ops)
  next
    case False
    then have "exist ?gp s1 = Inr False" using absent_put [OF inv s1] plain by simp
    then have "exist ?gp s' = Inr False"
      using absent_put [OF put_inv [OF inv s1] raw(2)] plain False by simp
    with False both(1) show ?thesis by (simp add: open_document_reader_def ops)
  qed
  from m r show ?thesis by simp
qed

end

text \<open>Reading the parts is reading the collection.\<close>

lemma read_parts:
  assumes "\<forall>x \<in> set (d_documents d). framed C x"
    and "read_collection_meta C S did db coll s = Inr (meta_of_data d)"
    and "open_document_reader C S did db coll s = Inr \<lparr>rd_bytes = blob_of C (d_documents d), rd_end = None\<rparr>"
  shows "read_collection_full C S did db coll s = Inr d"
  by (simp add: read_collection_full_def assms(2,3) read_all_docs [OF assms(1)]) (simp add: meta_of_data_def)

text \<open>On a directory the side conditions come down to names that are single segments.\<close>

lemma dir_parts:
  assumes "fs_ok fs" "clean_name did" "clean_name (d_database d)" "slash \<notin> set (d_collection d)"
    and "\<forall>x \<in> set (d_documents d). framed C x"
    and "gunzip C (gz C (blob_of C (d_documents d))) = (blob_of C (d_documents d), None)"
    and "\<And>raw. enc_cmeta C (meta_of_data d) = Some raw \<Longrightarrow> dec_cmeta C raw = Some (meta_of_data d)"
    and "\<not> gz_on \<Longrightarrow> dir_exists (in_dump did (data_path (d_database d) (d_collection d) True)) fs = Inr False"
    and "write_collection_data C dir_storage did d gz_on fs = (Inr n, fs')"
  shows "read_collection_meta C dir_storage did (d_database d) (d_collection d) fs' = Inr (meta_of_data d)
    \<and> open_document_reader C dir_storage did (d_database d) (d_collection d) fs' =
        Inr \<lparr>rd_bytes = blob_of C (d_documents d), rd_end = None\<rparr>"
proof (rule dir.collection_parts)
  note segs = resolve_data_path [OF assms(2-4)] resolve_meta_path [OF assms(2-4)] blob_segs_def
  show "resolve_path (in_dump did (data_path (d_database d) (d_collection d) gz_on))
        \<noteq> resolve_path (in_dump did (meta_path (d_database d) (d_collection d)))"
    by (auto simp: segs)
  show "dir_exists (in_dump did (data_path (d_database d) (d_collection d) True)) fs = Inr False
        \<and> \<not> prefix (resolve_path (in_dump did (data_path (d_database d) (d_collection d) True)))
             (resolve_path (in_dump did (data_path (d_database d) (d_collection d) False)))
        \<and> \<not> prefix (resolve_path (in_dump did (data_path (d_database d) (d_collection d) True)))
             (resolve_path (in_dump did (meta_path (d_database d) (d_collection d))))" if "\<not> gz_on"
    using assms(8) [OF that] by (simp add: segs)
qed (use assms in \<open>auto simp: dir_storage_def\<close>)

section \<open>Properties\<close>

text \<open>
  C8. A dumped collection restores whole from a directory: writing a collection into a dump,
  compressed or not, and reading it back yields the same documents in the same order, indexes,
  validator and options. Names are single path segments, the documents are serializable, and an
  uncompressed write does not sit beside an older compressed blob.
\<close>

theorem collection_round_trip_directory:
  assumes "fs_ok fs" "clean_name did" "clean_name (d_database d)" "slash \<notin> set (d_collection d)"
    and "\<forall>x \<in> set (d_documents d). framed C x"
    and "gunzip C (gz C (blob_of C (d_documents d))) = (blob_of C (d_documents d), None)"
    and "\<And>raw. enc_cmeta C (meta_of_data d) = Some raw \<Longrightarrow> dec_cmeta C raw = Some (meta_of_data d)"
    and "\<not> gz_on \<Longrightarrow> dir_exists (in_dump did (data_path (d_database d) (d_collection d) True)) fs = Inr False"
    and "write_collection_data C dir_storage did d gz_on fs = (Inr n, fs')"
  shows "read_collection_full C dir_storage did (d_database d) (d_collection d) fs' = Inr d"
  by (rule read_parts [OF assms(5)]) (simp_all add: dir_parts [OF assms])

text \<open>
  C32. A torn data blob never reads as something else: reading a blob that was cut anywhere either
  fails, or the cut is exactly at the end of a document and the documents before it are returned
  unchanged.
\<close>

theorem torn_blob_detected:
  assumes "\<forall>d \<in> set docs. framed C d" "k \<le> length (blob_of C docs)"
    and "read_all C [] \<lparr>rd_bytes = take k (blob_of C docs), rd_end = None\<rparr> = Inr ds"
  shows "\<exists>j \<le> length docs. ds = take j docs \<and> k = length (blob_of C (take j docs))"
  using read_all_cut [OF assms] by simp

text \<open>
  Batched reading loses and reorders nothing: a batch holds the next documents of the blob, as many
  as asked for (at least one) or all that are left, and the reader is left in front of the rest.
\<close>

theorem next_batch_takes:
  assumes "\<forall>d \<in> set docs. framed C d"
  shows "next_batch C n \<lparr>rd_bytes = blob_of C docs, rd_end = None\<rparr> =
     Inr (take (max n 1) docs, \<lparr>rd_bytes = blob_of C (drop (max n 1) docs), rd_end = None\<rparr>)"
  unfolding next_batch_def using next_batch_loop_blob [OF assms] by simp

text \<open>
  \<open>latest\<close> resolves to a completed dump, and to a most recent one by creation time; it is an error
  exactly when no dump is completed (or the listing fails).
\<close>

theorem resolve_latest:
  assumes "list_metadata C S s = Inr ms"
  shows "(\<forall>m. resolve_dump C S ''latest'' s = Inr m \<longrightarrow>
        m \<in> set ms \<and> dm_status m = Done
        \<and> (\<forall>m' \<in> set ms. dm_status m' = Done \<longrightarrow> dm_created_at m' \<le> dm_created_at m))
    \<and> ((\<exists>e. resolve_dump C S ''latest'' s = Inl e) \<longleftrightarrow> (\<forall>m \<in> set ms. dm_status m \<noteq> Done))"
proof -
  let ?done = "filter (\<lambda>m. dm_status m = Done) ms"
  have set: "set (sort_desc dm_created_at ?done) = set ?done" by (rule set_sort_desc)
  have sorted: "sorted_wrt (\<lambda>a b. dm_created_at b \<le> dm_created_at a) (sort_desc dm_created_at ?done)"
    by (rule sorted_sort_desc)
  show ?thesis
  proof (cases "sort_desc dm_created_at ?done")
    case Nil
    with set have none: "\<forall>m \<in> set ms. dm_status m \<noteq> Done" by (auto simp: filter_empty_conv)
    with Nil assms show ?thesis by (simp add: resolve_dump_def)
  next
    case (Cons m rest)
    then have r: "resolve_dump C S ''latest'' s = Inr m" using assms by (simp add: resolve_dump_def)
    have m: "m \<in> set ms" "dm_status m = Done" using set Cons by auto
    moreover have "dm_created_at m' \<le> dm_created_at m" if "m' \<in> set ms" "dm_status m' = Done" for m'
    proof -
      have "m' \<in> set (m # rest)" using that set Cons by auto
      with sorted Cons show ?thesis by auto
    qed
    ultimately show ?thesis using r by auto
  qed
qed

section \<open>An example\<close>

text \<open>A toy codec for documents with one 32-bit identifier, framed as the format asks.\<close>

definition sample_codec :: codec where
  "sample_codec =
     \<lparr>enc_doc = (\<lambda>d. case doc_get ''_id'' d of
         Some (BInt32 i) \<Rightarrow> Some (rev (be_bytes 4 8) @ be_bytes 4 (uint i)) | _ \<Rightarrow> None),
      dec_doc = (\<lambda>bs. Some [(''_id'', BInt32 (word_of_int (from_be (drop 4 bs))))]),
      gz = Cons 31, gunzip = (\<lambda>bs. (tl bs, None)),
      enc_meta = (\<lambda>m. Some (string_bytes (dm_id m))),
      dec_meta = (\<lambda>bs. Some \<lparr>dm_id = map (\<lambda>b. char_of (uint b)) bs, dm_status = Done,
        dm_created_at = ''2024'', dm_databases = [], dm_size = 0\<rparr>),
      enc_cmeta = (\<lambda>m. Some [of_nat (cm_count m)]),
      dec_cmeta = (\<lambda>bs. Some \<lparr>cm_database = ''d'', cm_collection = ''c'',
        cm_count = unat (hd bs), cm_indexes = [], cm_validator = None, cm_options = []\<rparr>)\<rparr>"

definition sample_docs :: "document list" where
  "sample_docs = [[(''_id'', BInt32 1)], [(''_id'', BInt32 7)]]"

definition sample_data :: collection_data where
  "sample_data = (empty_collection ''d'' ''c'')\<lparr>d_documents := sample_docs\<rparr>"

lemma sample_framed: "\<forall>d \<in> set sample_docs. framed sample_codec d"
proof -
  have "list_all (framed sample_codec) sample_docs" by code_simp
  then show ?thesis by (simp add: list_all_iff)
qed

lemma sample_written:
  "write_collection_data sample_codec dir_storage ''x'' sample_data False [] =
     (Inr 17, snd (write_collection_data sample_codec dir_storage ''x'' sample_data False []))"
  by code_simp

text \<open>The side conditions of the round trips on these documents.\<close>

lemma sample_meta:
  "enc_cmeta sample_codec (meta_of_data sample_data) = Some raw \<Longrightarrow>
     dec_cmeta sample_codec raw = Some (meta_of_data sample_data)"
proof -
  assume "enc_cmeta sample_codec (meta_of_data sample_data) = Some raw"
  moreover have "enc_cmeta sample_codec (meta_of_data sample_data) = Some [2]" by code_simp
  moreover have "dec_cmeta sample_codec [2] = Some (meta_of_data sample_data)" by code_simp
  ultimately show ?thesis by simp
qed

lemma sample_names:
  "d_database sample_data = ''d''" "d_collection sample_data = ''c''" "d_documents sample_data = sample_docs"
  by (simp_all add: sample_data_def empty_collection_def)

lemma sample_conditions:
  "\<forall>x \<in> set (d_documents sample_data). framed sample_codec x"
  "gunzip sample_codec (gz sample_codec (blob_of sample_codec (d_documents sample_data))) =
      (blob_of sample_codec (d_documents sample_data), None)"
  using sample_framed by (simp_all add: sample_names sample_codec_def)

theorem collection_round_trip_directory_witness:
  "read_collection_full sample_codec dir_storage ''x'' ''d'' ''c''
     (snd (write_collection_data sample_codec dir_storage ''x'' sample_data False [])) = Inr sample_data"
proof -
  have ok: "fs_ok []" by (auto simp: fs_ok_def fs_lookup_def)
  have clean: "clean_name ''x''" "clean_name (d_database sample_data)" "slash \<notin> set (d_collection sample_data)"
    by (simp_all add: clean_name_def slash_def sample_names)
  have gone: "dir_exists (in_dump ''x'' (data_path (d_database sample_data) (d_collection sample_data) True)) [] =
      Inr False"
    by code_simp
  show ?thesis
    using collection_round_trip_directory [OF ok clean sample_conditions sample_meta gone sample_written]
    by (simp only: sample_names)
qed

theorem torn_blob_detected_witness:
  "\<exists>j \<le> length sample_docs. [[(''_id'', BInt32 1)]] = take j sample_docs
     \<and> 8 = length (blob_of sample_codec (take j sample_docs))"
proof -
  have r: "read_all sample_codec [] \<lparr>rd_bytes = take 8 (blob_of sample_codec sample_docs), rd_end = None\<rparr> =
      Inr [[(''_id'', BInt32 1)]]"
    by code_simp
  have "8 \<le> length (blob_of sample_codec sample_docs)" by code_simp
  from torn_blob_detected [OF sample_framed this r] show ?thesis .
qed

theorem next_batch_takes_witness:
  "next_batch sample_codec 0 \<lparr>rd_bytes = blob_of sample_codec sample_docs, rd_end = None\<rparr> =
     Inr ([[(''_id'', BInt32 1)]], \<lparr>rd_bytes = blob_of sample_codec [[(''_id'', BInt32 7)]], rd_end = None\<rparr>)"
  using next_batch_takes [OF sample_framed, of 0] by (simp add: sample_docs_def)

theorem resolve_latest_witness:
  "\<exists>m. resolve_dump sample_codec dir_storage ''latest'' (snd (dir_put ''a/metadata.json'' [97] [])) = Inr m
     \<and> dm_status m = Done"
proof -
  let ?fs = "snd (dir_put ''a/metadata.json'' [97] [])"
  have l: "list_metadata sample_codec dir_storage ?fs =
      Inr [\<lparr>dm_id = ''a'', dm_status = Done, dm_created_at = ''2024'', dm_databases = [], dm_size = 0\<rparr>]"
    by code_simp
  show ?thesis
    using resolve_latest [OF l] by (cases "resolve_dump sample_codec dir_storage ''latest'' ?fs") auto
qed

end
