(* ===== verification/Transform.thy ===== *)
theory Transform
  imports Toolkit
begin

text \<open>
  Transformers and their registry (src/transform/mod.rs), the built-in library
  (src/transform/builtin.rs), custom transformers (src/transform/custom.rs) and the catalog over
  the registry (src/catalog.rs). A transformer is a function of the field value and the whole
  document; a factory declares parameters and builds one. The external process behind the
  \<open>command\<close> driver is a parameter here (\<open>spawn\<close>); the driver itself is \<open>CommandTransformer\<close>.
\<close>

section \<open>The registry\<close>

type_synonym transformer = "bson \<Rightarrow> document \<Rightarrow> bson res"

record factory =
  f_name :: string
  f_description :: string
  f_parameters :: "param_def list"
  f_build :: "param_values \<Rightarrow> hash_engine \<Rightarrow> transformer res"

type_synonym registry = "(string \<times> factory) list"

record transformer_doc =
  td_name :: string
  td_description :: string
  td_parameters :: "param_def list"

definition factory_doc :: "factory \<Rightarrow> transformer_doc" where
  "factory_doc f =
     \<lparr>td_name = f_name f, td_description = f_description f, td_parameters = f_parameters f\<rparr>"

definition register :: "registry \<Rightarrow> factory \<Rightarrow> registry" where
  "register r f = bt_insert (f_name f) f r"

definition registry_get :: "registry \<Rightarrow> string \<Rightarrow> factory option" where
  "registry_get r name = kv_get name r"

definition registry_names :: "registry \<Rightarrow> string list" where
  "registry_names r = map fst r"

definition registry_docs :: "registry \<Rightarrow> transformer_doc list" where
  "registry_docs r = map (\<lambda>(k, f). factory_doc f) r"

definition not_found_transformer :: "string \<Rightarrow> error" where
  "not_found_transformer name = NotFound (''transformer '' @ quoted name @ '' not found'')"

definition registry_build ::
    "registry \<Rightarrow> string \<Rightarrow> param_values \<Rightarrow> hash_engine \<Rightarrow> transformer res" where
  "registry_build r name values eng =
     (case registry_get r name of
        None \<Rightarrow> Inl (not_found_transformer name)
      | Some f \<Rightarrow> f_build f values eng)"

definition instantiate_transformer ::
    "ext \<Rightarrow> registry \<Rightarrow> string \<Rightarrow> params \<Rightarrow> hash_engine \<Rightarrow> transformer res" where
  "instantiate_transformer E r name raw eng =
     (case registry_get r name of
        None \<Rightarrow> Inl (not_found_transformer name)
      | Some f \<Rightarrow>
          (case validate_static E (f_parameters f) raw of
             Inl e \<Rightarrow> Inl e
           | Inr values \<Rightarrow> f_build f values eng))"

section \<open>The built-in transformers\<close>

definition mk_factory ::
    "string \<Rightarrow> string \<Rightarrow> param_def list \<Rightarrow> (param_values \<Rightarrow> hash_engine \<Rightarrow> transformer res) \<Rightarrow> factory" where
  "mk_factory name desc ps build =
     \<lparr>f_name = name, f_description = desc, f_parameters = ps, f_build = build\<rparr>"

text \<open>A hashed float in \<open>[0, 1)\<close>.\<close>

definition unit_f64 :: "ext \<Rightarrow> hash_engine \<Rightarrow> bytes \<Rightarrow> f64" where
  "unit_f64 E eng input =
     f64_div (f64_of_int (uint (drop_bit 11 (hash_u64 E eng input)))) (f64_of_int (2 ^ 53))"

text \<open>\<open>opt.unwrap()\<close>: the continuation runs on a value, a missing one panics.\<close>

definition unwrap_or_panic :: "'a option \<Rightarrow> ('a \<Rightarrow> 'b res) \<Rightarrow> 'b res" where
  "unwrap_or_panic o' k = (case o' of None \<Rightarrow> Inl (Panicked ''unwrap on None'') | Some x \<Rightarrow> k x)"

definition hash_transform :: "ext \<Rightarrow> hash_engine \<Rightarrow> nat \<Rightarrow> transformer" where
  "hash_transform E eng len v doc =
     (let h = x_hex E (hash_bytes E eng (to_hashable_bytes E v) (len div 2 + 1))
      in if length h < len then Inl (Panicked ''slice out of range'') else Inr (BString (take len h)))"

definition hash_factory :: "ext \<Rightarrow> factory" where
  "hash_factory E = mk_factory ''hash''
     ''Replace the value with a deterministic hex hash of the original.''
     [optional ''length'' PInt (BInt64 16) ''number of hex characters to keep'']
     (\<lambda>p eng. Inr (hash_transform E eng (nat (max 1 (sint (or_else (pv_i64 p ''length'') 16))))))"

definition random_int_factory :: "ext \<Rightarrow> factory" where
  "random_int_factory E = mk_factory ''random_int''
     ''Deterministically generate an integer within [min, max].''
     [required ''min'' PInt ''lower bound'', required ''max'' PInt ''upper bound'']
     (\<lambda>p eng.
        unwrap_or_panic (pv_i64 p ''min'') (\<lambda>lo.
        unwrap_or_panic (pv_i64 p ''max'') (\<lambda>hi.
          Inr (\<lambda>v doc. Inr (BInt64 (ranged_i64 E eng (to_hashable_bytes E v) lo hi))))))"

definition random_float_factory :: "ext \<Rightarrow> factory" where
  "random_float_factory E = mk_factory ''random_float''
     ''Deterministically generate a float within [min, max].''
     [required ''min'' PFloat ''lower bound'', required ''max'' PFloat ''upper bound'']
     (\<lambda>p eng.
        unwrap_or_panic (pv_f64 p ''min'') (\<lambda>lo.
        unwrap_or_panic (pv_f64 p ''max'') (\<lambda>hi.
          Inr (\<lambda>v doc.
            let u = unit_f64 E eng (to_hashable_bytes E v)
            in Inr (BDouble (f64_add lo (f64_mul u (f64_sub hi lo))))))))"

definition default_ratio :: f64 where
  "default_ratio = 0x3FB999999999999A"

definition signed_unit :: "ext \<Rightarrow> hash_engine \<Rightarrow> bytes \<Rightarrow> f64" where
  "signed_unit E eng input = f64_sub (f64_mul (unit_f64 E eng input) (f64_of_int 2)) (f64_of_int 1)"

definition noise_delta :: "i64 \<Rightarrow> f64 \<Rightarrow> f64 \<Rightarrow> i64" where
  "noise_delta base ratio s =
     f64_to_i64 (f64_round (f64_mul (f64_mul (f64_of_int (sint base)) ratio) s))"

definition noise_int_transform :: "ext \<Rightarrow> hash_engine \<Rightarrow> f64 \<Rightarrow> transformer" where
  "noise_int_transform E eng ratio v doc =
     (case to_i64 v of
        None \<Rightarrow> Inl (TransformError ''noise_int needs an integer'')
      | Some base \<Rightarrow>
          Inr (BInt64 (sat_add_i64 base
                 (noise_delta base ratio (signed_unit E eng (to_hashable_bytes E v))))))"

definition noise_int_factory :: "ext \<Rightarrow> factory" where
  "noise_int_factory E = mk_factory ''noise_int''
     ''Perturb an integer by up to +-ratio of its magnitude, keeping the int type.''
     [optional ''ratio'' PFloat (BDouble default_ratio) ''maximum fractional perturbation'']
     (\<lambda>p eng. Inr (noise_int_transform E eng (or_else (pv_f64 p ''ratio'') default_ratio)))"

definition noise_float_factory :: "ext \<Rightarrow> factory" where
  "noise_float_factory E = mk_factory ''noise_float''
     ''Perturb a float by up to +-ratio of its magnitude, keeping the double type.''
     [optional ''ratio'' PFloat (BDouble default_ratio) ''maximum fractional perturbation'']
     (\<lambda>p eng.
        let ratio = or_else (pv_f64 p ''ratio'') default_ratio
        in Inr (\<lambda>v doc.
             case to_f64 v of
               None \<Rightarrow> Inl (TransformError ''noise_float needs a number'')
             | Some base \<Rightarrow>
                 let s = signed_unit E eng (to_hashable_bytes E v)
                 in Inr (BDouble (f64_add base (f64_mul (f64_mul base ratio) s)))))"

text \<open>\<open>-max_days\<close> is the wrapping negation of a release build.\<close>

definition noise_date_transform :: "ext \<Rightarrow> hash_engine \<Rightarrow> i64 \<Rightarrow> transformer" where
  "noise_date_transform E eng max_days v doc =
     (case v of
        BDateTime dt \<Rightarrow>
          let shift = ranged_i64 E eng (to_hashable_bytes E v) (- max_days) max_days
          in Inr (BDateTime (sat_add_i64 dt (sat_mul_i64 shift 86400000)))
      | _ \<Rightarrow> Inl (TransformError ''noise_date needs a datetime''))"

definition noise_date_factory :: "ext \<Rightarrow> factory" where
  "noise_date_factory E = mk_factory ''noise_date''
     ''Shift a date by up to +-max_days, keeping the datetime type.''
     [optional ''max_days'' PInt (BInt64 30) ''maximum absolute shift in days'']
     (\<lambda>p eng. Inr (noise_date_transform E eng (or_else (pv_i64 p ''max_days'') 30)))"

definition masking_transform :: "string \<Rightarrow> transformer" where
  "masking_transform ch v doc =
     Inr (BString (concat (replicate (chars_count (or_else (as_str v) [])) ch)))"

definition masking_factory :: "ext \<Rightarrow> factory" where
  "masking_factory E = mk_factory ''masking''
     ''Replace every character of a string with a mask character, keeping length.''
     [optional ''char'' PString (BString ''*'') ''mask character'']
     (\<lambda>p eng. Inr (masking_transform
        (or_else (first_char (or_else (pv_str p ''char'') ''*'')) ''*'')))"

definition regexp_replace_factory :: "ext \<Rightarrow> factory" where
  "regexp_replace_factory E = mk_factory ''regexp_replace''
     ''Apply a regular-expression replacement to a string value.''
     [required ''regexp'' PString ''pattern'', required ''replace'' PString ''replacement'']
     (\<lambda>p eng.
        unwrap_or_panic (pv_str p ''regexp'') (\<lambda>re.
          if \<not> x_regex_ok E re then Inl (TransformError ''invalid regexp'')
          else unwrap_or_panic (pv_str p ''replace'') (\<lambda>repl.
            Inr (\<lambda>v doc. Inr (BString (x_regex_replace E re (or_else (as_str v) []) repl))))))"

definition replace_factory :: "ext \<Rightarrow> factory" where
  "replace_factory E = mk_factory ''replace''
     ''Replace the value with a fixed configured value.''
     [required ''value'' PAny ''replacement value'']
     (\<lambda>p eng. Inr (\<lambda>v doc. Inr (or_else (pv_get p ''value'') BNull)))"

definition set_null_factory :: "ext \<Rightarrow> factory" where
  "set_null_factory E = mk_factory ''set_null'' ''Set the value to null.'' []
     (\<lambda>p eng. Inr (\<lambda>v doc. Inr BNull))"

text \<open>Lower-case hexadecimal, as \<open>format!("{h:x}")\<close> renders an unsigned integer.\<close>

definition hex_digit :: "int \<Rightarrow> char" where
  "hex_digit d = (if d < 10 then char_of (48 + d) else char_of (87 + d))"

fun show_hex :: "int \<Rightarrow> string" where
  "show_hex n = (if n < 16 then [hex_digit n] else show_hex (n div 16) @ [hex_digit (n mod 16)])"

declare show_hex.simps [simp del]

definition random_email_factory :: "ext \<Rightarrow> factory" where
  "random_email_factory E = mk_factory ''random_email''
     ''Deterministically generate an email address.''
     [optional ''domain'' PString (BString ''example.com'') ''email domain'']
     (\<lambda>p eng.
        let domain = or_else (pv_str p ''domain'') ''example.com''
        in Inr (\<lambda>v doc.
             let h = hash_u64 E eng (to_hashable_bytes E v)
             in Inr (BString (''user'' @ show_hex (uint h) @ ''@'' @ domain))))"

definition first_names :: "string list" where
  "first_names = [''Alex'', ''Blake'', ''Casey'', ''Devin'', ''Erin'', ''Frankie'', ''Gale'', ''Harper'',
                  ''Ira'', ''Jamie'']"

definition last_names :: "string list" where
  "last_names = [''Ash'', ''Brooks'', ''Cole'', ''Diaz'', ''Eng'', ''Ford'', ''Green'', ''Hale'',
                 ''Ibarra'', ''Jones'']"

definition companies :: "string list" where
  "companies = [''Acme'', ''Globex'', ''Initech'', ''Umbrella'', ''Hooli'', ''Soylent'']"

text \<open>The names are ASCII, so \<open>to_lowercase\<close> on them is the ASCII one.\<close>

definition person_transform :: "ext \<Rightarrow> hash_engine \<Rightarrow> transformer" where
  "person_transform E eng v doc =
     (let bs = to_hashable_bytes E v;
          first = first_names ! index E eng bs (length first_names);
          last = last_names ! index E eng (bs @ string_bytes ''last'') (length last_names)
      in Inr (BDocument
           (doc_insert ''email''
              (BString (map ascii_lower first @ ''.'' @ map ascii_lower last @ ''@example.com''))
           (doc_insert ''last_name'' (BString last)
           (doc_insert ''first_name'' (BString first) [])))))"

definition random_person_factory :: "ext \<Rightarrow> factory" where
  "random_person_factory E = mk_factory ''random_person''
     ''Deterministically generate consistent person fields (first_name, last_name, email) into an embedded document.''
     [] (\<lambda>p eng. Inr (person_transform E eng))"

definition random_company_factory :: "ext \<Rightarrow> factory" where
  "random_company_factory E = mk_factory ''random_company''
     ''Deterministically generate a company name.'' []
     (\<lambda>p eng. Inr (\<lambda>v doc.
        Inr (BString (companies ! index E eng (to_hashable_bytes E v) (length companies)))))"

definition random_object_id_factory :: "ext \<Rightarrow> factory" where
  "random_object_id_factory E = mk_factory ''random_object_id''
     ''Deterministically transform an ObjectId while keeping it a valid ObjectId.'' []
     (\<lambda>p eng. Inr (\<lambda>v doc. Inr (BObjectId (hash_bytes E eng (to_hashable_bytes E v) 12))))"

definition random_bytes_factory :: "ext \<Rightarrow> factory" where
  "random_bytes_factory E = mk_factory ''random_bytes''
     ''Deterministically generate binary data of a given length.''
     [optional ''length'' PInt (BInt64 16) ''number of bytes'']
     (\<lambda>p eng.
        let len = nat (max 0 (sint (or_else (pv_i64 p ''length'') 16)))
        in Inr (\<lambda>v doc. Inr (BBinary 0 (hash_bytes E eng (to_hashable_bytes E v) len))))"

text \<open>What a placeholder is replaced by: the string itself, the rendering of another value, or
  nothing for an absent field.\<close>

definition placeholder :: "ext \<Rightarrow> document \<Rightarrow> string \<Rightarrow> string" where
  "placeholder E doc field =
     (case doc_get field doc of
        Some (BString s) \<Rightarrow> s
      | Some b \<Rightarrow> bson_to_string E b
      | None \<Rightarrow> [])"

definition template_transform :: "ext \<Rightarrow> string \<Rightarrow> transformer" where
  "template_transform E tmpl v doc = Inr (BString (x_template E tmpl (placeholder E doc)))"

definition template_factory :: "ext \<Rightarrow> factory" where
  "template_factory E = mk_factory ''template''
     ''Render a template with {{ field }} placeholders substituted from the document.''
     [required ''template'' PString ''template text'']
     (\<lambda>p eng. unwrap_or_panic (pv_str p ''template'') (\<lambda>t. Inr (template_transform E t)))"

definition builtin_factories :: "ext \<Rightarrow> factory list" where
  "builtin_factories E =
     [hash_factory E, random_int_factory E, random_float_factory E, noise_int_factory E,
      noise_float_factory E, noise_date_factory E, masking_factory E, regexp_replace_factory E,
      replace_factory E, set_null_factory E, random_email_factory E, random_person_factory E,
      random_company_factory E, random_object_id_factory E, random_bytes_factory E,
      template_factory E]"

definition register_all :: "ext \<Rightarrow> registry \<Rightarrow> registry" where
  "register_all E r = foldl register r (builtin_factories E)"

definition with_builtins :: "ext \<Rightarrow> registry" where
  "with_builtins E = register_all E []"

section \<open>Custom transformers\<close>

record custom_param =
  cp_name :: string
  cp_kind :: string
  cp_required :: bool

definition to_definition :: "custom_param \<Rightarrow> param_def" where
  "to_definition c =
     (let k = (if cp_kind c = ''int'' then PInt
               else if cp_kind c = ''float'' then PFloat
               else if cp_kind c = ''bool'' then PBool
               else if cp_kind c = ''objectId'' then PObjectId
               else if cp_kind c = ''datetime'' then PDateTime
               else PString)
      in if cp_required c then required (cp_name c) k ''custom parameter''
         else optional (cp_name c) k BNull ''custom parameter'')"

record custom_def =
  cd_name :: string
  cd_description :: "string option"
  cd_driver :: string
  cd_command :: "string list option"
  cd_template :: "string option"
  cd_parameters :: "custom_param list"

definition custom_factory :: "ext \<Rightarrow> (string list \<Rightarrow> transformer res) \<Rightarrow> custom_def \<Rightarrow> factory res" where
  "custom_factory E spawn d =
     (let ps = map to_definition (cd_parameters d);
          desc = or_else (cd_description d) (''custom '' @ cd_driver d @ '' transformer'');
          who = ''custom transformer '' @ quoted (cd_name d)
      in if cd_driver d = ''command'' then
           (case cd_command d of
              None \<Rightarrow> Inl (TransformError (who @ '' needs a command''))
            | Some argv \<Rightarrow>
                if argv = [] then Inl (TransformError (who @ '' needs a command''))
                else Inr (mk_factory (cd_name d) desc ps (\<lambda>p eng. spawn argv)))
         else if cd_driver d = ''template'' then
           (case cd_template d of
              None \<Rightarrow> Inl (TransformError (who @ '' needs a template''))
            | Some t \<Rightarrow> Inr (mk_factory (cd_name d) desc ps (\<lambda>p eng. Inr (template_transform E t))))
         else Inl (TransformError (who @ '' has unknown driver '' @ quoted (cd_driver d) @
                     '' (command|template)'')))"

fun register_custom ::
    "ext \<Rightarrow> (string list \<Rightarrow> transformer res) \<Rightarrow> registry \<Rightarrow> custom_def list \<Rightarrow> registry res" where
  "register_custom E spawn r [] = Inr r"
| "register_custom E spawn r (d # ds) =
     (case custom_factory E spawn d of
        Inl e \<Rightarrow> Inl e
      | Inr f \<Rightarrow> register_custom E spawn (register r f) ds)"

section \<open>The catalog\<close>

definition build_registry ::
    "ext \<Rightarrow> (string list \<Rightarrow> transformer res) \<Rightarrow> (yaml \<Rightarrow> string + custom_def list) \<Rightarrow> config option
       \<Rightarrow> registry res" where
  "build_registry E spawn from_value cfg =
     (let r = with_builtins E
      in case cfg of
           None \<Rightarrow> Inr r
         | Some c \<Rightarrow>
             if custom_transformers c = YNull then Inr r
             else (case from_value (custom_transformers c) of
                     Inl m \<Rightarrow> Inl (ConfigError (''custom_transformers: '' @ m))
                   | Inr ds \<Rightarrow> register_custom E spawn r ds))"

text \<open>The dash of the listing is U+2014 in UTF-8.\<close>

definition em_dash :: string where
  "em_dash = [CHR 0xE2, CHR 0x80, CHR 0x94]"

definition catalog_list :: "registry \<Rightarrow> string" where
  "catalog_list r =
     join_with [CHR 0x0A] (map (\<lambda>d. td_name d @ '' '' @ em_dash @ '' '' @ td_description d) (registry_docs r))"

definition show_param :: "param_def \<Rightarrow> string" where
  "show_param p =
     ''    - '' @ pd_name p @ '' : '' @ type_name (pd_kind p) @ '' ('' @
       (if pd_required p then ''required'' else ''optional'') @ '') '' @ em_dash @ '' '' @
       pd_description p @ [CHR 0x0A]"

definition catalog_show :: "registry \<Rightarrow> string \<Rightarrow> string res" where
  "catalog_show r name =
     (case registry_get r name of
        None \<Rightarrow> Inl (not_found_transformer name)
      | Some f \<Rightarrow>
          let d = factory_doc f
          in Inr (td_name d @ [CHR 0x0A] @ ''  '' @ td_description d @ [CHR 0x0A] @
               (if td_parameters d = [] then ''  (no parameters)'' @ [CHR 0x0A]
                else ''  parameters:'' @ [CHR 0x0A] @ concat (map show_param (td_parameters d)))))"

section \<open>Lemmas\<close>

lemma register_get: "registry_get (register r f) name = (if name = f_name f then Some f else registry_get r name)"
  by (simp add: register_def registry_get_def bt_get_insert)

lemma mk_factory_sel [simp]:
  "f_name (mk_factory n d ps b) = n" "f_description (mk_factory n d ps b) = d"
  "f_parameters (mk_factory n d ps b) = ps" "f_build (mk_factory n d ps b) = b"
  by (simp_all add: mk_factory_def)

lemma registry_foldl_get:
  "registry_get (foldl register r fs) name =
     (case filter (\<lambda>f. f_name f = name) fs of [] \<Rightarrow> registry_get r name | ys \<Rightarrow> Some (last ys))"
  using bt.get_fold_ins [of name "f_name" "\<lambda>f. f" r fs]
  by (simp add: register_def [abs_def] registry_get_def split: list.split)

text \<open>Every registered factory is stored under its own name.\<close>

definition registry_ok :: "registry \<Rightarrow> bool" where
  "registry_ok r = (bt_sorted r \<and> (\<forall>(k, f) \<in> set r. f_name f = k))"

lemma bt_insert_set: "p \<in> set (bt_insert k v m) \<Longrightarrow> p = (k, v) \<or> p \<in> set m"
  by (induction m) (auto split: if_splits)

lemma registry_ok_register: "registry_ok r \<Longrightarrow> registry_ok (register r f)"
  by (auto simp: registry_ok_def register_def bt_sorted_insert dest!: bt_insert_set)

lemma registry_ok_foldl: "registry_ok r \<Longrightarrow> registry_ok (foldl register r fs)"
  by (induction fs arbitrary: r) (auto simp: registry_ok_register)

lemma registry_ok_builtins: "registry_ok (with_builtins E)"
  unfolding with_builtins_def register_all_def
  by (rule registry_ok_foldl) (simp add: registry_ok_def)

lemma registry_ok_custom:
  "register_custom E spawn r ds = Inr r' \<Longrightarrow> registry_ok r \<Longrightarrow> registry_ok r'"
  by (induction ds arbitrary: r) (auto split: sum.splits simp: registry_ok_register)

end
