(* ===== verification/Inheritance.thy ===== *)
theory Inheritance
  imports References
begin

text \<open>
  Transformation rules as configured (the configuration types of src/transform/apply.rs and
  src/transform/dynamic.rs) and their expansion along the reference graph
  (src/transform/inheritance.rs): a rule marked \<open>apply_for_references\<close> is inherited by the fields
  declared to reference the transformed one.
\<close>

section \<open>Configured rules\<close>

record transformer_rule =
  r_field :: string
  r_name :: string
  r_params :: params
  r_when :: "string option"
  r_dynamic :: "(string \<times> string) list"
  r_apply_for_references :: bool
  r_type_override :: "string option"

record transformation_config =
  tc_collection :: string
  tc_when :: "string option"
  tc_query :: "yaml option"
  tc_transformers :: "transformer_rule list"

record field_transform =
  ft_collection :: string
  ft_field :: string
  ft_name :: string
  ft_params :: params
  ft_apply_for_references :: bool
  ft_inherited :: bool

section \<open>Expansion\<close>

definition has_explicit :: "field_transform list \<Rightarrow> string \<Rightarrow> string \<Rightarrow> bool" where
  "has_explicit explicit coll field =
     list_ex (\<lambda>t. ft_collection t = coll \<and> ft_field t = field) explicit"

definition points_here :: "field_transform \<Rightarrow> virtual_reference \<Rightarrow> bool" where
  "points_here src e =
     (to_field e = ft_field src \<and> list_ex (\<lambda>c. c = ft_collection src) (target_collections e))"

definition already_inherited :: "field_transform list \<Rightarrow> virtual_reference \<Rightarrow> bool" where
  "already_inherited out e =
     list_ex (\<lambda>t. ft_collection t = from_collection e \<and> ft_field t = from_field e \<and> ft_inherited t) out"

definition inherit_from :: "field_transform \<Rightarrow> virtual_reference \<Rightarrow> field_transform" where
  "inherit_from src e =
     \<lparr>ft_collection = from_collection e, ft_field = from_field e, ft_name = ft_name src,
      ft_params = ft_params src, ft_apply_for_references = False, ft_inherited = True\<rparr>"

fun expand_edges ::
    "field_transform list \<Rightarrow> field_transform \<Rightarrow> virtual_reference list \<Rightarrow> field_transform list
       \<Rightarrow> field_transform list" where
  "expand_edges explicit src [] out = out"
| "expand_edges explicit src (e # es) out =
     (if \<not> points_here src e then expand_edges explicit src es out
      else if has_explicit explicit (from_collection e) (from_field e) \<or> already_inherited out e
      then expand_edges explicit src es out
      else expand_edges explicit src es (out @ [inherit_from src e]))"

fun expand_sources ::
    "field_transform list \<Rightarrow> reference_graph \<Rightarrow> field_transform list \<Rightarrow> field_transform list
       \<Rightarrow> field_transform list" where
  "expand_sources explicit g [] out = out"
| "expand_sources explicit g (src # srcs) out =
     expand_sources explicit g srcs (expand_edges explicit src g out)"

definition expand_inherited :: "field_transform list \<Rightarrow> reference_graph \<Rightarrow> field_transform list" where
  "expand_inherited explicit g =
     expand_sources explicit g (filter ft_apply_for_references explicit) explicit"

definition explicit_of :: "transformation_config list \<Rightarrow> field_transform list" where
  "explicit_of configs =
     concat (map (\<lambda>c. map (\<lambda>r. \<lparr>ft_collection = tc_collection c, ft_field = r_field r,
                              ft_name = r_name r, ft_params = r_params r,
                              ft_apply_for_references = r_apply_for_references r,
                              ft_inherited = False\<rparr>) (tc_transformers c)) configs)"

definition inherited_rule :: "field_transform \<Rightarrow> transformer_rule" where
  "inherited_rule t =
     \<lparr>r_field = ft_field t, r_name = ft_name t, r_params = ft_params t, r_when = None,
      r_dynamic = [], r_apply_for_references = False, r_type_override = None\<rparr>"

text \<open>The rule joins the first entry of its collection, or a new entry at the end.\<close>

fun add_rule ::
    "string \<Rightarrow> transformer_rule \<Rightarrow> transformation_config list \<Rightarrow> transformation_config list" where
  "add_rule coll r [] =
     [\<lparr>tc_collection = coll, tc_when = None, tc_query = None, tc_transformers = [r]\<rparr>]"
| "add_rule coll r (c # cs) =
     (if tc_collection c = coll then c\<lparr>tc_transformers := tc_transformers c @ [r]\<rparr> # cs
      else c # add_rule coll r cs)"

definition expand_transformation_configs ::
    "transformation_config list \<Rightarrow> reference_graph \<Rightarrow> transformation_config list" where
  "expand_transformation_configs configs g =
     foldl (\<lambda>out t. add_rule (ft_collection t) (inherited_rule t) out) configs
       (filter ft_inherited (expand_inherited (explicit_of configs) g))"

section \<open>Lemmas\<close>

text \<open>The invariant of the expansion loop: the explicit transforms first, then inherited ones, at
  most one per field, none on a field with an explicit transform, each copied from a marked
  source along an edge that points at it.\<close>

definition inherited_from_marked ::
    "field_transform list \<Rightarrow> reference_graph \<Rightarrow> field_transform \<Rightarrow> bool" where
  "inherited_from_marked explicit g t =
     (\<exists>src \<in> set explicit. \<exists>e \<in> set g. ft_apply_for_references src \<and> points_here src e
        \<and> t = inherit_from src e)"

definition expansion_inv ::
    "field_transform list \<Rightarrow> reference_graph \<Rightarrow> field_transform list \<Rightarrow> bool" where
  "expansion_inv explicit g out =
     (\<exists>extra. out = explicit @ extra
        \<and> (\<forall>t \<in> set extra. inherited_from_marked explicit g t
             \<and> \<not> has_explicit explicit (ft_collection t) (ft_field t))
        \<and> distinct (map (\<lambda>t. (ft_collection t, ft_field t)) extra))"

lemma inherit_from_sel [simp]:
  "ft_collection (inherit_from src e) = from_collection e"
  "ft_field (inherit_from src e) = from_field e"
  "ft_name (inherit_from src e) = ft_name src" "ft_params (inherit_from src e) = ft_params src"
  "ft_inherited (inherit_from src e)" "\<not> ft_apply_for_references (inherit_from src e)"
  by (simp_all add: inherit_from_def)

lemma expansion_inv_step:
  assumes inv: "expansion_inv explicit g out"
    and src: "src \<in> set explicit" "ft_apply_for_references src"
    and e: "e \<in> set g" "points_here src e"
    and fresh: "\<not> has_explicit explicit (from_collection e) (from_field e)" "\<not> already_inherited out e"
  shows "expansion_inv explicit g (out @ [inherit_from src e])"
proof -
  obtain extra where out: "out = explicit @ extra"
    and all: "\<forall>t \<in> set extra. inherited_from_marked explicit g t
             \<and> \<not> has_explicit explicit (ft_collection t) (ft_field t)"
    and dist: "distinct (map (\<lambda>t. (ft_collection t, ft_field t)) extra)"
    using inv by (auto simp: expansion_inv_def)
  have "t \<in> set extra \<Longrightarrow> ft_inherited t" for t
    using all by (auto simp: inherited_from_marked_def)
  then have new: "(from_collection e, from_field e) \<notin> set (map (\<lambda>t. (ft_collection t, ft_field t)) extra)"
    using fresh(2) by (auto simp: already_inherited_def out list_ex_iff)
  have "inherited_from_marked explicit g (inherit_from src e)"
    using src e by (auto simp: inherited_from_marked_def)
  with all dist new fresh(1) show ?thesis
    unfolding expansion_inv_def out by (intro exI [of _ "extra @ [inherit_from src e]"]) auto
qed

lemma expand_edges_inv:
  "expansion_inv explicit g out \<Longrightarrow> src \<in> set explicit \<Longrightarrow> ft_apply_for_references src \<Longrightarrow>
     set es \<subseteq> set g \<Longrightarrow> expansion_inv explicit g (expand_edges explicit src es out)"
  by (induction es arbitrary: out) (auto intro: expansion_inv_step)

lemma expand_sources_inv:
  "expansion_inv explicit g out \<Longrightarrow> \<forall>src \<in> set srcs. src \<in> set explicit \<and> ft_apply_for_references src \<Longrightarrow>
     expansion_inv explicit g (expand_sources explicit g srcs out)"
  by (induction srcs arbitrary: out) (auto intro: expand_edges_inv)

lemma expand_inherited_inv: "expansion_inv explicit g (expand_inherited explicit g)"
  unfolding expand_inherited_def
  by (rule expand_sources_inv) (auto simp: expansion_inv_def)

text \<open>Nothing is lost along the loop, and every pointing edge is served.\<close>

definition served :: "field_transform list \<Rightarrow> virtual_reference \<Rightarrow> bool" where
  "served out e = (\<exists>t \<in> set out. ft_collection t = from_collection e \<and> ft_field t = from_field e)"

lemma expand_edges_mono: "set out \<subseteq> set (expand_edges explicit src es out)"
  by (induction explicit src es out rule: expand_edges.induct) auto

lemma expand_sources_mono: "set out \<subseteq> set (expand_sources explicit g srcs out)"
  by (induction srcs arbitrary: out) (auto dest: subsetD [OF expand_edges_mono])

lemma served_mono: "served out e \<Longrightarrow> set out \<subseteq> set out' \<Longrightarrow> served out' e"
  by (auto simp: served_def)

lemma expand_edges_served:
  "e \<in> set es \<Longrightarrow> points_here src e \<Longrightarrow> set explicit \<subseteq> set out \<Longrightarrow>
     served (expand_edges explicit src es out) e"
proof (induction es arbitrary: out)
  case (Cons e' es)
  show ?case
  proof (cases "e = e'")
    case True
    let ?skip = "has_explicit explicit (from_collection e) (from_field e) \<or> already_inherited out e"
    have "served (if ?skip then out else out @ [inherit_from src e]) e"
      using Cons.prems(3)
      by (auto simp: served_def has_explicit_def already_inherited_def list_ex_iff)
    then show ?thesis
      using Cons.prems(2) True
      by (auto intro: served_mono [OF _ expand_edges_mono])
  next
    case False
    with Cons show ?thesis by (simp add: subset_iff)
  qed
qed simp

lemma expand_sources_served:
  "src \<in> set srcs \<Longrightarrow> e \<in> set g \<Longrightarrow> points_here src e \<Longrightarrow> set explicit \<subseteq> set out \<Longrightarrow>
     served (expand_sources explicit g srcs out) e"
proof (induction srcs arbitrary: out)
  case (Cons s srcs)
  show ?case
  proof (cases "src = s")
    case True
    have "served (expand_edges explicit src g out) e"
      using Cons.prems by (intro expand_edges_served) auto
    then show ?thesis
      using True by (auto intro: served_mono [OF _ expand_sources_mono])
  next
    case False
    have "set explicit \<subseteq> set (expand_edges explicit s g out)"
      using Cons.prems(4) expand_edges_mono by blast
    with Cons False show ?thesis by simp
  qed
qed simp

lemma expand_inherited_served:
  "src \<in> set explicit \<Longrightarrow> ft_apply_for_references src \<Longrightarrow> e \<in> set g \<Longrightarrow> points_here src e \<Longrightarrow>
     served (expand_inherited explicit g) e"
  unfolding expand_inherited_def by (rule expand_sources_served) auto

text \<open>Adding rules keeps what is configured: each entry survives with its own rules in front.\<close>

definition extends :: "transformation_config \<Rightarrow> transformation_config \<Rightarrow> bool" where
  "extends c c' =
     (tc_collection c' = tc_collection c \<and> tc_when c' = tc_when c \<and> tc_query c' = tc_query c
        \<and> prefix (tc_transformers c) (tc_transformers c'))"

lemma extends_refl [simp]: "extends c c"
  by (simp add: extends_def)

lemma extends_trans: "extends a b \<Longrightarrow> extends b c \<Longrightarrow> extends a c"
  by (auto simp: extends_def)

lemma add_rule_length: "length cs \<le> length (add_rule coll r cs)"
  by (induction cs) auto

lemma add_rule_extends: "i < length cs \<Longrightarrow> extends (cs ! i) (add_rule coll r cs ! i)"
proof (induction cs arbitrary: i)
  case (Cons c cs)
  then show ?case by (cases i) (auto simp: extends_def)
qed simp

lemma add_rule_has:
  "\<exists>c \<in> set (add_rule coll r cs). tc_collection c = coll \<and> r \<in> set (tc_transformers c)"
  by (induction cs) auto

lemma add_rule_keeps:
  "c \<in> set cs \<Longrightarrow> \<exists>c' \<in> set (add_rule coll r cs). extends c c'"
proof -
  assume "c \<in> set cs"
  then obtain i where i: "i < length cs" "cs ! i = c" by (auto simp: in_set_conv_nth)
  then have "i < length (add_rule coll r cs)" using add_rule_length [of cs coll r] by simp
  with i add_rule_extends [of i cs coll r] show ?thesis by (metis nth_mem)
qed

lemma add_rules_extends:
  "i < length cs \<Longrightarrow>
     extends (cs ! i) (foldl (\<lambda>out t. add_rule (ft_collection t) (inherited_rule t) out) cs ts ! i)
     \<and> i < length (foldl (\<lambda>out t. add_rule (ft_collection t) (inherited_rule t) out) cs ts)"
proof (induction ts arbitrary: cs)
  case (Cons t ts)
  let ?cs = "add_rule (ft_collection t) (inherited_rule t) cs"
  have "i < length ?cs" using Cons.prems add_rule_length [of cs] by (rule less_le_trans)
  from Cons.IH [OF this] add_rule_extends [OF Cons.prems] show ?case
    by (auto intro: extends_trans)
qed simp

lemma add_rules_has:
  "t \<in> set ts \<Longrightarrow>
     \<exists>c \<in> set (foldl (\<lambda>out t. add_rule (ft_collection t) (inherited_rule t) out) cs ts).
       tc_collection c = ft_collection t \<and> inherited_rule t \<in> set (tc_transformers c)"
proof (induction ts arbitrary: cs)
  case (Cons t' ts)
  let ?cs = "add_rule (ft_collection t') (inherited_rule t') cs"
  show ?case
  proof (cases "t = t'")
    case True
    obtain c where c: "c \<in> set ?cs" "tc_collection c = ft_collection t"
        "inherited_rule t \<in> set (tc_transformers c)"
      using add_rule_has True by blast
    then obtain i where i: "i < length ?cs" "?cs ! i = c" by (auto simp: in_set_conv_nth)
    let ?out = "foldl (\<lambda>out t. add_rule (ft_collection t) (inherited_rule t) out) ?cs ts"
    have ext: "extends c (?out ! i)" and len: "i < length ?out"
      using add_rules_extends [OF i(1), of ts] i(2) by simp_all
    from ext have p: "prefix (tc_transformers c) (tc_transformers (?out ! i))"
      and coll: "tc_collection (?out ! i) = ft_collection t"
      using c(2) by (auto simp: extends_def)
    have "inherited_rule t \<in> set (tc_transformers (?out ! i))"
      using set_mono_prefix [OF p] c(3) by (rule subsetD)
    with coll nth_mem [OF len] have "\<exists>c \<in> set ?out. tc_collection c = ft_collection t
        \<and> inherited_rule t \<in> set (tc_transformers c)" by (rule_tac x = "?out ! i" in bexI) simp_all
    then show ?thesis by simp
  next
    case False
    with Cons show ?thesis by simp
  qed
qed simp

text \<open>No collection gets a second entry.\<close>

lemma add_rule_collections:
  "map tc_collection (add_rule coll r cs) =
     (if coll \<in> set (map tc_collection cs) then map tc_collection cs else map tc_collection cs @ [coll])"
  by (induction cs) auto

lemma add_rules_distinct:
  "distinct (map tc_collection cs) \<Longrightarrow>
     distinct (map tc_collection (foldl (\<lambda>out t. add_rule (ft_collection t) (inherited_rule t) out) cs ts))"
  by (induction ts arbitrary: cs) (auto simp: add_rule_collections)

end
