(* ===== verification/Apply.thy ===== *)
theory Apply
  imports Transform Condition Inheritance
begin

text \<open>
  Dynamic parameters (src/transform/dynamic.rs) and the compiled transformation plan
  (src/transform/apply.rs): compiling the configured rules against a registry, and running the
  plan on one document.
\<close>

section \<open>Dynamic parameters\<close>

record dynamic_binding =
  db_param :: string
  db_field :: string
  db_kind :: param_type

fun dyn_from_config :: "(string \<times> string) list \<Rightarrow> param_def list \<Rightarrow> dynamic_binding list res" where
  "dyn_from_config [] defs = Inr []"
| "dyn_from_config ((param, field) # cfg) defs =
     (case find (\<lambda>d. pd_name d = param) defs of
        None \<Rightarrow> Inl (ParameterError (''dynamic parameter '' @ quoted param @
                  '' is not a parameter of this transformer''))
      | Some d \<Rightarrow>
          (case dyn_from_config cfg defs of
             Inl e \<Rightarrow> Inl e
           | Inr bs \<Rightarrow> Inr (\<lparr>db_param = param, db_field = field, db_kind = pd_kind d\<rparr> # bs)))"

fun validate_fields :: "dynamic_binding list \<Rightarrow> string set \<Rightarrow> unit res" where
  "validate_fields [] known = Inr ()"
| "validate_fields (b # bs) known =
     (if hd (split_on dot (db_field b)) \<notin> known \<and> db_field b \<notin> known then
        Inl (ParameterError (''dynamic parameter '' @ quoted (db_param b) @
               '' references unknown field '' @ quoted (db_field b)))
      else validate_fields bs known)"

fun dyn_resolve ::
    "ext \<Rightarrow> dynamic_binding list \<Rightarrow> document \<Rightarrow> param_values \<Rightarrow> param_values res" where
  "dyn_resolve E [] doc values = Inr values"
| "dyn_resolve E (b # bs) doc values =
     (case get_path doc (db_field b) of
        None \<Rightarrow> Inl (ParameterError (''dynamic parameter '' @ quoted (db_param b) @ '' field '' @
                  quoted (db_field b) @ '' is absent from the document''))
      | Some raw \<Rightarrow>
          (case bson_to_typed E raw (db_kind b) of
             Inl e \<Rightarrow> Inl (ParameterError (''dynamic parameter '' @ quoted (db_param b) @ '': '' @
                        error_display e))
           | Inr v \<Rightarrow> dyn_resolve E bs doc (bt_insert (db_param b) v values)))"

section \<open>The plan\<close>

datatype rule_exec =
    Static transformer
  | Dynamic string param_values "dynamic_binding list"

record compiled_rule =
  c_field :: string
  c_when :: "condition option"
  c_override :: "param_type option"
  c_exec :: rule_exec

record collection_plan =
  p_when :: "condition option"
  p_query :: "document option"
  p_rules :: "compiled_rule list"

type_synonym transformation_plan = "(string \<times> collection_plan) list"

definition parse_when :: "string option \<Rightarrow> condition option res" where
  "parse_when w =
     (case w of None \<Rightarrow> Inr None | Some e \<Rightarrow> map_sum id Some (parse_condition e))"

lemma parse_when_None: "parse_when None = Inr None"
  by (simp add: parse_when_def)

definition compile_query :: "ext \<Rightarrow> yaml option \<Rightarrow> document option res" where
  "compile_query E q =
     (case q of
        None \<Rightarrow> Inr None
      | Some v \<Rightarrow>
          (case yaml_to_bson E v of
             BDocument d \<Rightarrow> Inr (Some d)
           | _ \<Rightarrow> Inl (TransformError ''collection query must be a document'')))"

definition parse_override :: "string option \<Rightarrow> param_type option res" where
  "parse_override ov =
     (case ov of
        None \<Rightarrow> Inr None
      | Some t \<Rightarrow> map_sum id Some
          (ok_or (TransformError (''unknown type override '' @ quoted t)) (from_name t)))"

lemma parse_override_None: "parse_override None = Inr None"
  by (simp add: parse_override_def)

definition compile_exec ::
    "ext \<Rightarrow> registry \<Rightarrow> hash_engine \<Rightarrow> factory \<Rightarrow> param_values \<Rightarrow> transformer_rule \<Rightarrow> rule_exec res" where
  "compile_exec E reg eng f base r =
     (if r_dynamic r = [] then map_sum id Static (registry_build reg (r_name r) base eng)
      else map_sum id (Dynamic (r_name r) base) (dyn_from_config (r_dynamic r) (f_parameters f)))"

definition compile_rule ::
    "ext \<Rightarrow> registry \<Rightarrow> hash_engine \<Rightarrow> transformer_rule \<Rightarrow> compiled_rule res" where
  "compile_rule E reg eng r =
     (case registry_get reg (r_name r) of
        None \<Rightarrow> Inl (NotFound (''transformer '' @ quoted (r_name r) @ '' not found''))
      | Some f \<Rightarrow>
     (case validate_static E (f_parameters f) (r_params r) of
        Inl e \<Rightarrow> Inl e
      | Inr base \<Rightarrow>
     (case parse_when (r_when r) of
        Inl e \<Rightarrow> Inl e
      | Inr w \<Rightarrow>
     (case parse_override (r_type_override r) of
        Inl e \<Rightarrow> Inl e
      | Inr ov \<Rightarrow>
     (case compile_exec E reg eng f base r of
        Inl e \<Rightarrow> Inl e
      | Inr ex \<Rightarrow>
          Inr \<lparr>c_field = r_field r, c_when = w, c_override = ov, c_exec = ex\<rparr>)))))"

definition compile_collection ::
    "ext \<Rightarrow> registry \<Rightarrow> hash_engine \<Rightarrow> transformation_config \<Rightarrow> collection_plan res" where
  "compile_collection E reg eng c =
     (case parse_when (tc_when c) of
        Inl e \<Rightarrow> Inl e
      | Inr w \<Rightarrow>
     (case compile_query E (tc_query c) of
        Inl e \<Rightarrow> Inl e
      | Inr q \<Rightarrow>
     (case collect_res (compile_rule E reg eng) (tc_transformers c) of
        Inl e \<Rightarrow> Inl e
      | Inr rs \<Rightarrow> Inr \<lparr>p_when = w, p_query = q, p_rules = rs\<rparr>)))"

fun compile_collections ::
    "ext \<Rightarrow> registry \<Rightarrow> hash_engine \<Rightarrow> transformation_config list \<Rightarrow> transformation_plan
       \<Rightarrow> transformation_plan res" where
  "compile_collections E reg eng [] plan = Inr plan"
| "compile_collections E reg eng (c # cs) plan =
     (case compile_collection E reg eng c of
        Inl e \<Rightarrow> Inl e
      | Inr p \<Rightarrow> compile_collections E reg eng cs (bt_insert (tc_collection c) p plan))"

definition compile_with_references ::
    "ext \<Rightarrow> transformation_config list \<Rightarrow> registry \<Rightarrow> hash_engine \<Rightarrow> reference_graph
       \<Rightarrow> transformation_plan res" where
  "compile_with_references E configs reg eng g =
     compile_collections E reg eng (expand_transformation_configs configs g) []"

definition compile ::
    "ext \<Rightarrow> transformation_config list \<Rightarrow> registry \<Rightarrow> hash_engine \<Rightarrow> transformation_plan res" where
  "compile E configs reg eng = compile_with_references E configs reg eng []"

definition transformed_fields :: "transformation_plan \<Rightarrow> string \<Rightarrow> string list" where
  "transformed_fields plan coll =
     (case kv_get coll plan of None \<Rightarrow> [] | Some c \<Rightarrow> map c_field (p_rules c))"

definition matches_query :: "document \<Rightarrow> document \<Rightarrow> bool" where
  "matches_query doc query =
     list_all (\<lambda>(k, v). case get_path doc k of None \<Rightarrow> False | Some actual \<Rightarrow> bson_pe actual v) query"

definition should_include :: "transformation_plan \<Rightarrow> string \<Rightarrow> document \<Rightarrow> bool" where
  "should_include plan coll doc =
     (case Option.bind (kv_get coll plan) p_query of
        None \<Rightarrow> True
      | Some query \<Rightarrow> matches_query doc query)"

section \<open>Running the plan\<close>

text \<open>A gate: no condition is open; a panic of the evaluator unwinds.\<close>

definition gate :: "ext \<Rightarrow> condition option \<Rightarrow> document \<Rightarrow> bool res" where
  "gate E w doc =
     (case w of
        None \<Rightarrow> Inr True
      | Some c \<Rightarrow> (case eval_cond E c doc of
                     None \<Rightarrow> Inl (Panicked ''slice index out of range'')
                   | Some b \<Rightarrow> Inr b))"

definition run_exec ::
    "ext \<Rightarrow> registry \<Rightarrow> hash_engine \<Rightarrow> rule_exec \<Rightarrow> bson \<Rightarrow> document \<Rightarrow> bson res" where
  "run_exec E reg eng ex input doc =
     (case ex of
        Static t \<Rightarrow> t input doc
      | Dynamic name base dynamic \<Rightarrow>
          (case dyn_resolve E dynamic doc base of
             Inl e \<Rightarrow> Inl e
           | Inr merged \<Rightarrow>
               (case registry_build reg name merged eng of
                  Inl e \<Rightarrow> Inl e
                | Inr t \<Rightarrow> t input doc)))"

definition rule_value ::
    "ext \<Rightarrow> registry \<Rightarrow> hash_engine \<Rightarrow> document \<Rightarrow> compiled_rule \<Rightarrow> bson res" where
  "rule_value E reg eng doc r =
     (let value = (case get_path doc (c_field r) of None \<Rightarrow> BNull | Some v \<Rightarrow> v)
      in case (case c_override r of None \<Rightarrow> Inr value | Some t \<Rightarrow> bson_to_typed E value t) of
           Inl e \<Rightarrow> Inl e
         | Inr input \<Rightarrow> run_exec E reg eng (c_exec r) input doc)"

fun transform_rules ::
    "ext \<Rightarrow> registry \<Rightarrow> hash_engine \<Rightarrow> document \<Rightarrow> compiled_rule list \<Rightarrow> document \<Rightarrow> document res" where
  "transform_rules E reg eng doc [] out = Inr out"
| "transform_rules E reg eng doc (r # rs) out =
     (case gate E (c_when r) doc of
        Inl e \<Rightarrow> Inl e
      | Inr False \<Rightarrow> transform_rules E reg eng doc rs out
      | Inr True \<Rightarrow>
          (case rule_value E reg eng doc r of
             Inl e \<Rightarrow> Inl e
           | Inr result \<Rightarrow> transform_rules E reg eng doc rs (set_path out (c_field r) result)))"

definition plan_transform ::
    "ext \<Rightarrow> transformation_plan \<Rightarrow> registry \<Rightarrow> hash_engine \<Rightarrow> string \<Rightarrow> document \<Rightarrow> document res" where
  "plan_transform E plan reg eng coll doc =
     (case kv_get coll plan of
        None \<Rightarrow> Inr doc
      | Some p \<Rightarrow>
          (case gate E (p_when p) doc of
             Inl e \<Rightarrow> Inl e
           | Inr False \<Rightarrow> Inr doc
           | Inr True \<Rightarrow> transform_rules E reg eng doc (p_rules p) doc))"

section \<open>Lemmas\<close>

text \<open>The writes a list of rules asks for on a document, all computed from the document itself.\<close>

fun rule_writes ::
    "ext \<Rightarrow> registry \<Rightarrow> hash_engine \<Rightarrow> document \<Rightarrow> compiled_rule list \<Rightarrow> (string \<times> bson) list res" where
  "rule_writes E reg eng doc [] = Inr []"
| "rule_writes E reg eng doc (r # rs) =
     (case gate E (c_when r) doc of
        Inl e \<Rightarrow> Inl e
      | Inr b \<Rightarrow>
          if b then
            (case rule_value E reg eng doc r of
               Inl e \<Rightarrow> Inl e
             | Inr v \<Rightarrow> map_sum id (Cons (c_field r, v)) (rule_writes E reg eng doc rs))
          else rule_writes E reg eng doc rs)"

definition write_all :: "document \<Rightarrow> (string \<times> bson) list \<Rightarrow> document" where
  "write_all out ws = foldl (\<lambda>d (f, v). set_path d f v) out ws"

lemma write_all_simps [simp]:
  "write_all out [] = out" "write_all out ((f, v) # ws) = write_all (set_path out f v) ws"
  "write_all out (us @ ws) = write_all (write_all out us) ws"
  by (simp_all add: write_all_def)

lemma transform_rules_writes:
  "transform_rules E reg eng doc rs out = map_sum id (write_all out) (rule_writes E reg eng doc rs)"
proof (induction rs arbitrary: out)
  case (Cons r rs)
  show ?case
  proof (cases "gate E (c_when r) doc")
    case (Inr b)
    with Cons show ?thesis
      by (cases b; cases "rule_value E reg eng doc r"; cases "rule_writes E reg eng doc rs") auto
  qed simp
qed simp

lemma rule_writes_append:
  "rule_writes E reg eng doc (rs @ rs') =
     (case rule_writes E reg eng doc rs of
        Inl e \<Rightarrow> Inl e
      | Inr ws \<Rightarrow> map_sum id (append ws) (rule_writes E reg eng doc rs'))"
proof (induction rs)
  case Nil
  show ?case by (cases "rule_writes E reg eng doc rs'") auto
next
  case (Cons r rs)
  show ?case
    by (cases "gate E (c_when r) doc"; cases "rule_value E reg eng doc r";
        cases "rule_writes E reg eng doc rs"; cases "rule_writes E reg eng doc rs'")
       (auto simp: Cons)
qed

lemma rule_writes_fields:
  "rule_writes E reg eng doc rs = Inr ws \<Longrightarrow> (f, v) \<in> set ws \<Longrightarrow> f \<in> set (map c_field rs)"
  by (induction rs arbitrary: ws) (auto simp: map_sum_Inr split: sum.splits if_splits)

lemma write_all_other:
  "\<forall>w \<in> set ws. paths_independent (fst w) q \<Longrightarrow> get_path (write_all out ws) q = get_path out q"
  by (induction ws arbitrary: out) (auto simp: get_path_set_path_other)

lemma write_all_keys: "prefix (map fst out) (map fst (write_all out ws))"
proof (induction ws arbitrary: out)
  case (Cons w ws)
  obtain f v where w: "w = (f, v)" by (cases w)
  have "prefix (map fst out) (map fst (set_path out f v))"
    by (simp add: set_path_keys Let_def)
  also have "prefix \<dots> (map fst (write_all (set_path out f v) ws))" by (rule Cons)
  finally show ?case by (simp add: w)
qed simp

lemma transform_rules_frame:
  assumes "transform_rules E reg eng doc rs out = Inr out'"
    and "\<And>r. r \<in> set rs \<Longrightarrow> paths_independent (c_field r) q"
  shows "get_path out' q = get_path out q"
proof -
  obtain ws where ws: "rule_writes E reg eng doc rs = Inr ws" "out' = write_all out ws"
    using assms(1) by (cases "rule_writes E reg eng doc rs") (auto simp: transform_rules_writes)
  show ?thesis unfolding ws(2)
    by (rule write_all_other) (use rule_writes_fields [OF ws(1)] assms(2) in force)
qed

lemma transform_rules_value:
  assumes "transform_rules E reg eng doc (rs @ r # rs') out = Inr out'"
    and "gate E (c_when r) doc = Inr True"
    and "\<And>r'. r' \<in> set rs' \<Longrightarrow> paths_independent (c_field r') (c_field r)"
  shows "\<exists>v. rule_value E reg eng doc r = Inr v \<and> get_path out' (c_field r) = Some v"
proof -
  obtain us where us: "rule_writes E reg eng doc rs = Inr us"
    using assms(1)
    by (cases "rule_writes E reg eng doc rs") (auto simp: transform_rules_writes rule_writes_append)
  obtain v where v: "rule_value E reg eng doc r = Inr v"
    using assms(1,2) us
    by (cases "rule_value E reg eng doc r") (auto simp: transform_rules_writes rule_writes_append)
  obtain ws where ws: "rule_writes E reg eng doc rs' = Inr ws"
    using assms(1,2) us v
    by (cases "rule_writes E reg eng doc rs'") (auto simp: transform_rules_writes rule_writes_append)
  have out': "out' = write_all (set_path (write_all out us) (c_field r) v) ws"
    using assms(1,2) us v ws by (simp add: transform_rules_writes rule_writes_append)
  have "get_path out' (c_field r) = get_path (set_path (write_all out us) (c_field r) v) (c_field r)"
    unfolding out' by (rule write_all_other) (use rule_writes_fields [OF ws] assms(3) in force)
  then show ?thesis using v by (simp add: get_path_set_path)
qed

text \<open>Where the plan writes nothing: a collection without an entry, or a closed collection gate.\<close>

lemma plan_transform_none: "kv_get coll plan = None \<Longrightarrow> plan_transform E plan reg eng coll doc = Inr doc"
  by (simp add: plan_transform_def)

lemma plan_transform_rules:
  "plan_transform E plan reg eng coll doc = Inr out \<Longrightarrow>
     out = doc \<or> (\<exists>p. kv_get coll plan = Some p \<and> transform_rules E reg eng doc (p_rules p) doc = Inr out)"
  by (auto simp: plan_transform_def split: option.splits sum.splits bool.splits)

text \<open>Compiling a rule without dynamic parameters builds its transformer as the registry would.\<close>

lemma compile_rule_static:
  "compile_rule E reg eng r = Inr \<rho> \<Longrightarrow> r_dynamic r = [] \<Longrightarrow>
     \<exists>t. instantiate_transformer E reg (r_name r) (r_params r) eng = Inr t
       \<and> c_exec \<rho> = Static t \<and> c_field \<rho> = r_field r
       \<and> parse_when (r_when r) = Inr (c_when \<rho>) \<and> parse_override (r_type_override r) = Inr (c_override \<rho>)"
  by (auto simp: compile_rule_def compile_exec_def instantiate_transformer_def registry_build_def
        map_sum_Inr split: option.splits sum.splits)

lemma collect_res_in:
  "collect_res f xs = Inr ys \<Longrightarrow> x \<in> set xs \<Longrightarrow> \<exists>y \<in> set ys. f x = Inr y"
  by (induction xs arbitrary: ys) (auto split: sum.splits)

lemma compile_collection_rule:
  "compile_collection E reg eng c = Inr p \<Longrightarrow> r \<in> set (tc_transformers c) \<Longrightarrow>
     \<exists>\<rho> \<in> set (p_rules p). compile_rule E reg eng r = Inr \<rho>"
  by (auto simp: compile_collection_def split: sum.splits dest: collect_res_in)

lemma compile_collections_other:
  "compile_collections E reg eng cs plan = Inr plan' \<Longrightarrow> coll \<notin> set (map tc_collection cs) \<Longrightarrow>
     kv_get coll plan' = kv_get coll plan"
  by (induction cs arbitrary: plan) (auto simp: bt_get_insert split: sum.splits)

lemma compile_collections_get:
  "compile_collections E reg eng cs plan = Inr plan' \<Longrightarrow> distinct (map tc_collection cs) \<Longrightarrow> c \<in> set cs \<Longrightarrow>
     \<exists>p. compile_collection E reg eng c = Inr p \<and> kv_get (tc_collection c) plan' = Some p"
proof (induction cs arbitrary: plan)
  case (Cons c' cs)
  obtain p where p: "compile_collection E reg eng c' = Inr p"
      "compile_collections E reg eng cs (bt_insert (tc_collection c') p plan) = Inr plan'"
    using Cons.prems(1) by (auto split: sum.splits)
  show ?case
  proof (cases "c = c'")
    case True
    with p(1) compile_collections_other [OF p(2)] Cons.prems(2) show ?thesis
      by (auto simp: bt_get_insert)
  next
    case False
    with Cons p(2) show ?thesis by auto
  qed
qed simp

text \<open>A static rule of some entry of the configuration, as it runs in the compiled plan.\<close>

definition runs_static :: "transformation_plan \<Rightarrow> string \<Rightarrow> compiled_rule \<Rightarrow> transformer \<Rightarrow> bool" where
  "runs_static plan coll \<rho> t =
     (\<exists>p. kv_get coll plan = Some p \<and> \<rho> \<in> set (p_rules p) \<and> c_exec \<rho> = Static t)"

lemma compiled_rule_runs:
  assumes "compile_collections E reg eng cs [] = Inr plan" "distinct (map tc_collection cs)"
    and "c \<in> set cs" "r \<in> set (tc_transformers c)" "r_dynamic r = []"
  shows "\<exists>t \<rho>. instantiate_transformer E reg (r_name r) (r_params r) eng = Inr t
       \<and> runs_static plan (tc_collection c) \<rho> t \<and> c_field \<rho> = r_field r
       \<and> parse_when (r_when r) = Inr (c_when \<rho>) \<and> parse_override (r_type_override r) = Inr (c_override \<rho>)"
proof -
  obtain p where p: "compile_collection E reg eng c = Inr p" "kv_get (tc_collection c) plan = Some p"
    using compile_collections_get [OF assms(1-3)] by blast
  obtain \<rho> where "\<rho> \<in> set (p_rules p)" "compile_rule E reg eng r = Inr \<rho>"
    using compile_collection_rule [OF p(1) assms(4)] by blast
  with compile_rule_static [OF this(2) assms(5)] p(2) show ?thesis
    by (auto simp: runs_static_def)
qed

lemma explicit_of_mem:
  "t \<in> set (explicit_of configs) \<Longrightarrow>
     \<exists>c \<in> set configs. \<exists>r \<in> set (tc_transformers c).
       ft_collection t = tc_collection c \<and> ft_field t = r_field r \<and> ft_name t = r_name r
       \<and> ft_params t = r_params r \<and> ft_apply_for_references t = r_apply_for_references r
       \<and> \<not> ft_inherited t"
  by (force simp: explicit_of_def)

text \<open>A rule of the configuration that is marked, together with an edge that points at its field.\<close>

definition marked_source ::
    "transformation_config list \<Rightarrow> reference_graph \<Rightarrow> transformation_config \<Rightarrow> transformer_rule
       \<Rightarrow> virtual_reference \<Rightarrow> bool" where
  "marked_source configs g c r e =
     (c \<in> set configs \<and> r \<in> set (tc_transformers c) \<and> r_apply_for_references r \<and> e \<in> set g
        \<and> to_field e = r_field r \<and> tc_collection c \<in> set (target_collections e))"

lemma inherited_transform_exists:
  assumes src: "marked_source configs g c r e"
    and free: "\<not> has_explicit (explicit_of configs) (from_collection e) (from_field e)"
  shows "\<exists>t c2 r2 e2. t \<in> set (expand_inherited (explicit_of configs) g) \<and> ft_inherited t
        \<and> ft_collection t = from_collection e \<and> ft_field t = from_field e
        \<and> marked_source configs g c2 r2 e2
        \<and> from_collection e2 = from_collection e \<and> from_field e2 = from_field e
        \<and> ft_name t = r_name r2 \<and> ft_params t = r_params r2"
proof -
  let ?ex = "explicit_of configs"
  obtain s where s: "s \<in> set ?ex" "ft_apply_for_references s" "points_here s e"
    using src by (force simp: marked_source_def explicit_of_def points_here_def list_ex_iff)
  have e: "e \<in> set g" using src by (simp add: marked_source_def)
  obtain t where t: "t \<in> set (expand_inherited ?ex g)" "ft_collection t = from_collection e"
      "ft_field t = from_field e"
    using expand_inherited_served [OF s(1,2) e s(3)] by (auto simp: served_def)
  have "t \<notin> set ?ex" using t(2,3) free by (auto simp: has_explicit_def list_ex_iff)
  then have "inherited_from_marked ?ex g t"
    using t(1) expand_inherited_inv [of ?ex g] by (auto simp: expansion_inv_def)
  then obtain s2 e2 where s2: "s2 \<in> set ?ex" "e2 \<in> set g" "ft_apply_for_references s2"
      "points_here s2 e2" "t = inherit_from s2 e2"
    by (auto simp: inherited_from_marked_def)
  obtain c2 r2 where "c2 \<in> set configs" "r2 \<in> set (tc_transformers c2)"
      "ft_collection s2 = tc_collection c2" "ft_field s2 = r_field r2" "ft_name s2 = r_name r2"
      "ft_params s2 = r_params r2" "ft_apply_for_references s2 = r_apply_for_references r2"
    using explicit_of_mem [OF s2(1)] by blast
  then have "marked_source configs g c2 r2 e2" "ft_name t = r_name r2" "ft_params t = r_params r2"
    using s2 by (auto simp: marked_source_def points_here_def list_ex_iff)
  then show ?thesis using t s2(5) by (intro exI [of _ t] exI [of _ c2] exI [of _ r2] exI [of _ e2]) auto
qed

text \<open>A transformation only writes to the configured fields.\<close>

lemma plan_transform_frame:
  assumes "plan_transform E plan reg eng coll doc = Inr out"
    and "\<And>f. f \<in> set (transformed_fields plan coll) \<Longrightarrow> paths_independent f q"
  shows "get_path out q = get_path doc q \<and> prefix (map fst doc) (map fst out)"
  using plan_transform_rules [OF assms(1)]
proof
  assume "\<exists>p. kv_get coll plan = Some p \<and> transform_rules E reg eng doc (p_rules p) doc = Inr out"
  then obtain p where p: "kv_get coll plan = Some p"
      "transform_rules E reg eng doc (p_rules p) doc = Inr out" by blast
  have "get_path out q = get_path doc q"
    by (rule transform_rules_frame [OF p(2)]) (use assms(2) p(1) in \<open>auto simp: transformed_fields_def\<close>)
  moreover have "prefix (map fst doc) (map fst out)"
    using p(2) write_all_keys
    by (cases "rule_writes E reg eng doc (p_rules p)") (auto simp: transform_rules_writes)
  ultimately show ?thesis by simp
qed simp

section \<open>Properties\<close>

text \<open>
  C18. Transforming a document changes nothing but the configured fields: a path that is
  independent of every transformed field keeps its value, and the top-level fields of the
  document stay, in their order, in front of any field the rules add.
\<close>

theorem transform_frame:
  assumes "plan_transform E plan reg eng coll doc = Inr out"
    and "\<And>f. f \<in> set (transformed_fields plan coll) \<Longrightarrow> paths_independent f q"
  shows "get_path out q = get_path doc q \<and> prefix (map fst doc) (map fst out)"
  using plan_transform_frame [OF assms] .

definition sample_engine :: hash_engine where
  "sample_engine = \<lparr>salt = string_bytes ''salt''\<rparr>"

definition sample_plan :: transformation_plan where
  "sample_plan =
     [(''users'', \<lparr>p_when = None, p_query = None, p_rules =
        [\<lparr>c_field = ''card.number'', c_when = None, c_override = Some PString,
          c_exec = Static (masking_transform ''*'')\<rparr>,
         \<lparr>c_field = ''email'', c_when = Some \<lparr>cond_text = ''active''\<rparr>, c_override = None,
          c_exec = Dynamic ''replace'' [(''value'', BString ''x'')] []\<rparr>]\<rparr>)]"

definition sample_registry :: registry where
  "sample_registry = [(''replace'', replace_factory sample_ext)]"

definition sample_doc :: document where
  "sample_doc = [(''email'', BString ''a@b''), (''card'', BDocument [(''number'', BInt32 42)]),
                 (''age'', BInt32 7), (''active'', BBoolean True)]"

lemma sample_transform:
  "plan_transform sample_ext sample_plan sample_registry sample_engine ''users'' sample_doc =
     Inr [(''email'', BString ''x''), (''card'', BDocument [(''number'', BString ''*'')]),
          (''age'', BInt32 7), (''active'', BBoolean True)]"
  by code_simp

lemma sample_fields: "transformed_fields sample_plan ''users'' = [''card.number'', ''email'']"
  by code_simp

theorem transform_frame_witness:
  "\<exists>out. plan_transform sample_ext sample_plan sample_registry sample_engine ''users''
           sample_doc = Inr out
     \<and> get_path out ''age'' = get_path sample_doc ''age'' \<and> prefix (map fst sample_doc) (map fst out)"
proof -
  have "paths_independent ''card.number'' ''age'' \<and> paths_independent ''email'' ''age''"
    unfolding paths_independent_def by code_simp
  then show ?thesis
    using transform_frame [OF sample_transform, of "''age''"] sample_transform
    by (auto simp: sample_fields)
qed

text \<open>
  C29. When a rule's gate is open on a document, the transformed document holds at the rule's field
  the transformer's result on the value that field had in the original document, whatever the
  rules before it wrote, as long as no later rule writes to an overlapping path.
\<close>

theorem transform_value:
  assumes "kv_get coll plan = Some p" "gate E (p_when p) doc = Inr True"
    and "p_rules p = rs @ r # rs'" "gate E (c_when r) doc = Inr True"
    and "\<And>r'. r' \<in> set rs' \<Longrightarrow> paths_independent (c_field r') (c_field r)"
    and "plan_transform E plan reg eng coll doc = Inr out"
  shows "\<exists>v. rule_value E reg eng doc r = Inr v \<and> get_path out (c_field r) = Some v"
proof (rule transform_rules_value)
  show "transform_rules E reg eng doc (rs @ r # rs') doc = Inr out"
    using assms(1-3,6) by (simp add: plan_transform_def)
qed (use assms in auto)

theorem transform_value_witness:
  "\<exists>out v. plan_transform sample_ext sample_plan sample_registry sample_engine ''users''
           sample_doc = Inr out
     \<and> rule_value sample_ext sample_registry sample_engine sample_doc
         (hd (p_rules (snd (hd sample_plan)))) = Inr v
     \<and> get_path out ''card.number'' = Some v"
proof -
  let ?p = "snd (hd sample_plan)"
  have "kv_get ''users'' sample_plan = Some ?p" by (simp add: sample_plan_def)
  moreover have "gate sample_ext (p_when ?p) sample_doc = Inr True"
    by (simp add: sample_plan_def gate_def)
  moreover have "p_rules ?p = [] @ hd (p_rules ?p) # tl (p_rules ?p)" by (simp add: sample_plan_def)
  moreover have "gate sample_ext (c_when (hd (p_rules ?p))) sample_doc = Inr True"
    by (simp add: sample_plan_def gate_def)
  moreover have "paths_independent (c_field r') (c_field (hd (p_rules ?p)))"
    if "r' \<in> set (tl (p_rules ?p))" for r'
  proof -
    have "paths_independent ''email'' ''card.number''"
      unfolding paths_independent_def by code_simp
    then show ?thesis using that by (simp add: sample_plan_def)
  qed
  ultimately show ?thesis
    using transform_value [OF _ _ _ _ _ sample_transform, of ?p "[]" "hd (p_rules ?p)" "tl (p_rules ?p)"]
      sample_transform
    by (auto simp: sample_plan_def)
qed

text \<open>
  C16. Both sides of a reference are transformed by the identical transformer: when a rule marked
  \<open>apply_for_references\<close> compiles to a transformer on its field, every field the reference graph
  declares to reference that field, and that has no rule of its own, is transformed in the
  compiled plan by the same transformer, without a gate. Each collection is configured once, and
  the sources of one referencing field agree on their transformer.
\<close>

theorem references_same_transformer:
  assumes "compile_with_references E configs reg eng g = Inr plan"
    and "distinct (map tc_collection configs)"
    and "marked_source configs g c r e" "r_dynamic r = []"
    and "\<not> has_explicit (explicit_of configs) (from_collection e) (from_field e)"
    and "\<And>c2 r2 e2. marked_source configs g c2 r2 e2 \<Longrightarrow> from_collection e2 = from_collection e \<Longrightarrow>
        from_field e2 = from_field e \<Longrightarrow> r_name r2 = r_name r \<and> r_params r2 = r_params r"
  shows "\<exists>t \<rho> \<rho>'. runs_static plan (tc_collection c) \<rho> t \<and> c_field \<rho> = r_field r
     \<and> runs_static plan (from_collection e) \<rho>' t \<and> c_field \<rho>' = from_field e
     \<and> c_when \<rho>' = None \<and> c_override \<rho>' = None"
proof -
  let ?ts = "filter ft_inherited (expand_inherited (explicit_of configs) g)"
  let ?out = "expand_transformation_configs configs g"
  note out_def = expand_transformation_configs_def [of configs g]
  have comp: "compile_collections E reg eng ?out [] = Inr plan"
    using assms(1) by (simp add: compile_with_references_def)
  have dist: "distinct (map tc_collection ?out)"
    using add_rules_distinct [OF assms(2)] by (simp add: out_def)
  obtain i where i: "i < length configs" "configs ! i = c"
    using assms(3) by (auto simp: marked_source_def in_set_conv_nth)
  have ext: "extends c (?out ! i)" "?out ! i \<in> set ?out"
    using add_rules_extends [OF i(1), of ?ts] i(2) by (auto simp: out_def)
  then have r: "tc_collection (?out ! i) = tc_collection c" "r \<in> set (tc_transformers (?out ! i))"
    using assms(3) set_mono_prefix by (fastforce simp: extends_def marked_source_def)+
  obtain t c2 r2 e2 where t: "t \<in> set ?ts" "ft_collection t = from_collection e"
      "ft_field t = from_field e" "ft_name t = r_name r2" "ft_params t = r_params r2"
      and s2: "marked_source configs g c2 r2 e2" "from_collection e2 = from_collection e"
      "from_field e2 = from_field e"
    using inherited_transform_exists [OF assms(3,5)] by auto
  obtain c3 where c3: "c3 \<in> set ?out" "tc_collection c3 = from_collection e"
      "inherited_rule t \<in> set (tc_transformers c3)"
    using add_rules_has [OF t(1), of configs] t(2) by (auto simp: out_def)
  have same: "r_name (inherited_rule t) = r_name r" "r_params (inherited_rule t) = r_params r"
    using assms(6) [OF s2] t(4,5) by (simp_all add: inherited_rule_def)
  have plain: "r_dynamic (inherited_rule t) = []" "r_field (inherited_rule t) = from_field e"
      "r_when (inherited_rule t) = None" "r_type_override (inherited_rule t) = None"
    using t(3) by (simp_all add: inherited_rule_def)
  obtain t1 \<rho> where 1: "instantiate_transformer E reg (r_name r) (r_params r) eng = Inr t1"
      "runs_static plan (tc_collection c) \<rho> t1" "c_field \<rho> = r_field r"
    using compiled_rule_runs [OF comp dist ext(2) r(2) assms(4)] by (auto simp: r(1))
  obtain t2 \<rho>' where 2: "instantiate_transformer E reg (r_name r) (r_params r) eng = Inr t2"
      "runs_static plan (from_collection e) \<rho>' t2" "c_field \<rho>' = from_field e"
      "c_when \<rho>' = None" "c_override \<rho>' = None"
    using compiled_rule_runs [OF comp dist c3(1,3) plain(1)]
    by (auto simp: same plain c3(2) parse_when_None parse_override_None)
  from 1(1) 2(1) have "t2 = t1" by simp
  with 1 2 show ?thesis by (intro exI [of _ t1] exI [of _ \<rho>] exI [of _ \<rho>']) simp
qed

definition sample_configs :: "transformation_config list" where
  "sample_configs =
     [\<lparr>tc_collection = ''users'', tc_when = None, tc_query = None,
       tc_transformers = [\<lparr>r_field = ''_id'', r_name = ''replace'',
         r_params = [(''value'', YString ''x'')], r_when = None, r_dynamic = [],
         r_apply_for_references = True, r_type_override = None\<rparr>]\<rparr>]"

definition sample_edge :: virtual_reference where
  "sample_edge = \<lparr>from_collection = ''orders'', from_field = ''user_id'', to_field = ''_id'',
     not_null = False, target = Fixed ''users''\<rparr>"

theorem references_same_transformer_witness:
  "\<exists>plan t \<rho> \<rho>'.
     compile_with_references sample_ext sample_configs sample_registry sample_engine [sample_edge] = Inr plan
     \<and> runs_static plan ''users'' \<rho> t \<and> c_field \<rho> = ''_id''
     \<and> runs_static plan ''orders'' \<rho>' t \<and> c_field \<rho>' = ''user_id''
     \<and> c_when \<rho>' = None \<and> c_override \<rho>' = None"
proof -
  let ?c = "hd sample_configs"
  let ?r = "hd (tc_transformers ?c)"
  have "\<not> isl (compile_with_references sample_ext sample_configs sample_registry sample_engine [sample_edge])"
    by code_simp
  then obtain plan where plan: "compile_with_references sample_ext sample_configs sample_registry
      sample_engine [sample_edge] = Inr plan"
    by (cases "compile_with_references sample_ext sample_configs sample_registry sample_engine [sample_edge]")
       auto
  have "distinct (map tc_collection sample_configs)" by (simp add: sample_configs_def)
  moreover have src: "marked_source sample_configs [sample_edge] ?c ?r sample_edge" "r_dynamic ?r = []"
    by (simp_all add: marked_source_def sample_configs_def sample_edge_def target_collections_def)
  moreover have "\<not> has_explicit (explicit_of sample_configs) (from_collection sample_edge) (from_field sample_edge)"
    by code_simp
  moreover have "r_name r2 = r_name ?r \<and> r_params r2 = r_params ?r"
    if "marked_source sample_configs [sample_edge] c2 r2 e2" for c2 r2 e2
    using that by (auto simp: marked_source_def sample_configs_def)
  ultimately show ?thesis
    using references_same_transformer [OF plan, of ?c ?r sample_edge] plan
    by (auto simp: sample_configs_def sample_edge_def)
qed

end
