(* ===== verification/WorkerPool.thy ===== *)
theory WorkerPool
  imports Prelude
begin

text \<open>
  The worker threads of a parallel dump and a parallel restore (\<open>dump_items_parallel\<close> in
  src/dump/create.rs, \<open>restore_items_parallel\<close> in src/restore/database.rs): both run the same loop
  over a shared cursor \<open>next\<close> and a shared flag \<open>stop\<close>.

  A step moves one worker through one access to shared memory. The flag is read with relaxed
  ordering, so a worker may go on although the flag is already set; \<open>fetch_add\<close> is atomic. What a
  job returns is any result the relation \<open>can\<close> allows for its item, since jobs share storage and
  database; \<open>halts\<close> says which results set the flag.
\<close>

datatype 'r worker =
    Checking
  | Claiming
  | Working nat
  | Reporting nat 'r
  | Exited

record 'r pool =
  p_next :: nat
  p_stop :: bool
  p_workers :: "'r worker list"
  p_results :: "'r option list"

definition pool_start :: "nat \<Rightarrow> nat \<Rightarrow> 'r pool" where
  "pool_start jobs n =
     \<lparr>p_next = 0, p_stop = False, p_workers = replicate (min jobs n) Checking,
      p_results = replicate n None\<rparr>"

inductive pool_step ::
    "(nat \<Rightarrow> 'r \<Rightarrow> bool) \<Rightarrow> ('r \<Rightarrow> bool) \<Rightarrow> nat \<Rightarrow> 'r pool \<Rightarrow> 'r pool \<Rightarrow> bool"
  for can :: "nat \<Rightarrow> 'r \<Rightarrow> bool" and halts :: "'r \<Rightarrow> bool" and n :: nat where
  see_stop: "k < length (p_workers s) \<Longrightarrow> p_workers s ! k = Checking \<Longrightarrow> p_stop s \<Longrightarrow>
     pool_step can halts n s (s\<lparr>p_workers := (p_workers s)[k := Exited]\<rparr>)"
| see_go: "k < length (p_workers s) \<Longrightarrow> p_workers s ! k = Checking \<Longrightarrow>
     pool_step can halts n s (s\<lparr>p_workers := (p_workers s)[k := Claiming]\<rparr>)"
| claim: "k < length (p_workers s) \<Longrightarrow> p_workers s ! k = Claiming \<Longrightarrow> p_next s < n \<Longrightarrow>
     pool_step can halts n s
       (s\<lparr>p_next := p_next s + 1, p_workers := (p_workers s)[k := Working (p_next s)]\<rparr>)"
| exhausted: "k < length (p_workers s) \<Longrightarrow> p_workers s ! k = Claiming \<Longrightarrow> n \<le> p_next s \<Longrightarrow>
     pool_step can halts n s
       (s\<lparr>p_next := p_next s + 1, p_workers := (p_workers s)[k := Exited]\<rparr>)"
| finish: "k < length (p_workers s) \<Longrightarrow> p_workers s ! k = Working i \<Longrightarrow> can i r \<Longrightarrow>
     pool_step can halts n s
       (s\<lparr>p_stop := p_stop s \<or> halts r, p_workers := (p_workers s)[k := Reporting i r]\<rparr>)"
| report: "k < length (p_workers s) \<Longrightarrow> p_workers s ! k = Reporting i r \<Longrightarrow>
     pool_step can halts n s
       (s\<lparr>p_results := (p_results s)[i := Some r], p_workers := (p_workers s)[k := Checking]\<rparr>)"

definition pool_done :: "'r pool \<Rightarrow> bool" where
  "pool_done s = list_all (\<lambda>w. case w of Exited \<Rightarrow> True | _ \<Rightarrow> False) (p_workers s)"

inductive pool_run ::
    "(nat \<Rightarrow> 'r \<Rightarrow> bool) \<Rightarrow> ('r \<Rightarrow> bool) \<Rightarrow> nat \<Rightarrow> nat \<Rightarrow> 'r pool \<Rightarrow> bool"
  for can :: "nat \<Rightarrow> 'r \<Rightarrow> bool" and halts :: "'r \<Rightarrow> bool" and jobs :: nat and n :: nat where
  run_start: "pool_run can halts jobs n (pool_start jobs n)"
| run_step: "pool_run can halts jobs n s \<Longrightarrow> pool_step can halts n s s' \<Longrightarrow> pool_run can halts jobs n s'"

text \<open>The results a finished pool may leave.\<close>

definition pool_outcome ::
    "(nat \<Rightarrow> 'r \<Rightarrow> bool) \<Rightarrow> ('r \<Rightarrow> bool) \<Rightarrow> nat \<Rightarrow> nat \<Rightarrow> 'r option list \<Rightarrow> bool" where
  "pool_outcome can halts jobs n results =
     (\<exists>s. pool_run can halts jobs n s \<and> pool_done s \<and> p_results s = results)"

inductive_cases pool_stepE: "pool_step can halts n s s'"

section \<open>The invariant\<close>

text \<open>The items a worker holds.\<close>

fun holds :: "'r worker \<Rightarrow> nat option" where
  "holds (Working i) = Some i"
| "holds (Reporting i r) = Some i"
| "holds _ = None"

definition holder :: "'r pool \<Rightarrow> nat \<Rightarrow> nat \<Rightarrow> bool" where
  "holder s k i = (k < length (p_workers s) \<and> holds (p_workers s ! k) = Some i)"

text \<open>A result that halts is stored, or about to be stored.\<close>

definition halting_seen :: "('r \<Rightarrow> bool) \<Rightarrow> 'r pool \<Rightarrow> bool" where
  "halting_seen halts s =
     ((\<exists>i < length (p_results s). \<exists>r. p_results s ! i = Some r \<and> halts r)
      \<or> (\<exists>k < length (p_workers s). \<exists>i r. p_workers s ! k = Reporting i r \<and> halts r))"

text \<open>
  Items below the cursor are held by exactly one worker or have their result, the others are
  untouched; results are possible ones; the flag has a reason; a worker only leaves when the flag
  is set or the items are exhausted.
\<close>

definition items_ok :: "nat \<Rightarrow> 'r pool \<Rightarrow> bool" where
  "items_ok n s =
     (length (p_results s) = n
      \<and> (\<forall>k i. holder s k i \<longrightarrow> i < n \<and> i < p_next s \<and> p_results s ! i = None)
      \<and> (\<forall>k k' i. holder s k i \<longrightarrow> holder s k' i \<longrightarrow> k = k')
      \<and> (\<forall>i < n. i < p_next s \<longrightarrow> p_results s ! i = None \<longrightarrow> (\<exists>k. holder s k i))
      \<and> (\<forall>i < n. p_next s \<le> i \<longrightarrow> p_results s ! i = None))"

definition results_ok :: "(nat \<Rightarrow> 'r \<Rightarrow> bool) \<Rightarrow> 'r pool \<Rightarrow> bool" where
  "results_ok can s =
     ((\<forall>i < length (p_results s). \<forall>r. p_results s ! i = Some r \<longrightarrow> can i r)
      \<and> (\<forall>k < length (p_workers s). \<forall>i r. p_workers s ! k = Reporting i r \<longrightarrow> can i r))"

definition exits_ok :: "nat \<Rightarrow> 'r pool \<Rightarrow> bool" where
  "exits_ok n s =
     (\<forall>k < length (p_workers s). p_workers s ! k = Exited \<longrightarrow> p_stop s \<or> n \<le> p_next s)"

lemma holder_update:
  "k < length (p_workers s) \<Longrightarrow> p_workers s' = (p_workers s)[k := w] \<Longrightarrow>
     holder s' k' i \<longleftrightarrow> (if k' = k then holds w = Some i else holder s k' i)"
  by (auto simp: holder_def)

lemma items_ok_cong:
  assumes "items_ok n s" "\<And>k i. holder s' k i \<longleftrightarrow> holder s k i" "p_results s' = p_results s"
    and "p_next s' = p_next s \<or> n \<le> p_next s \<and> p_next s \<le> p_next s'"
  shows "items_ok n s'"
  using assms by (fastforce simp: items_ok_def)

lemma items_ok_claim:
  assumes "k < length (p_workers s)" "p_workers s ! k = Claiming" "p_next s < n" "items_ok n s"
  shows "items_ok n (s\<lparr>p_next := p_next s + 1, p_workers := (p_workers s)[k := Working (p_next s)]\<rparr>)"
    (is "items_ok n ?s")
proof -
  have h: "holder ?s k' i \<longleftrightarrow> (if k' = k then i = p_next s else holder s k' i)" for k' i
    by (subst holder_update [OF assms(1)]) auto
  have other: "\<not> holder s k i" "holder s k' i \<Longrightarrow> i < p_next s" for k' i
    using assms(2,4) by (auto simp: holder_def items_ok_def)
  have "\<exists>k. holder ?s k j" if j: "j < n" "j < p_next ?s" "p_results ?s ! j = None" for j
  proof (cases "j = p_next s")
    case True
    then show ?thesis by (metis h)
  next
    case False
    with j obtain k' where "holder s k' j" using assms(4) by (auto simp: items_ok_def)
    with other(1) show ?thesis by (metis h)
  qed
  moreover have "k1 = k2" if "holder ?s k1 j" "holder ?s k2 j" for k1 k2 j
    using that assms(4) other(2) unfolding h items_ok_def by (metis less_irrefl)
  moreover have "j < n \<and> j < p_next ?s \<and> p_results ?s ! j = None" if "holder ?s k' j" for k' j
    using that assms(3,4) unfolding h items_ok_def by (auto split: if_splits intro: less_SucI)
  moreover have "p_results ?s ! j = None" if "j < n" "p_next ?s \<le> j" for j
    using that assms(4) by (simp add: items_ok_def)
  moreover have "length (p_results ?s) = n" using assms(4) by (simp add: items_ok_def)
  ultimately show ?thesis unfolding items_ok_def by blast
qed

lemma items_ok_report:
  assumes "k < length (p_workers s)" "p_workers s ! k = Reporting i r" "items_ok n s"
  shows "items_ok n (s\<lparr>p_results := (p_results s)[i := Some r], p_workers := (p_workers s)[k := Checking]\<rparr>)"
    (is "items_ok n ?s")
proof -
  have h: "holder ?s k' j \<longleftrightarrow> k' \<noteq> k \<and> holder s k' j" for k' j
    by (subst holder_update [OF assms(1)]) auto
  have k: "holder s k i" using assms(1,2) by (simp add: holder_def)
  then have i: "i < n" "i < p_next s" "length (p_results s) = n" using assms(3) by (auto simp: items_ok_def)
  have mine: "j = i" if "holder s k j" for j using that k by (simp add: holder_def)
  have "\<exists>k. holder ?s k j" if "j < n" "j < p_next ?s" "p_results ?s ! j = None" for j
  proof -
    from that i have "j \<noteq> i" by auto
    with that assms(3) mine show ?thesis unfolding h items_ok_def by fastforce
  qed
  moreover have "k1 = k2" if "holder ?s k1 j" "holder ?s k2 j" for k1 k2 j
    using that assms(3) unfolding h items_ok_def by blast
  moreover have "j < n \<and> j < p_next ?s \<and> p_results ?s ! j = None" if "holder ?s k' j" for k' j
  proof -
    from that k assms(3) have "j \<noteq> i" unfolding h items_ok_def by blast
    with that assms(3) show ?thesis unfolding h items_ok_def by simp blast
  qed
  moreover have "p_results ?s ! j = None" if "j < n" "p_next ?s \<le> j" for j
    using that assms(3) i(2) by (auto simp: items_ok_def)
  ultimately show ?thesis using i(3) unfolding items_ok_def by simp
qed

lemma items_ok_step: "pool_step can halts n s s' \<Longrightarrow> items_ok n s \<Longrightarrow> items_ok n s'"
proof (induction rule: pool_step.induct)
  case (claim k s)
  then show ?case by (rule items_ok_claim)
next
  case (report k s i r)
  then show ?case by (rule items_ok_report)
qed (elim items_ok_cong; auto simp: holder_def nth_list_update split: if_splits)+

lemma results_ok_step: "pool_step can halts n s s' \<Longrightarrow> items_ok n s \<Longrightarrow> results_ok can s \<Longrightarrow> results_ok can s'"
proof (induction rule: pool_step.induct)
  case (report k s i r)
  then have c: "can i r" by (auto simp: results_ok_def)
  have "holder s k i" using report(1,2) by (simp add: holder_def)
  then have "i < length (p_results s)" using report(3) by (auto simp: items_ok_def)
  with c report show ?case by (auto simp: results_ok_def nth_list_update split: if_splits)
qed (auto simp: results_ok_def nth_list_update split: if_splits)

lemma exits_ok_step: "pool_step can halts n s s' \<Longrightarrow> exits_ok n s \<Longrightarrow> exits_ok n s'"
  by (induction rule: pool_step.induct)
     (auto simp: exits_ok_def nth_list_update split: if_splits)

lemma halting_seen_stored:
  "i < length (p_results s) \<Longrightarrow> p_results s ! i = Some r \<Longrightarrow> halts r \<Longrightarrow> halting_seen halts s"
  by (auto simp: halting_seen_def)

lemma halting_seen_worker:
  "k < length (p_workers s) \<Longrightarrow> p_workers s ! k = Reporting i r \<Longrightarrow> halts r \<Longrightarrow> halting_seen halts s"
  by (auto simp: halting_seen_def)

lemma halting_seen_keep:
  assumes "halting_seen halts s" "k < length (p_workers s)" "p_workers s' = (p_workers s)[k := w]"
    and "\<And>i r. p_workers s ! k = Reporting i r \<Longrightarrow> \<not> halts r"
    and "\<And>i r. i < length (p_results s) \<Longrightarrow> p_results s ! i = Some r \<Longrightarrow>
      i < length (p_results s') \<and> p_results s' ! i = Some r"
  shows "halting_seen halts s'"
  using assms(1) unfolding halting_seen_def
proof
  assume "\<exists>i<length (p_results s). \<exists>r. p_results s ! i = Some r \<and> halts r"
  with assms(5) show "(\<exists>i<length (p_results s'). \<exists>r. p_results s' ! i = Some r \<and> halts r)
      \<or> (\<exists>k<length (p_workers s'). \<exists>i r. p_workers s' ! k = Reporting i r \<and> halts r)" by blast
next
  assume "\<exists>k<length (p_workers s). \<exists>i r. p_workers s ! k = Reporting i r \<and> halts r"
  then obtain k' i r where k': "k' < length (p_workers s)" "p_workers s ! k' = Reporting i r" "halts r"
    by blast
  with assms(4) have "k' \<noteq> k" by auto
  with k' assms(3) have "k' < length (p_workers s') \<and> p_workers s' ! k' = Reporting i r" by simp
  with k'(3) show "(\<exists>i<length (p_results s'). \<exists>r. p_results s' ! i = Some r \<and> halts r)
      \<or> (\<exists>k<length (p_workers s'). \<exists>i r. p_workers s' ! k = Reporting i r \<and> halts r)" by blast
qed

lemma halting_seen_step:
  assumes "pool_step can halts n s s'" "items_ok n s" "p_stop s \<Longrightarrow> halting_seen halts s" "p_stop s'"
  shows "halting_seen halts s'"
  using assms
proof (induction rule: pool_step.induct)
  case (finish k s i r)
  show ?case
  proof (cases "halts r")
    case True
    then show ?thesis using finish(1) by (intro halting_seen_worker [of k _ i r]) auto
  next
    case False
    then have "halting_seen halts s" using finish by simp
    then show ?thesis by (rule halting_seen_keep [OF _ finish(1)]) (use finish(2) in auto)
  qed
next
  case (report k s i r)
  have "holder s k i" using report(1,2) by (simp add: holder_def)
  then have i: "i < length (p_results s)" "p_results s ! i = None"
    using report(3) by (auto simp: items_ok_def)
  have seen: "halting_seen halts s" using report by simp
  show ?case
  proof (cases "halts r")
    case True
    then show ?thesis using i by (intro halting_seen_stored [of i _ r]) auto
  next
    case False
    show ?thesis
      by (rule halting_seen_keep [OF seen report(1)]) (use False report(2) i in \<open>auto simp: nth_list_update\<close>)
  qed
next
  case (see_stop k s)
  then have "halting_seen halts s" by simp
  then show ?case by (rule halting_seen_keep [OF _ see_stop(1)]) (use see_stop(2) in auto)
next
  case (see_go k s)
  then have "halting_seen halts s" by simp
  then show ?case by (rule halting_seen_keep [OF _ see_go(1)]) (use see_go(2) in auto)
next
  case (claim k s)
  then have "halting_seen halts s" by simp
  then show ?case by (rule halting_seen_keep [OF _ claim(1)]) (use claim(2) in auto)
next
  case (exhausted k s)
  then have "halting_seen halts s" by simp
  then show ?case by (rule halting_seen_keep [OF _ exhausted(1)]) (use exhausted(2) in auto)
qed

definition pool_inv :: "(nat \<Rightarrow> 'r \<Rightarrow> bool) \<Rightarrow> ('r \<Rightarrow> bool) \<Rightarrow> nat \<Rightarrow> nat \<Rightarrow> 'r pool \<Rightarrow> bool" where
  "pool_inv can halts jobs n s =
     (items_ok n s \<and> results_ok can s \<and> exits_ok n s \<and> (p_stop s \<longrightarrow> halting_seen halts s)
        \<and> length (p_workers s) = min jobs n)"

lemma step_workers: "pool_step can halts n s s' \<Longrightarrow> length (p_workers s') = length (p_workers s)"
  by (induction rule: pool_step.induct) auto

lemma pool_run_inv: "pool_run can halts jobs n s \<Longrightarrow> pool_inv can halts jobs n s"
proof (induction rule: pool_run.induct)
  case run_start
  show ?case
    by (auto simp: pool_inv_def pool_start_def items_ok_def results_ok_def exits_ok_def holder_def)
next
  case (run_step s s')
  then show ?case
    unfolding pool_inv_def
    using items_ok_step results_ok_step exits_ok_step halting_seen_step step_workers by metis
qed

text \<open>What a finished pool leaves: every stored result is possible, and an empty slot means that a
  halting result is stored.\<close>

lemma pool_outcome_results:
  assumes "pool_outcome can halts jobs n results" "0 < jobs"
  shows "length results = n \<and> (\<forall>i < n. \<forall>r. results ! i = Some r \<longrightarrow> can i r)
    \<and> ((\<exists>i < n. results ! i = None) \<longrightarrow> (\<exists>i < n. \<exists>r. results ! i = Some r \<and> halts r))"
proof -
  obtain s where s: "pool_run can halts jobs n s" "pool_done s" "p_results s = results"
    using assms(1) by (auto simp: pool_outcome_def)
  note inv = pool_run_inv [OF s(1), unfolded pool_inv_def]
  have len: "length results = n" using inv s(3) by (auto simp: items_ok_def)
  have exited: "p_workers s ! k = Exited" if "k < length (p_workers s)" for k
  proof -
    have "p_workers s ! k \<in> set (p_workers s)" using that by simp
    then have "case p_workers s ! k of Exited \<Rightarrow> True | _ \<Rightarrow> False"
      using s(2) unfolding pool_done_def list_all_iff by blast
    then show ?thesis by (simp split: worker.splits)
  qed
  have none: "\<not> holder s k i" for k i using exited by (auto simp: holder_def)
  have "\<exists>i < n. \<exists>r. results ! i = Some r \<and> halts r" if i: "i < n" "results ! i = None" for i
  proof -
    have "n > 0" using i by simp
    then have w: "0 < length (p_workers s)" using inv assms(2) by simp
    have "\<not> n \<le> p_next s"
    proof
      assume "n \<le> p_next s"
      then have "\<exists>k. holder s k i" using inv i s(3) by (auto simp: items_ok_def)
      with none show False by blast
    qed
    then have "p_stop s" using inv w exited [OF w] by (auto simp: exits_ok_def)
    then have "halting_seen halts s" using inv by simp
    then show ?thesis using exited s(3) len by (auto simp: halting_seen_def)
  qed
  moreover have "\<forall>i < n. \<forall>r. results ! i = Some r \<longrightarrow> can i r"
    using inv s(3) len by (auto simp: results_ok_def)
  ultimately show ?thesis using len by blast
qed

section \<open>Progress\<close>

fun weight :: "'r worker \<Rightarrow> nat" where
  "weight (Working i) = 4"
| "weight (Reporting i r) = 3"
| "weight Checking = 2"
| "weight Claiming = 1"
| "weight Exited = 0"

definition pool_measure :: "nat \<Rightarrow> 'r pool \<Rightarrow> nat" where
  "pool_measure n s = 5 * (n - p_next s) + sum_list (map weight (p_workers s))"

lemma weight_update:
  "k < length ws \<Longrightarrow>
     sum_list (map weight (ws[k := w])) + weight (ws ! k) = sum_list (map weight ws) + weight w"
proof (induction ws arbitrary: k)
  case (Cons v ws)
  then show ?case by (cases k) auto
qed simp

lemma pool_step_decreases: "pool_step can halts n s s' \<Longrightarrow> pool_measure n s' < pool_measure n s"
proof (induction rule: pool_step.induct)
  case (see_stop k s)
  from weight_update [OF see_stop(1), of Exited] see_stop(2) show ?case by (simp add: pool_measure_def)
next
  case (see_go k s)
  from weight_update [OF see_go(1), of Claiming] see_go(2) show ?case by (simp add: pool_measure_def)
next
  case (claim k s)
  from weight_update [OF claim(1), of "Working (p_next s)"] claim(2,3) show ?case
    by (simp add: pool_measure_def)
next
  case (exhausted k s)
  from weight_update [OF exhausted(1), of Exited] exhausted(2,3) show ?case by (simp add: pool_measure_def)
next
  case (finish k s i r)
  from weight_update [OF finish(1), of "Reporting i r"] finish(2) show ?case by (simp add: pool_measure_def)
next
  case (report k s i r)
  from weight_update [OF report(1), of Checking] report(2) show ?case by (simp add: pool_measure_def)
qed

lemma pool_progress:
  assumes inv: "items_ok n s" and jobs: "\<And>i. i < n \<Longrightarrow> \<exists>r. can i r" and nd: "\<not> pool_done s"
  shows "\<exists>s'. pool_step can halts n s s'"
proof -
  obtain w where "w \<in> set (p_workers s)" "w \<noteq> Exited"
    using nd by (auto simp: pool_done_def list_all_iff split: worker.splits)
  then obtain k where k: "k < length (p_workers s)" "p_workers s ! k \<noteq> Exited"
    by (auto simp: in_set_conv_nth)
  show ?thesis
  proof (cases "p_workers s ! k")
    case (Working i)
    then have "holder s k i" using k(1) by (simp add: holder_def)
    then have "i < n" using inv by (auto simp: items_ok_def)
    then obtain r where "can i r" using jobs by blast
    with k(1) Working show ?thesis by (blast intro: finish)
  next
    case Checking
    with k(1) show ?thesis by (blast intro: see_go)
  next
    case Claiming
    show ?thesis
    proof (cases "p_next s < n")
      case True
      with k(1) Claiming show ?thesis by (blast intro: claim)
    next
      case False
      then have "n \<le> p_next s" by simp
      with k(1) Claiming show ?thesis by (blast intro: exhausted)
    qed
  next
    case (Reporting i r)
    with k(1) show ?thesis by (blast intro: report)
  qed (use k in simp)
qed

section \<open>Properties\<close>

text \<open>
  However the worker threads interleave, no item is dumped or restored twice and none is lost: in
  every state they can reach, two workers never hold the same item, and an item below the cursor is
  either held by a worker or has its result stored.
\<close>

theorem pool_items_once:
  assumes "pool_run can halts jobs n s"
  shows "(\<forall>k k' i. holder s k i \<longrightarrow> holder s k' i \<longrightarrow> k = k')
    \<and> (\<forall>k i. holder s k i \<longrightarrow> p_results s ! i = None)
    \<and> (\<forall>i < n. i < p_next s \<longrightarrow> p_results s ! i \<noteq> None \<or> (\<exists>k. holder s k i))"
proof -
  have "items_ok n s" using pool_run_inv [OF assms] by (simp add: pool_inv_def)
  then show ?thesis by (auto simp: items_ok_def)
qed

text \<open>
  No failure is lost by the parallel loop: when all workers have left, every slot holds a possible
  result of its item, and a slot can only be empty when some stored result is one that stops the
  pool, whatever the interleaving and however late the stop flag is seen.
\<close>

theorem pool_no_lost_failure:
  assumes "pool_outcome can halts jobs n results" "0 < jobs"
  shows "length results = n \<and> (\<forall>i < n. \<forall>r. results ! i = Some r \<longrightarrow> can i r)
    \<and> ((\<exists>i < n. results ! i = None) \<longrightarrow> (\<exists>i < n. \<exists>r. results ! i = Some r \<and> halts r))"
  by (rule pool_outcome_results [OF assms])

text \<open>
  C31. The worker threads always finish: every step decreases a measure, and as long as some worker has
  not left and every item has a result, a step is possible.
\<close>

theorem pool_terminates:
  assumes "pool_run can halts jobs n s" "\<And>i. i < n \<Longrightarrow> \<exists>r. can i r"
  shows "(\<forall>s'. pool_step can halts n s s' \<longrightarrow> pool_measure n s' < pool_measure n s)
    \<and> (pool_done s \<or> (\<exists>s'. pool_step can halts n s s'))"
  using pool_step_decreases pool_progress [of n s can halts] pool_run_inv [OF assms(1)] assms(2)
  by (auto simp: pool_inv_def)

section \<open>One worker is the sequential run\<close>

lemma pool_round:
  assumes "pool_run can halts 1 n \<lparr>p_next = k, p_stop = b, p_workers = [Checking], p_results = rs\<rparr>"
    and "k < n" "can k r"
  shows "pool_run can halts 1 n
    \<lparr>p_next = Suc k, p_stop = b \<or> halts r, p_workers = [Checking], p_results = rs[k := Some r]\<rparr>"
proof -
  let ?step = "pool_step can halts n"
  let ?s0 = "\<lparr>p_next = k, p_stop = b, p_workers = [Checking], p_results = rs\<rparr>"
  let ?s1 = "?s0\<lparr>p_workers := [Claiming]\<rparr>"
  let ?s2 = "?s1\<lparr>p_next := Suc k, p_workers := [Working k]\<rparr>"
  let ?s3 = "?s2\<lparr>p_stop := b \<or> halts r, p_workers := [Reporting k r]\<rparr>"
  let ?s4 = "?s3\<lparr>p_results := rs[k := Some r], p_workers := [Checking]\<rparr>"
  have "?step ?s0 ?s1" using see_go [of 0 ?s0 can halts n] by simp
  moreover have "?step ?s1 ?s2" using claim [of 0 ?s1 n can halts] assms(2) by simp
  moreover have "?step ?s2 ?s3" using finish [of 0 ?s2 k can r halts n] assms(3) by simp
  moreover have "?step ?s3 ?s4" using report [of 0 ?s3 k r can halts n] by simp
  ultimately have "pool_run can halts 1 n ?s4" using assms(1) by (meson run_step)
  then show ?thesis by simp
qed

lemma pool_rounds:
  assumes "length rs = n" "\<And>i. i < n \<Longrightarrow> can i (rs ! i)" "0 < n" "k \<le> n"
  shows "\<exists>b. pool_run can halts 1 n
    \<lparr>p_next = k, p_stop = b, p_workers = [Checking],
     p_results = map Some (take k rs) @ replicate (n - k) None\<rparr>"
  using assms(4)
proof (induction k)
  case 0
  then show ?case
    using run_start [of can halts 1 n] assms(3) by (auto simp: pool_start_def intro!: exI [of _ False])
next
  case (Suc k)
  then obtain b where b: "pool_run can halts 1 n
      \<lparr>p_next = k, p_stop = b, p_workers = [Checking],
       p_results = map Some (take k rs) @ replicate (n - k) None\<rparr>" by auto
  have k: "k < n" using Suc.prems by simp
  then have n: "n - k = Suc (n - Suc k)" by simp
  have "(map Some (take k rs) @ replicate (n - k) None)[k := Some (rs ! k)] =
      map Some (take (Suc k) rs) @ replicate (n - Suc k) None"
    unfolding n using k assms(1) by (simp add: list_update_append take_Suc_conv_app_nth)
  with pool_round [OF b k assms(2) [OF k]] show ?case by auto
qed

text \<open>Any complete list of possible results is the outcome of a single worker.\<close>

lemma pool_sequential:
  assumes "\<And>i. i < length rs \<Longrightarrow> can i (rs ! i)"
  shows "pool_outcome can halts 1 (length rs) (map Some rs)"
proof (cases "rs = []")
  case True
  with run_start [of can halts 1 0] show ?thesis
    by (auto simp: pool_outcome_def pool_done_def pool_start_def intro!: exI)
next
  case False
  then obtain b where "pool_run can halts 1 (length rs)
      \<lparr>p_next = length rs, p_stop = b, p_workers = [Checking], p_results = map Some rs\<rparr>" (is "pool_run _ _ _ _ ?s0")
    using pool_rounds [of rs "length rs" can "length rs" halts] assms by auto
  moreover have "pool_step can halts (length rs) ?s0 (?s0\<lparr>p_workers := [Claiming]\<rparr>)"
    using see_go [of 0 ?s0 can halts "length rs"] by simp
  moreover have "pool_step can halts (length rs) (?s0\<lparr>p_workers := [Claiming]\<rparr>)
      (?s0\<lparr>p_next := Suc (length rs), p_workers := [Exited]\<rparr>)"
    using exhausted [of 0 "?s0\<lparr>p_workers := [Claiming]\<rparr>" "length rs" can halts] by simp
  ultimately have "pool_run can halts 1 (length rs) (?s0\<lparr>p_next := Suc (length rs), p_workers := [Exited]\<rparr>)"
    by (meson run_step)
  then show ?thesis
    unfolding pool_outcome_def
    by (intro exI [of _ "?s0\<lparr>p_next := Suc (length rs), p_workers := [Exited]\<rparr>"])
      (simp add: pool_done_def)
qed

section \<open>An example\<close>

text \<open>One worker, two items, the first of which fails: the second is never claimed.\<close>

definition example_can :: "nat \<Rightarrow> bool \<Rightarrow> bool" where
  "example_can i r = (r = (i = 0))"

definition example_results :: "bool option list" where
  "example_results = [Some True, None]"

lemma example_outcome: "pool_outcome example_can (\<lambda>r. r) 1 2 example_results"
proof -
  let ?step = "pool_step example_can (\<lambda>r. r) 2"
  let ?s0 = "pool_start 1 2 :: bool pool"
  let ?s1 = "?s0\<lparr>p_workers := [Claiming]\<rparr>"
  let ?s2 = "?s1\<lparr>p_next := 1, p_workers := [Working 0]\<rparr>"
  let ?s3 = "?s2\<lparr>p_stop := True, p_workers := [Reporting 0 True]\<rparr>"
  let ?s4 = "?s3\<lparr>p_results := [Some True, None], p_workers := [Checking]\<rparr>"
  let ?s5 = "?s4\<lparr>p_workers := [Exited]\<rparr>"
  have "?step ?s0 ?s1" using see_go [of 0 ?s0 example_can "\<lambda>r. r" 2] by (simp add: pool_start_def)
  moreover have "?step ?s1 ?s2" using claim [of 0 ?s1 2 example_can "\<lambda>r. r"] by (simp add: pool_start_def)
  moreover have "?step ?s2 ?s3"
    using finish [of 0 ?s2 0 example_can True "\<lambda>r. r" 2] by (simp add: pool_start_def example_can_def)
  moreover have "?step ?s3 ?s4"
    using report [of 0 ?s3 0 True example_can "\<lambda>r. r" 2] by (simp add: pool_start_def numeral_2_eq_2)
  moreover have "?step ?s4 ?s5" using see_stop [of 0 ?s4 example_can "\<lambda>r. r" 2] by (simp add: pool_start_def)
  ultimately have "pool_run example_can (\<lambda>r. r) 1 2 ?s5"
    by (meson run_start run_step)
  then show ?thesis
    unfolding pool_outcome_def by (intro exI [of _ ?s5]) (simp add: pool_done_def example_results_def)
qed

theorem pool_items_once_witness:
  "p_results ((pool_start 1 2 :: bool pool)\<lparr>p_next := 1, p_workers := [Working 0]\<rparr>) ! 0 = None"
proof -
  let ?s0 = "pool_start 1 2 :: bool pool"
  let ?s1 = "?s0\<lparr>p_workers := [Claiming]\<rparr>"
  let ?s2 = "?s0\<lparr>p_next := 1, p_workers := [Working 0]\<rparr>"
  have "pool_step example_can (\<lambda>r. r) 2 ?s0 ?s1"
    using see_go [of 0 ?s0 example_can "\<lambda>r. r" 2] by (simp add: pool_start_def)
  moreover have "pool_step example_can (\<lambda>r. r) 2 ?s1 ?s2"
    using claim [of 0 ?s1 2 example_can "\<lambda>r. r"] by (simp add: pool_start_def)
  ultimately have run: "pool_run example_can (\<lambda>r. r) 1 2 ?s2" by (meson run_start run_step)
  have "holder ?s2 0 0" by (simp add: holder_def)
  then show ?thesis using pool_items_once [OF run] by blast
qed

theorem pool_no_lost_failure_witness: "\<exists>i < 2. \<exists>r. example_results ! i = Some r \<and> r"
proof -
  have "\<exists>i < 2. example_results ! i = None" by (intro exI [of _ 1]) (simp add: example_results_def)
  then show ?thesis using pool_no_lost_failure [OF example_outcome] by simp
qed

theorem pool_terminates_witness:
  "\<exists>s'. pool_step example_can (\<lambda>r. r) 2 (pool_start 1 2) s' \<and> pool_measure 2 s' < pool_measure 2 (pool_start 1 2 :: bool pool)"
proof -
  have "\<not> pool_done (pool_start 1 2 :: bool pool)" by (simp add: pool_done_def pool_start_def)
  moreover have "\<exists>r. example_can i r" for i by (auto simp: example_can_def)
  ultimately show ?thesis
    using pool_terminates [OF run_start [of example_can "\<lambda>r. r" 1 2]] by blast
qed

end
