(* ===== verification/DumpRun.thy ===== *)
theory DumpRun
  imports DumpFormat Apply WorkerPool
begin

text \<open>
  Creating a dump (src/dump/create.rs): enumerating the collections, streaming each through the
  transformation plan into its data blob, assembling the table of contents and writing the metadata.
  The dump id and the RFC 3339 rendering of the creation time are arguments. The parallel branch
  takes the results its worker threads leave (\<open>par\<close>); WorkerPool says which ones they can be.
\<close>

section \<open>Options and enumeration\<close>

record dump_options =
  do_tmp_dir :: "string option"
  do_include_databases :: "string list"
  do_exclude_databases :: "string list"
  do_include_collections :: "string list"
  do_exclude_collections :: "string list"
  do_gzip :: bool
  do_parallel_jobs :: nat
  do_no_indexes :: bool

definition passes_filter :: "string list \<Rightarrow> string list \<Rightarrow> string \<Rightarrow> bool" where
  "passes_filter incl excl name =
     (if list_ex (\<lambda>d. d = name) excl then False else incl = [] \<or> list_ex (\<lambda>d. d = name) incl)"

definition include_db :: "dump_options \<Rightarrow> string \<Rightarrow> bool" where
  "include_db o' name = passes_filter (do_include_databases o') (do_exclude_databases o') name"

definition include_collection :: "dump_options \<Rightarrow> string \<Rightarrow> bool" where
  "include_collection o' name =
     passes_filter (do_include_collections o') (do_exclude_collections o') name"

record dump_env =
  du_source :: mongo_source
  du_registry :: registry
  du_engine :: hash_engine
  du_plan :: "transformation_plan option"
  du_filters :: "(string \<times> document) list"
  du_options :: dump_options

record work_item =
  wi_db_index :: nat
  wi_order :: nat
  wi_db :: string
  wi_coll :: string

fun number_items :: "nat \<Rightarrow> string \<Rightarrow> nat \<Rightarrow> string list \<Rightarrow> work_item list" where
  "number_items dbi db order [] = []"
| "number_items dbi db order (c # cs) =
     \<lparr>wi_db_index = dbi, wi_order = order, wi_db = db, wi_coll = c\<rparr>
       # number_items dbi db (order + 1) cs"

fun enumerate_dbs ::
    "dump_env \<Rightarrow> string list \<Rightarrow> string list \<Rightarrow> work_item list \<Rightarrow> (string list \<times> work_item list) res" where
  "enumerate_dbs env [] names items = Inr (names, items)"
| "enumerate_dbs env (db # dbs) names items =
     (if \<not> include_db (du_options env) db then enumerate_dbs env dbs names items
      else case ms_collections (du_source env) db of
             Inl e \<Rightarrow> Inl e
           | Inr colls \<Rightarrow>
               enumerate_dbs env dbs (names @ [db])
                 (items @ number_items (length names) db 0
                    (filter (include_collection (du_options env)) colls)))"

definition enumerate_items :: "dump_env \<Rightarrow> (string list \<times> work_item list) res" where
  "enumerate_items env =
     (case ms_databases (du_source env) of
        Inl e \<Rightarrow> Inl e
      | Inr dbs \<Rightarrow> enumerate_dbs env dbs [] [])"

section \<open>One collection\<close>

definition dump_document ::
    "ext \<Rightarrow> codec \<Rightarrow> dump_env \<Rightarrow> string \<Rightarrow> document \<Rightarrow> data_writer \<Rightarrow> data_writer res" where
  "dump_document E C env coll doc w =
     (case du_plan env of
        None \<Rightarrow> write_document C doc w
      | Some plan \<Rightarrow>
          if \<not> should_include plan coll doc then Inr w
          else (case plan_transform E plan (du_registry env) (du_engine env) coll doc of
                  Inl e \<Rightarrow> Inl e
                | Inr out \<Rightarrow> write_document C out w))"

definition dump_collection ::
    "ext \<Rightarrow> codec \<Rightarrow> 's storage \<Rightarrow> dump_env \<Rightarrow> string \<Rightarrow> string \<Rightarrow> string \<Rightarrow> 's \<Rightarrow> (nat \<times> nat) res \<times> 's" where
  "dump_collection E C S env did db coll s =
     (let gz_on = do_gzip (du_options env);
          w0 = writer_create (in_dump did (data_path db coll gz_on)) gz_on
      in case stream_each (dump_document E C env coll)
                (ms_stream (du_source env) db coll (kv_get coll (du_filters env))) w0 of
           Inl e \<Rightarrow> (Inl e, s)
         | Inr w \<Rightarrow>
             (case writer_finish C S w s of
                (Inl e, s') \<Rightarrow> (Inl e, s')
              | (Inr sz, s') \<Rightarrow> (Inr (dw_count w, sz), s')))"

definition empty_structure :: collection_structure where
  "empty_structure = \<lparr>st_indexes = [], st_validator = None, st_options = []\<rparr>"

definition item_structure :: "dump_env \<Rightarrow> string \<Rightarrow> string \<Rightarrow> collection_structure res" where
  "item_structure env db coll =
     (if do_no_indexes (du_options env) then Inr empty_structure
      else ms_structure (du_source env) db coll)"

type_synonym item_result = "(nat \<times> collection_toc) res"

definition dump_item ::
    "ext \<Rightarrow> codec \<Rightarrow> 's storage \<Rightarrow> dump_env \<Rightarrow> string \<Rightarrow> work_item \<Rightarrow> 's \<Rightarrow> item_result \<times> 's" where
  "dump_item E C S env did it s =
     (case dump_collection E C S env did (wi_db it) (wi_coll it) s of
        (Inl e, s1) \<Rightarrow> (Inl e, s1)
      | (Inr (count, sz), s1) \<Rightarrow>
          (case item_structure env (wi_db it) (wi_coll it) of
             Inl e \<Rightarrow> (Inl e, s1)
           | Inr st \<Rightarrow>
               let toc = \<lparr>toc_name = wi_coll it, toc_count = count,
                          toc_indexes = map ix_name (st_indexes st), toc_order = wi_order it\<rparr>
               in case write_collection_meta C S did
                        \<lparr>cm_database = wi_db it, cm_collection = wi_coll it, cm_count = count,
                         cm_indexes = st_indexes st, cm_validator = st_validator st,
                         cm_options = st_options st\<rparr> s1 of
                    (Inl e, s2) \<Rightarrow> (Inl e, s2)
                  | (Inr n, s2) \<Rightarrow> (Inr (sz + n, toc), s2)))"

section \<open>The run\<close>

fun dump_sequential ::
    "ext \<Rightarrow> codec \<Rightarrow> 's storage \<Rightarrow> dump_env \<Rightarrow> string \<Rightarrow> work_item list \<Rightarrow> 's
       \<Rightarrow> item_result option list \<times> 's" where
  "dump_sequential E C S env did [] s = ([], s)"
| "dump_sequential E C S env did (it # its) s =
     (case dump_item E C S env did it s of
        (r, s1) \<Rightarrow> (case dump_sequential E C S env did its s1 of (rs, s2) \<Rightarrow> (Some r # rs, s2)))"

fun collect_results ::
    "work_item list \<Rightarrow> item_result option list \<Rightarrow> nat \<Rightarrow> collection_toc list list
       \<Rightarrow> (nat \<times> collection_toc list list) res" where
  "collect_results (it # its) (r # rs) sz cbd =
     (case r of
        Some (Inr (n, toc)) \<Rightarrow>
          collect_results its rs (sz + n)
            (cbd[wi_db_index it := cbd ! wi_db_index it @ [toc]])
      | Some (Inl e) \<Rightarrow> Inl e
      | None \<Rightarrow> collect_results its rs sz cbd)"
| "collect_results _ _ sz cbd = Inr (sz, cbd)"

definition tmp_dir_set :: "dump_options \<Rightarrow> bool" where
  "tmp_dir_set o' = (case do_tmp_dir o' of None \<Rightarrow> False | Some t \<Rightarrow> t \<noteq> [])"

definition item_results ::
    "ext \<Rightarrow> codec \<Rightarrow> 's storage \<Rightarrow> dump_env \<Rightarrow> string
       \<Rightarrow> (work_item list \<Rightarrow> nat \<Rightarrow> 's \<Rightarrow> item_result option list \<times> 's)
       \<Rightarrow> work_item list \<Rightarrow> 's \<Rightarrow> item_result option list \<times> 's" where
  "item_results E C S env did par items s =
     (let jobs = max (do_parallel_jobs (du_options env)) 1
      in if jobs \<le> 1 \<or> length items \<le> 1 then dump_sequential E C S env did items s
         else par items jobs s)"

definition dump_run ::
    "ext \<Rightarrow> codec \<Rightarrow> 's storage \<Rightarrow> dump_env
       \<Rightarrow> (work_item list \<Rightarrow> nat \<Rightarrow> 's \<Rightarrow> item_result option list \<times> 's)
       \<Rightarrow> string \<Rightarrow> string \<Rightarrow> 's \<Rightarrow> dump_metadata res \<times> 's" where
  "dump_run E C S env par did created s =
     (if \<not> tmp_dir_set (du_options env) then
        (Inl (ConfigError ''common.tmp_dir must be configured before dumping''), s)
      else case enumerate_items env of
             Inl e \<Rightarrow> (Inl e, s)
           | Inr (names, items) \<Rightarrow>
               (case item_results E C S env did par items s of
                  (results, s1) \<Rightarrow>
                    (case collect_results items results 0 (replicate (length names) []) of
                       Inl e \<Rightarrow> (Inl e, s1)
                     | Inr (sz, cbd) \<Rightarrow>
                         let meta = \<lparr>dm_id = did, dm_status = Done, dm_created_at = created,
                                     dm_databases = map (\<lambda>(n, cs). \<lparr>dt_name = n, dt_collections = cs\<rparr>)
                                                      (zip names cbd),
                                     dm_size = sz\<rparr>
                         in case write_metadata C S meta s1 of
                              (Inl e, s2) \<Rightarrow> (Inl e, s2)
                            | (Inr u, s2) \<Rightarrow> (Inr meta, s2))))"

section \<open>Lemmas\<close>

text \<open>The documents that go into the dump: the included ones, transformed, in order.\<close>

fun dumped_docs :: "ext \<Rightarrow> dump_env \<Rightarrow> string \<Rightarrow> document list \<Rightarrow> document list res" where
  "dumped_docs E env coll [] = Inr []"
| "dumped_docs E env coll (d # ds) =
     (case du_plan env of
        None \<Rightarrow> map_sum id (Cons d) (dumped_docs E env coll ds)
      | Some plan \<Rightarrow>
          if \<not> should_include plan coll d then dumped_docs E env coll ds
          else (case plan_transform E plan (du_registry env) (du_engine env) coll d of
                  Inl e \<Rightarrow> Inl e
                | Inr out \<Rightarrow> map_sum id (Cons out) (dumped_docs E env coll ds)))"

lemma each_doc_dump:
  "dumped_docs E env coll docs = Inr outs \<Longrightarrow>
     each_doc (dump_document E C env coll) docs w = each_doc (write_document C) outs w"
proof (induction docs arbitrary: outs w)
  case (Cons d ds)
  show ?case
  proof (cases "du_plan env")
    case None
    with Cons show ?thesis
      by (auto simp: map_sum_Inr dump_document_def split: sum.splits)
  next
    case (Some plan)
    with Cons show ?thesis
      by (auto simp: map_sum_Inr dump_document_def split: sum.splits if_splits)
  qed
qed simp

text \<open>Dumping an item is writing its collection.\<close>

definition item_data :: "work_item \<Rightarrow> document list \<Rightarrow> collection_structure \<Rightarrow> collection_data" where
  "item_data it docs st =
     \<lparr>d_database = wi_db it, d_collection = wi_coll it, d_documents = docs,
      d_indexes = st_indexes st, d_validator = st_validator st, d_options = st_options st\<rparr>"

definition item_stream :: "dump_env \<Rightarrow> work_item \<Rightarrow> doc_stream" where
  "item_stream env it =
     ms_stream (du_source env) (wi_db it) (wi_coll it) (kv_get (wi_coll it) (du_filters env))"

lemma dump_item_writes:
  assumes outs: "dumped_docs E env (wi_coll it) (fst (item_stream env it)) = Inr outs"
    and framed: "\<forall>d \<in> set outs. framed C d"
    and dump: "dump_item E C S env did it s = (Inr (sz, toc), s')"
  shows "\<exists>st. item_structure env (wi_db it) (wi_coll it) = Inr st
    \<and> write_collection_data C S did (item_data it outs st) (do_gzip (du_options env)) s = (Inr sz, s')
    \<and> toc = \<lparr>toc_name = wi_coll it, toc_count = length outs,
             toc_indexes = map ix_name (st_indexes st), toc_order = wi_order it\<rparr>
    \<and> snd (item_stream env it) = None"
proof -
  let ?gz = "do_gzip (du_options env)"
  let ?p = "in_dump did (data_path (wi_db it) (wi_coll it) ?gz)"
  let ?w = "\<lparr>dw_raw = blob_of C outs, dw_count = length outs, dw_path = ?p, dw_gzip = ?gz\<rparr>"
  let ?blob = "if ?gz then gz C (blob_of C outs) else blob_of C outs"
  have each: "each_doc (dump_document E C env (wi_coll it)) (fst (item_stream env it)) (writer_create ?p ?gz) = Inr ?w"
    by (simp add: each_doc_dump [OF outs] write_documents_blob [OF framed] writer_create_def)
  have str: "stream_each (dump_document E C env (wi_coll it)) (item_stream env it) (writer_create ?p ?gz) =
      (case snd (item_stream env it) of None \<Rightarrow> Inr ?w | Some e \<Rightarrow> Inl e)"
    by (simp add: stream_each_def each)
  have none: "snd (item_stream env it) = None"
    using dump str by (auto simp: dump_item_def dump_collection_def Let_def item_stream_def split: option.splits)
  obtain s1 where put: "sg_put S ?p ?blob s = (Inr (), s1)"
    and coll: "dump_collection E C S env did (wi_db it) (wi_coll it) s = (Inr (length outs, length ?blob), s1)"
    using dump str none
    by (auto simp: dump_item_def dump_collection_def Let_def item_stream_def writer_finish_def
        split: prod.splits sum.splits if_splits)
  obtain st where st: "item_structure env (wi_db it) (wi_coll it) = Inr st"
    using dump coll by (auto simp: dump_item_def split: sum.splits)
  show ?thesis
    using dump coll st put none
    by (auto simp: dump_item_def Let_def write_collection_data_def encode_docs_blob [OF framed] item_data_def
        meta_of_data_def split: prod.splits sum.splits)
qed

text \<open>Collecting results: every completed item's entry goes to its database, in item order, and any
  failed item makes the whole collection fail.\<close>

fun entries_at :: "nat \<Rightarrow> (work_item \<times> item_result option) list \<Rightarrow> collection_toc list" where
  "entries_at d [] = []"
| "entries_at d ((it, r) # ps) =
     (case r of
        Some (Inr (n, toc)) \<Rightarrow> if wi_db_index it = d then toc # entries_at d ps else entries_at d ps
      | _ \<Rightarrow> entries_at d ps)"

lemma collect_results_spec:
  "collect_results items results sz cbd = Inr (sz', cbd') \<Longrightarrow> length results = length items \<Longrightarrow>
    \<forall>it \<in> set items. wi_db_index it < length cbd \<Longrightarrow>
    (\<forall>r \<in> set results. \<forall>e. r \<noteq> Some (Inl e)) \<and> length cbd' = length cbd
    \<and> (\<forall>d < length cbd. cbd' ! d = cbd ! d @ entries_at d (zip items results))"
proof (induction items arbitrary: results sz cbd)
  case (Cons it its)
  from Cons.prems(2) obtain r rs where rs: "results = r # rs" "length rs = length its"
    by (cases results) auto
  show ?case
  proof (cases r)
    case None
    with Cons.IH [of rs sz cbd] Cons.prems rs show ?thesis by simp
  next
    case (Some x)
    show ?thesis
    proof (cases x)
      case (Inl e)
      with Cons.prems Some rs show ?thesis by simp
    next
      case (Inr p)
      obtain n toc where p: "p = (n, toc)" by (cases p)
      let ?cbd = "cbd[wi_db_index it := cbd ! wi_db_index it @ [toc]]"
      have "(\<forall>r \<in> set rs. \<forall>e. r \<noteq> Some (Inl e)) \<and> length cbd' = length ?cbd
        \<and> (\<forall>d < length ?cbd. cbd' ! d = ?cbd ! d @ entries_at d (zip its rs))"
        using Cons.IH [of rs "sz + n" ?cbd] Cons.prems rs Some Inr p by simp
      with Cons.prems(3) Some Inr p rs show ?thesis by (auto simp: nth_list_update)
    qed
  qed
qed simp

text \<open>Enumerated items point at a database of the enumeration.\<close>

lemma number_items_db: "it \<in> set (number_items dbi db order cs) \<Longrightarrow> wi_db_index it = dbi \<and> wi_db it = db \<and> wi_coll it \<in> set cs"
  by (induction cs arbitrary: order) auto

lemma enumerate_dbs_index:
  "enumerate_dbs env dbs names items = Inr (names', items') \<Longrightarrow>
     \<forall>it \<in> set items. wi_db_index it < length names \<Longrightarrow>
     \<forall>it \<in> set items'. wi_db_index it < length names'"
proof (induction env dbs names items rule: enumerate_dbs.induct)
  case (2 env db dbs names items)
  show ?case
  proof (cases "include_db (du_options env) db")
    case False
    with 2 show ?thesis by simp
  next
    case True
    then obtain colls where c: "ms_collections (du_source env) db = Inr colls"
      using 2(3) by (cases "ms_collections (du_source env) db") auto
    let ?new = "number_items (length names) db 0 (filter (include_collection (du_options env)) colls)"
    have "\<forall>it \<in> set (items @ ?new). wi_db_index it < length (names @ [db])"
      using 2(4) by (auto dest: number_items_db)
    then show ?thesis
      using 2(2) [OF _ c] 2(3) True c by simp
  qed
qed auto

lemma enumerate_items_index:
  "enumerate_items env = Inr (names, items) \<Longrightarrow> it \<in> set items \<Longrightarrow> wi_db_index it < length names"
  using enumerate_dbs_index [of env _ "[]" "[]" names items]
  by (auto simp: enumerate_items_def split: sum.splits)

text \<open>The results of the sequential branch are complete.\<close>

lemma dump_sequential_length:
  "dump_sequential E C S env did items s = (rs, s') \<Longrightarrow> length rs = length items \<and> None \<notin> set rs"
  by (induction items arbitrary: s rs s') (auto split: prod.splits)

text \<open>On a directory, dumping items only ever writes below the dump's data directory.\<close>

lemma resolve_metadata_path: "clean_name did \<Longrightarrow> resolve_path (metadata_path did) = [did, ''metadata.json'']"
  using resolve_path_join [of "[did, ''metadata.json'']"]
  by (simp add: metadata_path_def clean_name_def slash_def)

definition clean_item :: "work_item \<Rightarrow> bool" where
  "clean_item it = (clean_name (wi_db it) \<and> slash \<notin> set (wi_coll it))"

lemma each_doc_writer:
  "each_doc (dump_document E C env coll) docs w = Inr w' \<Longrightarrow> dw_path w' = dw_path w \<and> dw_gzip w' = dw_gzip w"
  by (induction docs arbitrary: w)
    (fastforce simp: dump_document_def write_document_def split: option.splits sum.splits if_splits)+

lemma dump_collection_put:
  assumes "dump_collection E C S env did db coll s = (r, s')"
  shows "s' = s \<or> (\<exists>b u. sg_put S (in_dump did (data_path db coll (do_gzip (du_options env)))) b s = (u, s'))"
  using assms each_doc_writer
  by (fastforce simp: dump_collection_def Let_def stream_each_def writer_finish_def writer_create_def
      split: sum.splits prod.splits option.splits if_splits)

lemma no_metadata_put:
  assumes "fs_ok fs" "dir_put p b fs = (u, fs')" "clean_name did" "dir_exists (metadata_path did) fs = Inr False"
    and "resolve_path p = blob_segs did db file"
  shows "fs_ok fs' \<and> dir_exists (metadata_path did) fs' = Inr False"
  using dir.put_inv [OF assms(1,2)] dir.absent_put [OF assms(1,2,4)] resolve_metadata_path [OF assms(3)] assms(5)
  by (simp add: blob_segs_def)

lemma dump_item_no_metadata:
  assumes "fs_ok fs" "clean_name did" "clean_item it" "dir_exists (metadata_path did) fs = Inr False"
    and dump: "dump_item E C dir_storage env did it fs = (r, fs')"
  shows "fs_ok fs' \<and> dir_exists (metadata_path did) fs' = Inr False"
proof -
  obtain c fs1 where c: "dump_collection E C dir_storage env did (wi_db it) (wi_coll it) fs = (c, fs1)"
    by (rule prod.exhaust)
  have it: "clean_name (wi_db it)" "slash \<notin> set (wi_coll it)" using assms(3) by (simp_all add: clean_item_def)
  have one: "fs_ok fs1 \<and> dir_exists (metadata_path did) fs1 = Inr False"
    using dump_collection_put [OF c] no_metadata_put [OF assms(1) _ assms(2,4) resolve_data_path [OF assms(2) it]]
      assms(1,4) by (auto simp: dir_storage_def)
  have "fs' = fs1 \<or> (\<exists>b u. dir_put (in_dump did (meta_path (wi_db it) (wi_coll it))) b fs1 = (u, fs'))"
    using dump c by (auto simp: dump_item_def Let_def write_collection_meta_def dir_storage_def
        split: sum.splits prod.splits option.splits)
  then show ?thesis
    using one no_metadata_put [OF _ _ assms(2) _ resolve_meta_path [OF assms(2) it], of fs1] by auto
qed

lemma dump_sequential_no_metadata:
  "fs_ok fs \<Longrightarrow> clean_name did \<Longrightarrow> \<forall>it \<in> set items. clean_item it \<Longrightarrow>
     dir_exists (metadata_path did) fs = Inr False \<Longrightarrow>
     dump_sequential E C dir_storage env did items fs = (rs, fs') \<Longrightarrow>
     fs_ok fs' \<and> dir_exists (metadata_path did) fs' = Inr False"
proof (induction items arbitrary: fs rs)
  case (Cons it its)
  obtain r fs1 where r: "dump_item E C dir_storage env did it fs = (r, fs1)" by (rule prod.exhaust)
  obtain rs2 fs2 where rs: "dump_sequential E C dir_storage env did its fs1 = (rs2, fs2)" by (rule prod.exhaust)
  have "fs_ok fs1 \<and> dir_exists (metadata_path did) fs1 = Inr False"
    using dump_item_no_metadata [OF Cons.prems(1,2) _ Cons.prems(4) r] Cons.prems(3) by simp
  with Cons.IH [of fs1 rs2] Cons.prems(2,3,5) r rs show ?case by simp
qed simp

text \<open>What a dumped item leaves in a directory for the restore to read.\<close>

lemma dump_item_parts:
  assumes "fs_ok fs" "clean_name did" "clean_item it"
    and "dumped_docs E env (wi_coll it) (fst (item_stream env it)) = Inr outs" "\<forall>d \<in> set outs. framed C d"
    and "gunzip C (gz C (blob_of C outs)) = (blob_of C outs, None)"
    and "\<And>st raw. item_structure env (wi_db it) (wi_coll it) = Inr st \<Longrightarrow>
          enc_cmeta C (meta_of_data (item_data it outs st)) = Some raw \<Longrightarrow>
          dec_cmeta C raw = Some (meta_of_data (item_data it outs st))"
    and "\<not> do_gzip (du_options env) \<Longrightarrow>
          dir_exists (in_dump did (data_path (wi_db it) (wi_coll it) True)) fs = Inr False"
    and "dump_item E C dir_storage env did it fs = (Inr (sz, toc), fs')"
  shows "\<exists>st. item_structure env (wi_db it) (wi_coll it) = Inr st
    \<and> read_collection_meta C dir_storage did (wi_db it) (wi_coll it) fs' = Inr (meta_of_data (item_data it outs st))
    \<and> open_document_reader C dir_storage did (wi_db it) (wi_coll it) fs' =
        Inr \<lparr>rd_bytes = blob_of C outs, rd_end = None\<rparr>
    \<and> toc_count toc = length outs \<and> snd (item_stream env it) = None"
proof -
  obtain st where st: "item_structure env (wi_db it) (wi_coll it) = Inr st"
    "write_collection_data C dir_storage did (item_data it outs st) (do_gzip (du_options env)) fs = (Inr sz, fs')"
    "toc_count toc = length outs" "snd (item_stream env it) = None"
    using dump_item_writes [OF assms(4,5,9)] by auto
  have d: "d_database (item_data it outs st) = wi_db it" "d_collection (item_data it outs st) = wi_coll it"
    "d_documents (item_data it outs st) = outs" by (simp_all add: item_data_def)
  have clean: "clean_name (wi_db it)" "slash \<notin> set (wi_coll it)" using assms(3) by (simp_all add: clean_item_def)
  show ?thesis
    using dir_parts [of fs did "item_data it outs st", unfolded d, OF assms(1,2) clean assms(5,6)
        assms(7) [OF st(1)] assms(8) st(2)] st by blast
qed

section \<open>Properties\<close>

text \<open>
  C25. What a dump of a collection stores is what the plan makes of the live documents: when dumping one
  collection to a directory succeeds, reading it back gives exactly the included documents, transformed,
  in stream order, with the structure of the live collection; the recorded count is theirs, and the
  stream had ended without an error.
\<close>

theorem dump_item_reads_back:
  assumes "fs_ok fs" "clean_name did" "clean_item it"
    and "dumped_docs E env (wi_coll it) (fst (item_stream env it)) = Inr outs" "\<forall>d \<in> set outs. framed C d"
    and "gunzip C (gz C (blob_of C outs)) = (blob_of C outs, None)"
    and "\<And>st raw. item_structure env (wi_db it) (wi_coll it) = Inr st \<Longrightarrow>
          enc_cmeta C (meta_of_data (item_data it outs st)) = Some raw \<Longrightarrow>
          dec_cmeta C raw = Some (meta_of_data (item_data it outs st))"
    and "\<not> do_gzip (du_options env) \<Longrightarrow>
          dir_exists (in_dump did (data_path (wi_db it) (wi_coll it) True)) fs = Inr False"
    and "dump_item E C dir_storage env did it fs = (Inr (sz, toc), fs')"
  shows "\<exists>st. item_structure env (wi_db it) (wi_coll it) = Inr st
    \<and> read_collection_full C dir_storage did (wi_db it) (wi_coll it) fs' = Inr (item_data it outs st)
    \<and> toc_count toc = length outs \<and> snd (item_stream env it) = None"
proof -
  obtain st where st: "item_structure env (wi_db it) (wi_coll it) = Inr st"
    "read_collection_meta C dir_storage did (wi_db it) (wi_coll it) fs' = Inr (meta_of_data (item_data it outs st))"
    "open_document_reader C dir_storage did (wi_db it) (wi_coll it) fs' = Inr \<lparr>rd_bytes = blob_of C outs, rd_end = None\<rparr>"
    "toc_count toc = length outs \<and> snd (item_stream env it) = None"
    using dump_item_parts [OF assms] by blast
  have "read_collection_full C dir_storage did (wi_db it) (wi_coll it) fs' = Inr (item_data it outs st)"
    by (rule read_parts [OF _ st(2)]) (use assms(5) st(3) in \<open>simp_all add: item_data_def\<close>)
  with st show ?thesis by blast
qed

text \<open>
  C13. A completed dump is complete, whatever order the worker threads ran in: if the results are those of
  a pool of workers and the run succeeds, every enumerated collection was dumped successfully, and the
  metadata lists for each database exactly its collections' entries, in enumeration order.
\<close>

theorem parallel_dump_complete:
  assumes "enumerate_items env = Inr (names, items)"
    and "item_results E C S env did par items s = (results, s1)"
    and "pool_outcome can isl jobs (length items) results" "0 < jobs"
    and "dump_run E C S env par did created s = (Inr meta, s')"
  shows "(\<forall>i < length items. \<exists>n toc. results ! i = Some (Inr (n, toc)) \<and> can i (Inr (n, toc)))
    \<and> dm_status meta = Done
    \<and> dm_databases meta =
        map (\<lambda>d. \<lparr>dt_name = names ! d, dt_collections = entries_at d (zip items results)\<rparr>) [0..<length names]"
proof -
  have pool: "length results = length items"
    "\<And>i r. i < length items \<Longrightarrow> results ! i = Some r \<Longrightarrow> can i r"
    "(\<exists>i < length items. results ! i = None) \<Longrightarrow> (\<exists>i < length items. \<exists>r. results ! i = Some r \<and> isl r)"
    using pool_outcome_results [OF assms(3,4)] by blast+
  obtain sz cbd where col: "collect_results items results 0 (replicate (length names) []) = Inr (sz, cbd)"
    and m: "dm_status meta = Done"
      "dm_databases meta = map (\<lambda>(n, cs). \<lparr>dt_name = n, dt_collections = cs\<rparr>) (zip names cbd)"
    using assms(1,2,5) by (auto simp: dump_run_def Let_def split: if_splits sum.splits prod.splits)
  have idx: "\<forall>it \<in> set items. wi_db_index it < length (replicate (length names) ([] :: collection_toc list))"
    using enumerate_items_index [OF assms(1)] by simp
  note c = collect_results_spec [OF col pool(1) idx]
  have ok: "\<exists>n toc. results ! i = Some (Inr (n, toc)) \<and> can i (Inr (n, toc))" if i: "i < length items" for i
  proof (cases "results ! i")
    case None
    then obtain j r where j: "j < length items" "results ! j = Some r" "isl r" using pool(3) i by blast
    then have "Some r \<in> set results" using pool(1) nth_mem [of j results] by simp
    with c j(3) show ?thesis by (cases r) auto
  next
    case (Some r)
    then have "Some r \<in> set results" using pool(1) i nth_mem [of i results] by simp
    with c Some pool(2) [OF i Some] show ?thesis by (cases r) auto
  qed
  have "dm_databases meta =
      map (\<lambda>d. \<lparr>dt_name = names ! d, dt_collections = entries_at d (zip items results)\<rparr>) [0..<length names]"
    unfolding m using c by (intro nth_equalityI) simp_all
  with ok m show ?thesis by blast
qed

text \<open>
  C21. A failed dump is never taken for a completed one: if a collection fails in a sequential dump, the
  run fails and no metadata is left in the dump's directory.
\<close>

theorem failed_dump_has_no_metadata:
  assumes "fs_ok fs" "clean_name did" "dir_exists (metadata_path did) fs = Inr False"
    and "enumerate_items env = Inr (names, items)" "\<forall>it \<in> set items. clean_item it"
    and "do_parallel_jobs (du_options env) \<le> 1"
    and "dump_sequential E C dir_storage env did items fs = (results, fs1)" "Some (Inl e) \<in> set results"
  shows "\<exists>e' fs'. dump_run E C dir_storage env par did created fs = (Inl e', fs')
    \<and> dir_exists (metadata_path did) fs' = Inr False"
proof (cases "tmp_dir_set (du_options env)")
  case False
  with assms(3) show ?thesis by (simp add: dump_run_def)
next
  case True
  have "length results = length items" using dump_sequential_length [OF assms(7)] by simp
  then obtain e' where "collect_results items results 0 (replicate (length names) []) = Inl e'"
    using collect_results_spec [of items results 0 "replicate (length names) []"]
      enumerate_items_index [OF assms(4)] assms(8)
    by (cases "collect_results items results 0 (replicate (length names) [])") (auto, blast)
  moreover have "dir_exists (metadata_path did) fs1 = Inr False"
    using dump_sequential_no_metadata [OF assms(1,2,5,3,7)] by simp
  ultimately show ?thesis
    using True assms(4,6,7) by (simp add: dump_run_def item_results_def Let_def)
qed

section \<open>An example\<close>

text \<open>
  Two databases. Of \<open>d.c\<close> the plan keeps the document with identifier 7; the document of \<open>e.b\<close> cannot
  be encoded by the toy codec.
\<close>

definition sample_mem :: mem where
  "sample_mem =
     mem_seed ((empty_collection ''e'' ''b'')\<lparr>d_documents := [[(''x'', BNull)]]\<rparr>) (mem_seed sample_data [])"

definition sample_dump_options :: dump_options where
  "sample_dump_options =
     \<lparr>do_tmp_dir = Some ''/tmp'', do_include_databases = [], do_exclude_databases = [],
      do_include_collections = [], do_exclude_collections = [], do_gzip = False,
      do_parallel_jobs = 1, do_no_indexes = False\<rparr>"

definition sample_env :: dump_env where
  "sample_env =
     \<lparr>du_source = mem_source sample_mem, du_registry = [], du_engine = sample_engine,
      du_plan = Some [(''c'', \<lparr>p_when = None, p_query = Some [(''_id'', BInt32 7)], p_rules = []\<rparr>)],
      du_filters = [], du_options = sample_dump_options\<rparr>"

definition sample_item :: work_item where
  "sample_item = \<lparr>wi_db_index = 0, wi_order = 0, wi_db = ''d'', wi_coll = ''c''\<rparr>"

definition bad_item :: work_item where
  "bad_item = \<lparr>wi_db_index = 1, wi_order = 0, wi_db = ''e'', wi_coll = ''b''\<rparr>"

definition sample_item_toc :: collection_toc where
  "sample_item_toc = \<lparr>toc_name = ''c'', toc_count = 1, toc_indexes = [], toc_order = 0\<rparr>"

lemma sample_enumerate: "enumerate_items sample_env = Inr ([''d'', ''e''], [sample_item, bad_item])"
  by code_simp

lemma sample_dumped:
  "dump_item sample_ext sample_codec dir_storage sample_env ''x'' sample_item [] =
     (Inr (9, sample_item_toc),
      snd (dump_item sample_ext sample_codec dir_storage sample_env ''x'' sample_item []))"
  by code_simp

lemma fs_ok_Nil: "fs_ok []"
  by (simp add: fs_ok_def fs_lookup_def)

lemma clean_examples: "clean_name ''x''" "clean_item sample_item" "clean_item bad_item"
  by (simp_all add: clean_name_def clean_item_def slash_def sample_item_def bad_item_def)

theorem dump_item_reads_back_witness:
  "\<exists>st. read_collection_full sample_codec dir_storage ''x'' ''d'' ''c''
       (snd (dump_item sample_ext sample_codec dir_storage sample_env ''x'' sample_item [])) =
     Inr (item_data sample_item [[(''_id'', BInt32 7)]] st)"
proof -
  have wi: "wi_db sample_item = ''d''" "wi_coll sample_item = ''c''" by (simp_all add: sample_item_def)
  have outs: "dumped_docs sample_ext sample_env (wi_coll sample_item) (fst (item_stream sample_env sample_item)) =
      Inr [[(''_id'', BInt32 7)]]"
    by code_simp
  have framed: "\<forall>d \<in> set [[(''_id'', BInt32 7)]]. framed sample_codec d"
    using sample_framed by (simp add: sample_docs_def)
  have zip: "gunzip sample_codec (gz sample_codec (blob_of sample_codec [[(''_id'', BInt32 7)]])) =
      (blob_of sample_codec [[(''_id'', BInt32 7)]], None)"
    by (simp add: sample_codec_def)
  have st: "item_structure sample_env (wi_db sample_item) (wi_coll sample_item) = Inr empty_structure"
    by code_simp
  have enc: "enc_cmeta sample_codec (meta_of_data (item_data sample_item [[(''_id'', BInt32 7)]] empty_structure)) =
      Some [1]" by code_simp
  have dec: "dec_cmeta sample_codec [1] =
      Some (meta_of_data (item_data sample_item [[(''_id'', BInt32 7)]] empty_structure))" by code_simp
  have gone: "dir_exists (in_dump ''x'' (data_path (wi_db sample_item) (wi_coll sample_item) True)) [] = Inr False"
    by code_simp
  show ?thesis
    using dump_item_reads_back [OF fs_ok_Nil clean_examples(1,2) outs framed zip _ gone sample_dumped] st enc dec
    by (auto simp: wi)
qed

text \<open>A pool whose jobs return these results, in one possible order.\<close>

definition good_list :: "item_result list" where
  "good_list = [Inr (9, sample_item_toc), Inr (4, sample_item_toc\<lparr>toc_name := ''b''\<rparr>)]"

definition good_can :: "nat \<Rightarrow> item_result \<Rightarrow> bool" where
  "good_can i r = (r = good_list ! i)"

definition good_results :: "item_result option list" where
  "good_results = map Some good_list"

lemma good_outcome: "pool_outcome good_can isl 1 (length good_list) good_results"
  unfolding good_results_def by (rule pool_sequential) (simp add: good_can_def)

definition parallel_env :: dump_env where
  "parallel_env = sample_env\<lparr>du_options := sample_dump_options\<lparr>do_parallel_jobs := 2\<rparr>\<rparr>"

theorem parallel_dump_complete_witness:
  "\<exists>meta fs. dump_run sample_ext sample_codec dir_storage parallel_env (\<lambda>items jobs s. (good_results, s))
       ''x'' ''now'' [] = (Inr meta, fs)
     \<and> dm_databases meta = map (\<lambda>d. \<lparr>dt_name = [''d'', ''e''] ! d,
         dt_collections = entries_at d (zip [sample_item, bad_item] good_results)\<rparr>) [0..<2]"
proof -
  let ?par = "\<lambda>items jobs s. (good_results, s :: fsys)"
  let ?run = "dump_run sample_ext sample_codec dir_storage parallel_env ?par ''x'' ''now'' []"
  have en: "enumerate_items parallel_env = Inr ([''d'', ''e''], [sample_item, bad_item])" by code_simp
  have res: "item_results sample_ext sample_codec dir_storage parallel_env ''x'' ?par [sample_item, bad_item] [] =
      (good_results, [])"
    by (simp add: item_results_def Let_def parallel_env_def sample_dump_options_def)
  have "\<not> isl (fst ?run)" by code_simp
  then obtain meta fs where run: "?run = (Inr meta, fs)" by (cases ?run; cases "fst ?run") auto
  have "pool_outcome good_can isl 1 (length [sample_item, bad_item]) good_results"
    using good_outcome by (simp add: good_list_def)
  from parallel_dump_complete [OF en res this _ run] run show ?thesis
    by (simp add: numeral_2_eq_2)
qed

theorem failed_dump_has_no_metadata_witness:
  "\<exists>e' fs'. dump_run sample_ext sample_codec dir_storage sample_env (\<lambda>items jobs s. ([], s)) ''x'' ''now'' [] =
       (Inl e', fs') \<and> dir_exists (metadata_path ''x'') fs' = Inr False"
proof -
  let ?seq = "dump_sequential sample_ext sample_codec dir_storage sample_env ''x'' [sample_item, bad_item] []"
  obtain fs1 where seq: "?seq = (fst ?seq, fs1)" by (cases ?seq) auto
  have "fst ?seq ! 1 = Some (Inl (StorageError ''cannot serialize document''))" "length (fst ?seq) = 2"
    by code_simp+
  then have bad: "Some (Inl (StorageError ''cannot serialize document'')) \<in> set (fst ?seq)"
    by (metis nth_mem one_less_numeral_iff semiring_norm(76))
  have items: "\<forall>it \<in> set [sample_item, bad_item]. clean_item it" using clean_examples by simp
  have gone: "dir_exists (metadata_path ''x'') [] = Inr False" by code_simp
  have "do_parallel_jobs (du_options sample_env) \<le> 1" by code_simp
  from failed_dump_has_no_metadata [OF fs_ok_Nil clean_examples(1) gone sample_enumerate items this seq bad]
  show ?thesis .
qed

end
