(* ===== verification/Restore.thy ===== *)
theory Restore
  imports DumpRun
begin

text \<open>
  Restoring a dump (src/restore/database.rs) and the hook scripts around it (src/restore/scripts.rs):
  batched inserts with tolerated errors, the completeness check against the recorded document count,
  one collection, the whole run. Storage is only read; the target is the sink's state, which the
  scripts may change as well. The parallel branch takes the results its workers leave (\<open>par\<close>).
\<close>

section \<open>Hook scripts\<close>

record script_spec =
  sc_name :: "string option"
  sc_query :: "string option"
  sc_query_file :: "string option"
  sc_command :: "string list option"

datatype script_kind =
    Mongosh string
  | MongoshFile string
  | ScriptCommand "string list"

definition is_set :: "'a option \<Rightarrow> bool" where
  "is_set o' = (case o' of None \<Rightarrow> False | Some x \<Rightarrow> True)"

definition kind_of_script :: "script_spec \<Rightarrow> script_kind res" where
  "kind_of_script s =
     (let n = length (filter (\<lambda>b. b)
            [is_set (sc_query s), is_set (sc_query_file s),
             case sc_command s of None \<Rightarrow> False | Some c \<Rightarrow> c \<noteq> []])
      in if n \<noteq> 1 then
           Inl (RestoreError (''script '' @ quoted (case sc_name s of None \<Rightarrow> ''<unnamed>'' | Some m \<Rightarrow> m) @
             '' must set exactly one of query, query_file, or command''))
         else case sc_query s of
             Some q \<Rightarrow> Inr (Mongosh q)
           | None \<Rightarrow> (case sc_query_file s of
                 Some f \<Rightarrow> Inr (MongoshFile f)
               | None \<Rightarrow> (case sc_command s of
                     Some c \<Rightarrow> Inr (ScriptCommand c)
                   | None \<Rightarrow> Inl (Panicked ''called Option::unwrap() on a None value''))))"

record 't script_runner =
  run_mongosh :: "string \<Rightarrow> 't \<Rightarrow> unit res \<times> 't"
  run_mongosh_file :: "string \<Rightarrow> 't \<Rightarrow> unit res \<times> 't"
  run_command :: "string list \<Rightarrow> 't \<Rightarrow> unit res \<times> 't"

definition run_script :: "'t script_runner \<Rightarrow> script_spec \<Rightarrow> 't \<Rightarrow> unit res \<times> 't" where
  "run_script R s t =
     (case kind_of_script s of
        Inl e \<Rightarrow> (Inl e, t)
      | Inr (Mongosh q) \<Rightarrow> run_mongosh R q t
      | Inr (MongoshFile f) \<Rightarrow> run_mongosh_file R f t
      | Inr (ScriptCommand c) \<Rightarrow> run_command R c t)"

fun run_scripts :: "'t script_runner \<Rightarrow> script_spec list \<Rightarrow> 't \<Rightarrow> unit res \<times> 't" where
  "run_scripts R [] t = (Inr (), t)"
| "run_scripts R (s # ss) t =
     (case run_script R s t of (Inl e, t') \<Rightarrow> (Inl e, t') | (Inr u, t') \<Rightarrow> run_scripts R ss t')"

definition run_stage ::
    "(string \<times> script_spec list) list \<Rightarrow> string \<Rightarrow> 't script_runner \<Rightarrow> 't \<Rightarrow> unit res \<times> 't" where
  "run_stage stages stage R t =
     (case kv_get stage stages of None \<Rightarrow> (Inr (), t) | Some ss \<Rightarrow> run_scripts R ss t)"

text \<open>
  The real runner. Starting a process is the parameter: an error message when it cannot start, else
  whether it succeeded and how its status prints.
\<close>

type_synonym 't starter = "string \<Rightarrow> string list \<Rightarrow> 't \<Rightarrow> (string + bool \<times> string) \<times> 't"

definition run_process :: "'t starter \<Rightarrow> string \<Rightarrow> string list \<Rightarrow> string \<Rightarrow> string \<Rightarrow> 't \<Rightarrow> unit res \<times> 't" where
  "run_process sp bin args started what t =
     (case sp bin args t of
        (Inl e, t') \<Rightarrow> (Inl (RestoreError (''cannot start '' @ started @ '': '' @ e)), t')
      | (Inr (ok, shown), t') \<Rightarrow>
          (if ok then Inr () else Inl (RestoreError (''script '' @ what @ '' failed with '' @ shown)), t'))"

definition process_runner :: "'t starter \<Rightarrow> string \<Rightarrow> string \<Rightarrow> 't script_runner" where
  "process_runner sp mongosh uri =
     \<lparr>run_mongosh = (\<lambda>q. run_process sp mongosh [uri, ''--eval'', q] ''mongosh'' ''mongosh --eval''),
      run_mongosh_file = (\<lambda>f. run_process sp mongosh [uri, ''--file'', f] ''mongosh'' f),
      run_command = (\<lambda>argv t. case argv of
          [] \<Rightarrow> (Inl (RestoreError ''empty command''), t)
        | bin # args \<Rightarrow> run_process sp bin args bin bin t)\<rparr>"

section \<open>Options and results\<close>

record restore_options =
  ro_include_collections :: "string list"
  ro_exclude_collections :: "string list"
  ro_include_indexes :: "string list"
  ro_exclude_indexes :: "string list"
  ro_batch_size :: nat
  ro_ordered :: bool
  ro_dependency_order :: bool
  ro_exit_on_error :: bool
  ro_clean :: bool
  ro_parallel_jobs :: nat

definition restores_collection :: "restore_options \<Rightarrow> string \<Rightarrow> bool" where
  "restores_collection o' name = passes_filter (ro_include_collections o') (ro_exclude_collections o') name"

definition restores_index :: "restore_options \<Rightarrow> string \<Rightarrow> bool" where
  "restores_index o' name = passes_filter (ro_include_indexes o') (ro_exclude_indexes o') name"

record ('s, 't) restore_env =
  rs_codec :: codec
  rs_storage :: "'s storage"
  rs_store :: 's
  rs_sink :: "'t mongo_sink"
  rs_exclusions :: error_exclusions
  rs_scripts :: "(string \<times> script_spec list) list"
  rs_options :: restore_options

record restore_report =
  rp_inserted :: nat
  rp_skipped :: nat
  rp_indexes :: nat
  rp_failed :: "string list"

record restore_target =
  ri_db :: string
  ri_coll :: string

record insert_outcome =
  io_inserted :: nat
  io_skipped :: nat
  io_read :: nat

record item_report =
  ir_inserted :: nat
  ir_skipped :: nat
  ir_indexes :: nat
  ir_failed :: "string option"
  ir_fatal :: "error option"

definition no_outcome :: insert_outcome where
  "no_outcome = \<lparr>io_inserted = 0, io_skipped = 0, io_read = 0\<rparr>"

definition default_report :: item_report where
  "default_report =
     \<lparr>ir_inserted = 0, ir_skipped = 0, ir_indexes = 0, ir_failed = None, ir_fatal = None\<rparr>"

section \<open>Inserting documents\<close>

text \<open>\<open>{:?}\<close> of an optional code and of an optional name.\<close>

definition debug_char :: "char \<Rightarrow> string" where
  "debug_char c =
     (if c = CHR 0x22 then [CHR 0x5C, CHR 0x22]
      else if c = CHR 0x5C then [CHR 0x5C, CHR 0x5C]
      else if c = CHR 0x09 then [CHR 0x5C, CHR ''t'']
      else if c = CHR 0x0A then [CHR 0x5C, CHR ''n'']
      else if c = CHR 0x0D then [CHR 0x5C, CHR ''r'']
      else if c = CHR 0x00 then [CHR 0x5C, CHR ''0'']
      else if of_char c < (32 :: nat) \<or> of_char c = (127 :: nat) then
        [CHR 0x5C] @ ''u{'' @
          (let n = of_char c :: nat; h = (\<lambda>d. ''0123456789abcdef'' ! d)
           in if n < 16 then [h n] else [h (n div 16), h (n mod 16)]) @ ''}''
      else [c])"

definition debug_code :: "i32 option \<Rightarrow> string" where
  "debug_code c = (case c of None \<Rightarrow> ''None'' | Some n \<Rightarrow> ''Some('' @ show_int (sint n) @ '')'')"

definition debug_name :: "string option \<Rightarrow> string" where
  "debug_name o' =
     (case o' of
        None \<Rightarrow> ''None''
      | Some s \<Rightarrow> ''Some('' @ [CHR 0x22] @ concat (map debug_char s) @ [CHR 0x22] @ '')'')"

definition insert_failed :: "string \<Rightarrow> string \<Rightarrow> insert_error \<Rightarrow> error" where
  "insert_failed db coll e =
     RestoreError (''insert into '' @ db @ ''.'' @ coll @ '' failed (code '' @ debug_code (ie_code e) @
       '', index '' @ debug_name (ie_index e) @ '')'')"

text \<open>The loop over the failures of a batch: excluded ones are counted, the first other one ends it.\<close>

fun tolerate ::
    "error_exclusions \<Rightarrow> string \<Rightarrow> string \<Rightarrow> (nat \<times> insert_error) list \<Rightarrow> insert_outcome
       \<Rightarrow> insert_outcome \<times> unit res" where
  "tolerate ex db coll [] out = (out, Inr ())"
| "tolerate ex db coll ((i, e) # fs) out =
     (if is_excluded ex coll e then tolerate ex db coll fs (out\<lparr>io_skipped := io_skipped out + 1\<rparr>)
      else (out, Inl (insert_failed db coll e)))"

function insert_batch ::
    "('s, 't) restore_env \<Rightarrow> string \<Rightarrow> string \<Rightarrow> document list \<Rightarrow> insert_outcome \<Rightarrow> 't
       \<Rightarrow> insert_outcome \<times> unit res \<times> 't" where
  "insert_batch env db coll docs out t =
     (if docs = [] then (out, Inr (), t)
      else case sk_insert_many (rs_sink env) db coll docs (ro_ordered (rs_options env)) t of
             (Inl e, t1) \<Rightarrow> (out, Inl e, t1)
           | (Inr b, t1) \<Rightarrow>
               let out1 = out\<lparr>io_inserted := io_inserted out + bi_inserted b\<rparr>
               in if bi_failures b = [] then (out1, Inr (), t1)
                  else (case tolerate (rs_exclusions env) db coll (bi_failures b) out1 of
                          (out2, Inl e) \<Rightarrow> (out2, Inl e, t1)
                        | (out2, Inr u) \<Rightarrow>
                            if ro_ordered (rs_options env)
                            then insert_batch env db coll (drop (Suc (fst (hd (bi_failures b)))) docs) out2 t1
                            else (out2, Inr (), t1)))"
  by pat_completeness auto
termination
  by (relation "measure (\<lambda>(env, db, coll, docs, out, t). length docs)") auto

declare insert_batch.simps [simp del]

lemma next_batch_loop_length:
  "next_batch_loop C k out rd = Inr (b, rd') \<Longrightarrow>
     length out \<le> length b \<and> length (rd_bytes rd') + length b \<le> length (rd_bytes rd) + length out"
proof (induction k arbitrary: out rd)
  case (Suc k)
  obtain o' rd1 where n: "next_document C rd = Inr (o', rd1)"
    using Suc.prems by (cases "next_document C rd") auto
  show ?case
  proof (cases o')
    case None
    then have "rd1 = rd" using n by (auto simp: next_document_def Let_def split: if_splits option.splits)
    with None n Suc.prems show ?thesis by auto
  next
    case (Some d)
    have "length (rd_bytes rd1) < length (rd_bytes rd)" using n Some by (simp add: next_document_shorter)
    moreover have "next_batch_loop C k (out @ [d]) rd1 = Inr (b, rd')" using n Some Suc.prems by simp
    ultimately show ?thesis using Suc.IH by fastforce
  qed
qed simp

lemma next_batch_shorter:
  "next_batch C k rd = Inr (b, rd') \<Longrightarrow> b \<noteq> [] \<Longrightarrow> length (rd_bytes rd') < length (rd_bytes rd)"
  unfolding next_batch_def by (drule next_batch_loop_length) (cases b; simp)

function insert_loop_batches ::
    "('s, 't) restore_env \<Rightarrow> string \<Rightarrow> string \<Rightarrow> reader \<Rightarrow> insert_outcome \<Rightarrow> 't
       \<Rightarrow> insert_outcome \<times> unit res \<times> 't" where
  "insert_loop_batches env db coll rd out t =
     (case next_batch (rs_codec env) (max (ro_batch_size (rs_options env)) 1) rd of
        Inl e \<Rightarrow> (out, Inl e, t)
      | Inr (batch, rd') \<Rightarrow>
          if batch = [] then (out, Inr (), t)
          else (case insert_batch env db coll batch (out\<lparr>io_read := io_read out + length batch\<rparr>) t of
                  (out', Inl e, t') \<Rightarrow> (out', Inl e, t')
                | (out', Inr u, t') \<Rightarrow> insert_loop_batches env db coll rd' out' t'))"
  by pat_completeness auto
termination
  by (relation "measure (\<lambda>(env, db, coll, rd, out, t). length (rd_bytes rd))")
    (auto dest: next_batch_shorter)

declare insert_loop_batches.simps [simp del]

definition insert_documents ::
    "('s, 't) restore_env \<Rightarrow> string \<Rightarrow> string \<Rightarrow> string \<Rightarrow> 't \<Rightarrow> insert_outcome \<times> unit res \<times> 't" where
  "insert_documents env did db coll t =
     (case open_document_reader (rs_codec env) (rs_storage env) did db coll (rs_store env) of
        Inl e \<Rightarrow> (no_outcome, Inl e, t)
      | Inr rd \<Rightarrow> insert_loop_batches env db coll rd no_outcome t)"

section \<open>One collection\<close>

fun create_indexes ::
    "('s, 't) restore_env \<Rightarrow> string \<Rightarrow> string \<Rightarrow> index_spec list \<Rightarrow> nat \<Rightarrow> 't \<Rightarrow> nat res \<times> 't" where
  "create_indexes env db coll [] created t = (Inr created, t)"
| "create_indexes env db coll (ix # ixs) created t =
     (if ix_name ix = ''_id_'' then create_indexes env db coll ixs created t
      else if restores_index (rs_options env) (ix_name ix) then
        (case sk_create_index (rs_sink env) db coll ix t of
           (Inl e, t') \<Rightarrow> (Inl e, t')
         | (Inr u, t') \<Rightarrow> create_indexes env db coll ixs (created + 1) t')
      else create_indexes env db coll ixs created t)"

definition incomplete :: "string \<Rightarrow> string \<Rightarrow> nat \<Rightarrow> nat \<Rightarrow> error" where
  "incomplete db coll recorded got =
     RestoreError (db @ ''.'' @ coll @ '' is incomplete: the dump records '' @ show_nat recorded @
       '' documents but only '' @ show_nat got @
       '' could be read '' @ [CHR 0xE2, CHR 0x80, CHR 0x94] @ '' the data blob is truncated or corrupt'')"

definition check_complete :: "string \<Rightarrow> string \<Rightarrow> collection_meta \<Rightarrow> insert_outcome \<Rightarrow> unit res \<Rightarrow> unit res" where
  "check_complete db coll m out r =
     (case r of
        Inl e \<Rightarrow> Inl e
      | Inr u \<Rightarrow> if io_read out < cm_count m then Inl (incomplete db coll (cm_count m) (io_read out)) else Inr ())"

definition clean_step :: "('s, 't) restore_env \<Rightarrow> string \<Rightarrow> string \<Rightarrow> 't \<Rightarrow> unit res \<times> 't" where
  "clean_step env db coll t =
     (if ro_clean (rs_options env) then sk_drop (rs_sink env) db coll t else (Inr (), t))"

definition restore_item :: "('s, 't) restore_env \<Rightarrow> string \<Rightarrow> restore_target \<Rightarrow> 't \<Rightarrow> item_report \<times> 't" where
  "restore_item env did it t =
     (let db = ri_db it; coll = ri_coll it; o' = rs_options env
      in case read_collection_meta (rs_codec env) (rs_storage env) did db coll (rs_store env) of
           Inl e \<Rightarrow> (default_report\<lparr>ir_fatal := Some e\<rparr>, t)
         | Inr m \<Rightarrow>
           (case clean_step env db coll t of
              (Inl e, t1) \<Rightarrow> (default_report\<lparr>ir_fatal := Some e\<rparr>, t1)
            | (Inr u, t1) \<Rightarrow>
              (case sk_ensure (rs_sink env) db coll (cm_validator m) (cm_options m) t1 of
                 (Inl e, t2) \<Rightarrow> (default_report\<lparr>ir_fatal := Some e\<rparr>, t2)
               | (Inr u, t2) \<Rightarrow>
                 (case insert_documents env did db coll t2 of
                    (out, r, t3) \<Rightarrow>
                      let rep = default_report\<lparr>ir_inserted := io_inserted out, ir_skipped := io_skipped out\<rparr>
                      in case check_complete db coll m out r of
                           Inl e \<Rightarrow>
                             if ro_exit_on_error o' then (rep\<lparr>ir_fatal := Some e\<rparr>, t3)
                             else (rep\<lparr>ir_failed := Some (db @ ''.'' @ coll)\<rparr>, t3)
                         | Inr u \<Rightarrow>
                             if ro_dependency_order o' then (rep, t3)
                             else (case create_indexes env db coll (cm_indexes m) 0 t3 of
                                     (Inl e, t4) \<Rightarrow> (rep\<lparr>ir_fatal := Some e\<rparr>, t4)
                                   | (Inr n, t4) \<Rightarrow> (rep\<lparr>ir_indexes := n\<rparr>, t4))))))"

section \<open>The run\<close>

fun restore_sequential ::
    "('s, 't) restore_env \<Rightarrow> string \<Rightarrow> restore_target list \<Rightarrow> 't \<Rightarrow> item_report list \<times> 't" where
  "restore_sequential env did [] t = ([], t)"
| "restore_sequential env did (it # its) t =
     (case restore_item env did it t of
        (r, t1) \<Rightarrow> (case restore_sequential env did its t1 of (rs, t2) \<Rightarrow> (r # rs, t2)))"

definition restore_targets :: "restore_options \<Rightarrow> dump_metadata \<Rightarrow> restore_target list" where
  "restore_targets o' m =
     concat (map (\<lambda>db. map (\<lambda>c. \<lparr>ri_db = dt_name db, ri_coll = toc_name c\<rparr>)
       (filter (\<lambda>c. restores_collection o' (toc_name c)) (dt_collections db))) (dm_databases m))"

definition restore_results ::
    "('s, 't) restore_env \<Rightarrow> string
       \<Rightarrow> (restore_target list \<Rightarrow> nat \<Rightarrow> 't \<Rightarrow> item_report option list \<times> 't)
       \<Rightarrow> restore_target list \<Rightarrow> 't \<Rightarrow> item_report list \<times> 't" where
  "restore_results env did par items t =
     (let jobs = max (ro_parallel_jobs (rs_options env)) 1
      in if jobs \<le> 1 \<or> length items \<le> 1 then restore_sequential env did items t
         else (case par items jobs t of
                 (rs, t') \<Rightarrow> (map (\<lambda>r. case r of None \<Rightarrow> default_report | Some x \<Rightarrow> x) rs, t')))"

fun sum_reports :: "item_report list \<Rightarrow> restore_report \<Rightarrow> restore_report res" where
  "sum_reports [] rep = Inr rep"
| "sum_reports (r # rs) rep =
     (let rep' = rep\<lparr>rp_inserted := rp_inserted rep + ir_inserted r, rp_skipped := rp_skipped rep + ir_skipped r,
                     rp_indexes := rp_indexes rep + ir_indexes r,
                     rp_failed := rp_failed rep @ (case ir_failed r of None \<Rightarrow> [] | Some n \<Rightarrow> [n])\<rparr>
      in case ir_fatal r of Some e \<Rightarrow> Inl e | None \<Rightarrow> sum_reports rs rep')"

fun index_pass :: "('s, 't) restore_env \<Rightarrow> string \<Rightarrow> restore_target list \<Rightarrow> nat \<Rightarrow> 't \<Rightarrow> nat res \<times> 't" where
  "index_pass env did [] n t = (Inr n, t)"
| "index_pass env did (it # its) n t =
     (case read_collection_meta (rs_codec env) (rs_storage env) did (ri_db it) (ri_coll it) (rs_store env) of
        Inl e \<Rightarrow> (Inl e, t)
      | Inr m \<Rightarrow>
          (case create_indexes env (ri_db it) (ri_coll it) (cm_indexes m) 0 t of
             (Inl e, t') \<Rightarrow> (Inl e, t')
           | (Inr k, t') \<Rightarrow> index_pass env did its (n + k) t'))"

definition restore_tail ::
    "('s, 't) restore_env \<Rightarrow> 't script_runner \<Rightarrow> dump_metadata \<Rightarrow> restore_report \<Rightarrow> 't
       \<Rightarrow> restore_report res \<times> 't" where
  "restore_tail env R m rep t =
     (case (if ro_dependency_order (rs_options env)
            then index_pass env (dm_id m) (restore_targets (rs_options env) m) (rp_indexes rep) t
            else (Inr (rp_indexes rep), t)) of
        (Inl e, t1) \<Rightarrow> (Inl e, t1)
      | (Inr n, t1) \<Rightarrow>
          (case run_stage (rs_scripts env) ''post-data'' R t1 of
             (Inl e, t2) \<Rightarrow> (Inl e, t2)
           | (Inr u, t2) \<Rightarrow> (Inr (rep\<lparr>rp_indexes := n\<rparr>), t2)))"

definition restore_run ::
    "('s, 't) restore_env \<Rightarrow> (restore_target list \<Rightarrow> nat \<Rightarrow> 't \<Rightarrow> item_report option list \<times> 't)
       \<Rightarrow> 't script_runner \<Rightarrow> string \<Rightarrow> 't \<Rightarrow> restore_report res \<times> 't" where
  "restore_run env par R r t =
     (case resolve_dump (rs_codec env) (rs_storage env) r (rs_store env) of
        Inl e \<Rightarrow> (Inl e, t)
      | Inr m \<Rightarrow>
          (case run_stage (rs_scripts env) ''pre-data'' R t of
             (Inl e, t1) \<Rightarrow> (Inl e, t1)
           | (Inr u, t1) \<Rightarrow>
               (case restore_results env (dm_id m) par (restore_targets (rs_options env) m) t1 of
                  (rs, t2) \<Rightarrow>
                    (case sum_reports rs \<lparr>rp_inserted = 0, rp_skipped = 0, rp_indexes = 0, rp_failed = []\<rparr> of
                       Inl e \<Rightarrow> (Inl e, t2)
                     | Inr rep \<Rightarrow> restore_tail env R m rep t2))))"

section \<open>Accounting for documents\<close>

lemma tolerate_cases:
  "tolerate ex db coll fs out = (out', r) \<Longrightarrow>
     io_inserted out' = io_inserted out \<and> io_read out' = io_read out
     \<and> io_skipped out' \<le> io_skipped out + length fs
     \<and> (r = Inr () \<longrightarrow> io_skipped out' = io_skipped out + length fs \<and> (\<forall>f \<in> set fs. is_excluded ex coll (snd f)))"
proof (induction fs arbitrary: out)
  case (Cons f fs)
  obtain i e where f: "f = (i, e)" by (cases f)
  show ?case
  proof (cases "is_excluded ex coll e")
    case True
    with Cons.IH [of "out\<lparr>io_skipped := io_skipped out + 1\<rparr>"] Cons.prems f show ?thesis by auto
  next
    case False
    with Cons.prems f show ?thesis by auto
  qed
qed auto

text \<open>One step of the loop in \<open>insert_batch\<close>, for a batch that succeeds.\<close>

lemma insert_batch_step:
  assumes "insert_batch env db coll docs out t = (out', Inr (), t')" "docs \<noteq> []"
  obtains (all) b where "sk_insert_many (rs_sink env) db coll docs (ro_ordered (rs_options env)) t = (Inr b, t')"
      "bi_failures b = []" "out' = out\<lparr>io_inserted := io_inserted out + bi_inserted b\<rparr>"
  | (unordered) b where
      "sk_insert_many (rs_sink env) db coll docs (ro_ordered (rs_options env)) t = (Inr b, t')"
      "\<not> ro_ordered (rs_options env)" "bi_failures b \<noteq> []"
      "tolerate (rs_exclusions env) db coll (bi_failures b)
         (out\<lparr>io_inserted := io_inserted out + bi_inserted b\<rparr>) = (out', Inr ())"
  | (ordered) b out1 t1 where
      "sk_insert_many (rs_sink env) db coll docs (ro_ordered (rs_options env)) t = (Inr b, t1)"
      "ro_ordered (rs_options env)" "bi_failures b \<noteq> []"
      "tolerate (rs_exclusions env) db coll (bi_failures b)
         (out\<lparr>io_inserted := io_inserted out + bi_inserted b\<rparr>) = (out1, Inr ())"
      "insert_batch env db coll (drop (Suc (fst (hd (bi_failures b)))) docs) out1 t1 = (out', Inr (), t')"
proof -
  obtain r t1 where m: "sk_insert_many (rs_sink env) db coll docs (ro_ordered (rs_options env)) t = (r, t1)"
    by (rule prod.exhaust)
  obtain b where b: "r = Inr b"
    using assms m by (subst (asm) insert_batch.simps) (cases r; auto)
  let ?out1 = "out\<lparr>io_inserted := io_inserted out + bi_inserted b\<rparr>"
  obtain out2 q where tol: "tolerate (rs_exclusions env) db coll (bi_failures b) ?out1 = (out2, q)"
    by (rule prod.exhaust)
  note step = assms(1) [unfolded insert_batch.simps [of env db coll docs out t]]
  show ?thesis
  proof (cases "bi_failures b = []")
    case True
    with step assms(2) m b show ?thesis by (intro all [of b]) (auto simp: Let_def)
  next
    case False
    with step assms(2) m b tol have q: "q = Inr ()" by (cases q) (auto simp: Let_def)
    show ?thesis
    proof (cases "ro_ordered (rs_options env)")
      case True
      with step assms(2) m b tol q False show ?thesis
        by (intro ordered [of b t1 out2]) (auto simp: Let_def)
    next
      case no: False
      with step assms(2) m b tol q False show ?thesis
        by (intro unordered [of b]) (auto simp: Let_def)
    qed
  qed
qed

lemma insert_loop_batches_step:
  assumes "insert_loop_batches env db coll rd out t = (out', Inr (), t')"
  obtains (stop) rd' where
      "next_batch (rs_codec env) (max (ro_batch_size (rs_options env)) 1) rd = Inr ([], rd')" "out' = out" "t' = t"
  | (more) batch rd' out1 t1 where
      "next_batch (rs_codec env) (max (ro_batch_size (rs_options env)) 1) rd = Inr (batch, rd')" "batch \<noteq> []"
      "insert_batch env db coll batch (out\<lparr>io_read := io_read out + length batch\<rparr>) t = (out1, Inr (), t1)"
      "insert_loop_batches env db coll rd' out1 t1 = (out', Inr (), t')"
  using assms by (subst (asm) insert_loop_batches.simps) (auto split: sum.splits prod.splits if_splits)

context batch_sink begin

lemma insert_batch_conserves:
  assumes "sk_insert_many (rs_sink env) db coll = many"
    and "insert_batch env db coll docs out t = (out', Inr (), t')"
  shows "io_read out' = io_read out
    \<and> io_inserted out' + io_skipped out' = io_inserted out + io_skipped out + length docs"
  using assms(2)
proof (induction docs arbitrary: out t rule: length_induct)
  case (1 docs)
  show ?case
  proof (cases "docs = []")
    case True
    with "1.prems" show ?thesis by (simp add: insert_batch.simps)
  next
    case False
    show ?thesis
      using "1.prems" False
    proof (cases rule: insert_batch_step)
      case (all b)
      have "bi_inserted b = length docs"
        using all(1,2) ordered_stop [of docs t b t'] no_failure_all_in [of docs t b t']
        by (cases "ro_ordered (rs_options env)") (auto simp: assms(1))
      with all show ?thesis by simp
    next
      case (unordered b)
      with exhaustive [of docs t b t'] tolerate_cases [OF unordered(4)] show ?thesis by (simp add: assms(1))
    next
      case (ordered b out1 t1)
      obtain i e where i: "bi_failures b = [(i, e)]" "bi_inserted b = i" "i < length docs"
        using ordered_stop [of docs t b t1] ordered(1,2,3) by (auto simp: assms(1))
      then have l: "length (drop (Suc i) docs) < length docs" by simp
      from ordered(5) i have rest: "insert_batch env db coll (drop (Suc i) docs) out1 t1 = (out', Inr (), t')" by simp
      from "1.IH" [rule_format, OF l rest] tolerate_cases [OF ordered(4)] i show ?thesis by auto
    qed
  qed
qed

lemma insert_loop_batches_conserves:
  assumes "sk_insert_many (rs_sink env) db coll = many"
    and "insert_loop_batches env db coll rd out t = (out', Inr (), t')"
  shows "io_inserted out' + io_skipped out' + io_read out = io_inserted out + io_skipped out + io_read out'"
  using assms(2)
proof (induction rd arbitrary: out t rule: measure_induct_rule [of "\<lambda>rd. length (rd_bytes rd)"])
  case (less rd)
  show ?case
    using less.prems
  proof (cases rule: insert_loop_batches_step)
    case (more batch rd' out1 t1)
    from less.IH [OF next_batch_shorter [OF more(1,2)] more(4)] insert_batch_conserves [OF assms(1) more(3)]
    show ?thesis by simp
  qed simp
qed

end

section \<open>Batches against single inserts\<close>

text \<open>The specification of a restored collection: one insert per document, in dump order.\<close>

fun insert_each ::
    "error_exclusions \<Rightarrow> string \<Rightarrow> string \<Rightarrow> (document \<Rightarrow> 't \<Rightarrow> (insert_error + unit) \<times> 't)
       \<Rightarrow> document list \<Rightarrow> insert_outcome \<Rightarrow> 't \<Rightarrow> insert_outcome \<times> unit res \<times> 't" where
  "insert_each ex db coll ins [] out t = (out, Inr (), t)"
| "insert_each ex db coll ins (d # ds) out t =
     (case ins d t of
        (Inr u, t') \<Rightarrow> insert_each ex db coll ins ds (out\<lparr>io_inserted := io_inserted out + 1\<rparr>) t'
      | (Inl e, t') \<Rightarrow>
          if is_excluded ex coll e
          then insert_each ex db coll ins ds (out\<lparr>io_skipped := io_skipped out + 1\<rparr>) t'
          else (out, Inl (insert_failed db coll e), t'))"

lemma insert_each_append:
  "insert_each ex db coll ins xs out t = (out', Inr (), t') \<Longrightarrow>
     insert_each ex db coll ins (xs @ ys) out t = insert_each ex db coll ins ys out' t'"
  by (induction xs arbitrary: out t) (auto split: prod.splits sum.splits if_splits)

lemma insert_each_ordered:
  assumes "insert_loop ins docs i True b0 t = (b, t')" "bi_failures b0 = []"
  shows "\<exists>k. bi_inserted b = bi_inserted b0 + k
    \<and> (bi_failures b = [] \<and>
         insert_each ex db coll ins docs out t = (out\<lparr>io_inserted := io_inserted out + k\<rparr>, Inr (), t')
       \<or> (\<exists>e. bi_failures b = [(i + k, e)] \<and> insert_each ex db coll ins docs out t =
           (if is_excluded ex coll e
            then insert_each ex db coll ins (drop (Suc k) docs)
                   (out\<lparr>io_inserted := io_inserted out + k, io_skipped := io_skipped out + 1\<rparr>) t'
            else (out\<lparr>io_inserted := io_inserted out + k\<rparr>, Inl (insert_failed db coll e), t'))))"
  using assms
proof (induction docs arbitrary: i b0 out t)
  case Nil
  then show ?case by (intro exI [of _ 0]) auto
next
  case (Cons d ds)
  obtain r t1 where r: "ins d t = (r, t1)" by (cases "ins d t")
  show ?case
  proof (cases r)
    case (Inl e)
    with Cons.prems r show ?thesis by (intro exI [of _ 0]) (auto simp: Let_def)
  next
    case (Inr u)
    then have l: "insert_loop ins ds (Suc i) True (b0\<lparr>bi_inserted := bi_inserted b0 + 1\<rparr>) t1 = (b, t')"
      using Cons.prems r by simp
    obtain k where k: "bi_inserted b = bi_inserted b0 + 1 + k"
      "bi_failures b = [] \<and> insert_each ex db coll ins ds (out\<lparr>io_inserted := io_inserted out + 1\<rparr>) t1 =
         (out\<lparr>io_inserted := io_inserted out + 1 + k\<rparr>, Inr (), t')
       \<or> (\<exists>e. bi_failures b = [(Suc i + k, e)] \<and>
          insert_each ex db coll ins ds (out\<lparr>io_inserted := io_inserted out + 1\<rparr>) t1 =
           (if is_excluded ex coll e
            then insert_each ex db coll ins (drop (Suc k) ds)
                   (out\<lparr>io_inserted := io_inserted out + 1 + k, io_skipped := io_skipped out + 1\<rparr>) t'
            else (out\<lparr>io_inserted := io_inserted out + 1 + k\<rparr>, Inl (insert_failed db coll e), t')))"
      using Cons.IH [OF l, of "out\<lparr>io_inserted := io_inserted out + 1\<rparr>"] Cons.prems(2) by auto
    then show ?thesis using r Inr by (intro exI [of _ "Suc k"]) auto
  qed
qed

lemma insert_each_unordered:
  assumes "insert_loop ins docs i False b0 t = (b, t')"
    and "\<forall>f \<in> set (bi_failures b). is_excluded ex coll (snd f)"
  shows "\<exists>k n. bi_inserted b = bi_inserted b0 + k \<and> length (bi_failures b) = length (bi_failures b0) + n
    \<and> insert_each ex db coll ins docs out t =
       (out\<lparr>io_inserted := io_inserted out + k, io_skipped := io_skipped out + n\<rparr>, Inr (), t')"
  using assms
proof (induction docs arbitrary: i b0 out t)
  case Nil
  then show ?case by (intro exI [of _ 0]) auto
next
  case (Cons d ds)
  obtain r t1 where r: "ins d t = (r, t1)" by (cases "ins d t")
  show ?case
  proof (cases r)
    case (Inl e)
    let ?b0 = "b0\<lparr>bi_failures := bi_failures b0 @ [(i, e)]\<rparr>"
    have l: "insert_loop ins ds (Suc i) False ?b0 t1 = (b, t')"
      using Cons.prems r Inl by (simp add: Let_def)
    have "(i, e) \<in> set (bi_failures b)" using insert_loop_indices [OF l] by auto
    then have "is_excluded ex coll e" using Cons.prems(2) by fastforce
    with Cons.IH [OF l Cons.prems(2), of "out\<lparr>io_skipped := io_skipped out + 1\<rparr>"] r Inl show ?thesis
      by auto
  next
    case (Inr u)
    then have l: "insert_loop ins ds (Suc i) False (b0\<lparr>bi_inserted := bi_inserted b0 + 1\<rparr>) t1 = (b, t')"
      using Cons.prems r by simp
    from Cons.IH [OF l Cons.prems(2), of "out\<lparr>io_inserted := io_inserted out + 1\<rparr>"] r Inr show ?thesis
      by auto
  qed
qed

lemma insert_many_default_all:
  "insert_many_default ins db coll docs ord t = (r, t') \<Longrightarrow> \<exists>b. r = Inr b \<and> insert_loop (ins db coll) docs 0 ord empty_batch t = (b, t')"
  by (auto simp: insert_many_default_def split: prod.splits)

lemma insert_batch_each_all:
  assumes "sk_insert_many (rs_sink env) = insert_many_default (sk_insert (rs_sink env))"
    and "sk_insert_many (rs_sink env) db coll docs ord t = (Inr b, t')"
    and "\<forall>f \<in> set (bi_failures b). is_excluded (rs_exclusions env) coll (snd f)" "ord \<longrightarrow> bi_failures b = []"
  shows "insert_each (rs_exclusions env) db coll (sk_insert (rs_sink env) db coll) docs out t =
    (out\<lparr>io_inserted := io_inserted out + bi_inserted b, io_skipped := io_skipped out + length (bi_failures b)\<rparr>,
     Inr (), t')"
proof (cases ord)
  case True
  with assms(1,2) have l: "insert_loop (sk_insert (rs_sink env) db coll) docs 0 True empty_batch t = (b, t')"
    by (simp add: insert_many_default_cases)
  from insert_each_ordered [OF l, of "rs_exclusions env" db coll out] True assms(4) show ?thesis
    by (auto simp: empty_batch_def)
next
  case False
  with assms(1,2) have l: "insert_loop (sk_insert (rs_sink env) db coll) docs 0 False empty_batch t = (b, t')"
    by (simp add: insert_many_default_cases)
  from insert_each_unordered [OF l assms(3), of db out] show ?thesis by (auto simp: empty_batch_def)
qed

lemma insert_batch_each:
  assumes dflt: "sk_insert_many (rs_sink env) = insert_many_default (sk_insert (rs_sink env))"
    and "insert_batch env db coll docs out t = (out', Inr (), t')"
  shows "insert_each (rs_exclusions env) db coll (sk_insert (rs_sink env) db coll) docs out t = (out', Inr (), t')"
  using assms(2)
proof (induction docs arbitrary: out t rule: length_induct)
  case (1 docs)
  let ?ins = "sk_insert (rs_sink env) db coll"
  let ?each = "insert_each (rs_exclusions env) db coll ?ins"
  show ?case
  proof (cases "docs = []")
    case True
    with "1.prems" show ?thesis by (simp add: insert_batch.simps)
  next
    case False
    show ?thesis
      using "1.prems" False
    proof (cases rule: insert_batch_step)
      case (all b)
      from insert_batch_each_all [OF dflt all(1), of out] all(2-) show ?thesis by auto
    next
      case (unordered b)
      from insert_batch_each_all [OF dflt unordered(1), of out] unordered(2-) tolerate_cases [OF unordered(4)]
      show ?thesis by auto
    next
      case (ordered b out1 t1)
      have l: "insert_loop ?ins docs 0 True empty_batch t = (b, t1)"
        using ordered(1,2) by (simp add: dflt insert_many_default_cases)
      obtain k e where k: "bi_inserted b = k" "bi_failures b = [(k, e)]" "k < length docs"
        using insert_loop_ordered [OF l] ordered(3) by (auto simp: empty_batch_def)
      have "is_excluded (rs_exclusions env) coll e"
        and "out1 = out\<lparr>io_inserted := io_inserted out + k, io_skipped := io_skipped out + 1\<rparr>"
        using tolerate_cases [OF ordered(4)] k by auto
      then have "?each docs out t = ?each (drop (Suc k) docs) out1 t1"
        using insert_each_ordered [OF l, of "rs_exclusions env" db coll out] k by (auto simp: empty_batch_def)
      moreover have "insert_batch env db coll (drop (Suc k) docs) out1 t1 = (out', Inr (), t')"
        using ordered(5) k by simp
      moreover have "length (drop (Suc k) docs) < length docs" using k by simp
      ultimately show ?thesis using "1.IH" [rule_format, of "drop (Suc k) docs" out1 t1] by simp
    qed
  qed
qed

lemma insert_each_read:
  "insert_each ex db coll ins docs (out\<lparr>io_read := n\<rparr>) t =
     (case insert_each ex db coll ins docs out t of (o', r, t') \<Rightarrow> (o'\<lparr>io_read := n\<rparr>, r, t'))"
proof (induction docs arbitrary: out t)
  case (Cons d ds)
  obtain r t1 where r: "ins d t = (r, t1)" by (cases "ins d t")
  have swap: "out\<lparr>io_read := n, io_inserted := k\<rparr> = out\<lparr>io_inserted := k, io_read := n\<rparr>"
    "out\<lparr>io_read := n, io_skipped := k\<rparr> = out\<lparr>io_skipped := k, io_read := n\<rparr>" for k by simp_all
  show ?case
  proof (cases r)
    case (Inl e)
    then show ?thesis
      using r Cons [of "out\<lparr>io_skipped := io_skipped out + 1\<rparr>" t1] by (simp only: swap insert_each.simps) simp
  next
    case (Inr u)
    then show ?thesis
      using r Cons [of "out\<lparr>io_inserted := io_inserted out + 1\<rparr>" t1] by (simp only: swap insert_each.simps) simp
  qed
qed simp

lemma insert_each_keeps_read:
  "insert_each ex db coll ins docs out t = (out', r, t') \<Longrightarrow> io_read out' = io_read out"
  by (induction docs arbitrary: out t) (fastforce split: prod.splits sum.splits if_splits)+

lemma insert_loop_batches_each:
  assumes dflt: "sk_insert_many (rs_sink env) = insert_many_default (sk_insert (rs_sink env))"
    and "\<forall>d \<in> set docs. framed (rs_codec env) d"
    and "insert_loop_batches env db coll \<lparr>rd_bytes = blob_of (rs_codec env) docs, rd_end = None\<rparr> out t =
      (out', Inr (), t')"
  shows "insert_each (rs_exclusions env) db coll (sk_insert (rs_sink env) db coll) docs
      (out\<lparr>io_read := io_read out + length docs\<rparr>) t = (out', Inr (), t')"
  using assms(2,3)
proof (induction docs arbitrary: out t rule: length_induct)
  case (1 docs)
  let ?C = "rs_codec env" and ?n = "max (max (ro_batch_size (rs_options env)) 1) 1"
  let ?each = "insert_each (rs_exclusions env) db coll (sk_insert (rs_sink env) db coll)"
  have next_eq: "next_batch ?C (max (ro_batch_size (rs_options env)) 1) \<lparr>rd_bytes = blob_of ?C docs, rd_end = None\<rparr> =
      Inr (take ?n docs, \<lparr>rd_bytes = blob_of ?C (drop ?n docs), rd_end = None\<rparr>)"
    unfolding next_batch_def using next_batch_loop_blob [OF "1.prems"(1)] by simp
  from "1.prems"(2) show ?case
  proof (cases rule: insert_loop_batches_step)
    case (stop rd')
    then have "docs = []" using next_eq by auto
    with stop show ?thesis by simp
  next
    case (more batch rd' out1 t1)
    have b: "batch = take ?n docs" "rd' = \<lparr>rd_bytes = blob_of ?C (drop ?n docs), rd_end = None\<rparr>"
      using more(1) next_eq by simp_all
    have ne: "docs \<noteq> []" using more(2) b(1) by auto
    have one: "?each batch (out\<lparr>io_read := io_read out + length batch\<rparr>) t = (out1, Inr (), t1)"
      by (rule insert_batch_each [OF dflt more(3)])
    have read: "io_read out1 = io_read out + length batch" using insert_each_keeps_read [OF one] by simp
    have "length (drop ?n docs) < length docs" using ne by simp
    moreover have "\<forall>d \<in> set (drop ?n docs). framed ?C d" using "1.prems"(1) by (meson in_set_dropD)
    ultimately have two: "?each (drop ?n docs) (out1\<lparr>io_read := io_read out1 + length (drop ?n docs)\<rparr>) t1 =
        (out', Inr (), t')"
      using "1.IH" [rule_format, of "drop ?n docs"] more(4) b(2) by simp
    have len: "io_read out + length docs = io_read out1 + length (drop ?n docs)" using read b(1) by simp
    let ?m = "io_read out + length docs"
    have "?each batch (out\<lparr>io_read := ?m\<rparr>) t = (out1\<lparr>io_read := ?m\<rparr>, Inr (), t1)"
      using insert_each_read [where out = "out\<lparr>io_read := io_read out + length batch\<rparr>" and n = ?m and t = t
          and docs = batch and ins = "sk_insert (rs_sink env) db coll"] one by simp
    from insert_each_append [OF this, of "drop ?n docs"] two len b(1) show ?thesis by simp
  qed
qed

text \<open>Conversely, where single inserts succeed the batches do, whatever their size and mode.\<close>

lemma insert_loop_excluded:
  assumes "insert_loop ins docs i False b0 t = (b, t')"
    and "insert_each ex db coll ins docs out t = (out', Inr (), t'')"
  shows "\<forall>f \<in> set (bi_failures b). f \<in> set (bi_failures b0) \<or> is_excluded ex coll (snd f)"
  using assms
proof (induction docs arbitrary: i b0 out t)
  case (Cons d ds)
  obtain r t1 where r: "ins d t = (r, t1)" by (cases "ins d t")
  show ?case
  proof (cases r)
    case (Inl e)
    then have ex: "is_excluded ex coll e" using Cons.prems(2) r by (auto split: if_splits)
    have l: "insert_loop ins ds (Suc i) False (b0\<lparr>bi_failures := bi_failures b0 @ [(i, e)]\<rparr>) t1 = (b, t')"
      using Cons.prems(1) r Inl by (simp add: Let_def)
    from Cons.IH [OF l, of "out\<lparr>io_skipped := io_skipped out + 1\<rparr>"] Cons.prems(2) r Inl ex
    show ?thesis by auto
  next
    case (Inr u)
    then have l: "insert_loop ins ds (Suc i) False (b0\<lparr>bi_inserted := bi_inserted b0 + 1\<rparr>) t1 = (b, t')"
      using Cons.prems(1) r by simp
    from Cons.IH [OF l, of "out\<lparr>io_inserted := io_inserted out + 1\<rparr>"] Cons.prems(2) r Inr
    show ?thesis by auto
  qed
qed simp

lemma tolerate_all:
  "\<forall>f \<in> set fs. is_excluded ex coll (snd f) \<Longrightarrow>
     tolerate ex db coll fs out = (out\<lparr>io_skipped := io_skipped out + length fs\<rparr>, Inr ())"
  by (induction fs arbitrary: out) auto

lemma insert_batch_total_unordered:
  assumes "sk_insert_many (rs_sink env) = insert_many_default (sk_insert (rs_sink env))"
    and no: "\<not> ro_ordered (rs_options env)" and some: "docs \<noteq> []"
    and each: "insert_each (rs_exclusions env) db coll (sk_insert (rs_sink env) db coll) docs out t = (out', Inr (), t')"
  shows "insert_batch env db coll docs out t = (out', Inr (), t')"
proof -
  obtain b t1 where l: "insert_loop (sk_insert (rs_sink env) db coll) docs 0 False empty_batch t = (b, t1)"
    by (rule prod.exhaust)
  then have m: "sk_insert_many (rs_sink env) db coll docs False t = (Inr b, t1)"
    by (simp add: assms(1) insert_many_default_cases)
  have ex: "\<forall>f \<in> set (bi_failures b). is_excluded (rs_exclusions env) coll (snd f)"
    using insert_loop_excluded [OF l each] by (simp add: empty_batch_def)
  have "out' = out\<lparr>io_inserted := io_inserted out + bi_inserted b,
      io_skipped := io_skipped out + length (bi_failures b)\<rparr>" "t1 = t'"
    using insert_each_unordered [OF l ex, of db out] each by (auto simp: empty_batch_def)
  then show ?thesis
    using m some no tolerate_all [OF ex, of db] by (subst insert_batch.simps) (simp add: Let_def)
qed

text \<open>One ordered batch: the documents up to the first failure, then the rest.\<close>

lemma insert_each_ordered_step:
  assumes "sk_insert_many (rs_sink env) = insert_many_default (sk_insert (rs_sink env))"
    and "insert_each (rs_exclusions env) db coll (sk_insert (rs_sink env) db coll) docs out t = (out', Inr (), t')"
  obtains b t1 where "sk_insert_many (rs_sink env) db coll docs True t = (Inr b, t1)"
    and "bi_failures b = []" "out' = out\<lparr>io_inserted := io_inserted out + bi_inserted b\<rparr>" "t1 = t'"
  | b t1 e where "sk_insert_many (rs_sink env) db coll docs True t = (Inr b, t1)"
    and "bi_failures b = [(bi_inserted b, e)]" "is_excluded (rs_exclusions env) coll e"
    and "insert_each (rs_exclusions env) db coll (sk_insert (rs_sink env) db coll) (drop (Suc (bi_inserted b)) docs)
      (out\<lparr>io_inserted := io_inserted out + bi_inserted b, io_skipped := io_skipped out + 1\<rparr>) t1 = (out', Inr (), t')"
proof -
  obtain b t1 where l: "insert_loop (sk_insert (rs_sink env) db coll) docs 0 True empty_batch t = (b, t1)"
    by (rule prod.exhaust)
  then have "sk_insert_many (rs_sink env) db coll docs True t = (Inr b, t1)"
    by (simp add: assms(1) insert_many_default_cases)
  with that insert_each_ordered [OF l, of "rs_exclusions env" db coll out] assms(2) show thesis
    by (fastforce simp: empty_batch_def split: if_splits)
qed

lemma insert_batch_total:
  assumes dflt: "sk_insert_many (rs_sink env) = insert_many_default (sk_insert (rs_sink env))"
    and "insert_each (rs_exclusions env) db coll (sk_insert (rs_sink env) db coll) docs out t = (out', Inr (), t')"
  shows "insert_batch env db coll docs out t = (out', Inr (), t')"
  using assms(2)
proof (induction docs arbitrary: out t rule: length_induct)
  case (1 docs)
  consider "docs = []" | "docs \<noteq> []" "\<not> ro_ordered (rs_options env)" | "docs \<noteq> []" "ro_ordered (rs_options env)"
    by blast
  then show ?case
  proof cases
    case 1
    with "1.prems" show ?thesis by (simp add: insert_batch.simps)
  next
    case 2
    then show ?thesis using insert_batch_total_unordered [OF dflt _ _ "1.prems"] by simp
  next
    case 3
    show ?thesis
    proof (cases rule: insert_each_ordered_step [OF dflt "1.prems"])
      case (1 b t1)
      with 3 show ?thesis by (subst insert_batch.simps) (simp add: Let_def)
    next
      case (2 b t1 e)
      have "length (drop (Suc (bi_inserted b)) docs) < length docs" using 3(1) by (cases docs) auto
      note "1.IH" [rule_format, OF this 2(4)]
      with 2(1-3) 3 show ?thesis by (subst insert_batch.simps) (simp add: Let_def)
    qed
  qed
qed

lemma insert_each_split:
  "insert_each ex db coll ins (xs @ ys) out t = (out', Inr (), t') \<Longrightarrow>
     \<exists>out1 t1. insert_each ex db coll ins xs out t = (out1, Inr (), t1)
       \<and> insert_each ex db coll ins ys out1 t1 = (out', Inr (), t')"
  by (induction xs arbitrary: out t) (auto split: prod.splits sum.splits if_splits)

lemma insert_loop_batches_total:
  assumes dflt: "sk_insert_many (rs_sink env) = insert_many_default (sk_insert (rs_sink env))"
    and "\<forall>d \<in> set docs. framed (rs_codec env) d"
    and "insert_each (rs_exclusions env) db coll (sk_insert (rs_sink env) db coll) docs
      (out\<lparr>io_read := io_read out + length docs\<rparr>) t = (out', Inr (), t')"
  shows "insert_loop_batches env db coll \<lparr>rd_bytes = blob_of (rs_codec env) docs, rd_end = None\<rparr> out t =
      (out', Inr (), t')"
  using assms(2,3)
proof (induction docs arbitrary: out t rule: length_induct)
  case (1 docs)
  let ?C = "rs_codec env" and ?n = "max (max (ro_batch_size (rs_options env)) 1) 1"
  let ?each = "insert_each (rs_exclusions env) db coll (sk_insert (rs_sink env) db coll)"
  let ?b = "take ?n docs" and ?r = "drop ?n docs" and ?m = "io_read out + length docs"
  have next_eq: "next_batch ?C (max (ro_batch_size (rs_options env)) 1) \<lparr>rd_bytes = blob_of ?C docs, rd_end = None\<rparr> =
      Inr (?b, \<lparr>rd_bytes = blob_of ?C ?r, rd_end = None\<rparr>)"
    unfolding next_batch_def using next_batch_loop_blob [OF "1.prems"(1)] by simp
  show ?case
  proof (cases "docs = []")
    case True
    with "1.prems"(2) next_eq show ?thesis by (subst insert_loop_batches.simps) simp
  next
    case False
    have all: "?each (?b @ ?r) (out\<lparr>io_read := ?m\<rparr>) t = (out', Inr (), t')" using "1.prems"(2) by simp
    obtain out1 t1 where each: "?each ?b (out\<lparr>io_read := ?m\<rparr>) t = (out1, Inr (), t1)"
      "?each ?r out1 t1 = (out', Inr (), t')" using insert_each_split [OF all] by auto
    let ?k = "io_read out + length ?b"
    have one: "?each ?b (out\<lparr>io_read := ?k\<rparr>) t = (out1\<lparr>io_read := ?k\<rparr>, Inr (), t1)"
      using insert_each_read [where out = "out\<lparr>io_read := ?m\<rparr>" and n = ?k and t = t
          and docs = ?b and ins = "sk_insert (rs_sink env) db coll"] each(1) by simp
    have "?k + length ?r = io_read out1" using insert_each_keeps_read [OF each(1)] by simp
    then have "out1\<lparr>io_read := ?k, io_read := ?k + length ?r\<rparr> = out1" by simp
    then have "?each ?r (out1\<lparr>io_read := ?k, io_read := ?k + length ?r\<rparr>) t1 = (out', Inr (), t')"
      using each(2) by simp
    moreover have "length ?r < length docs" using False by simp
    moreover have "\<forall>d \<in> set ?r. framed ?C d" using "1.prems"(1) by (meson in_set_dropD)
    ultimately have "insert_loop_batches env db coll \<lparr>rd_bytes = blob_of ?C ?r, rd_end = None\<rparr>
        (out1\<lparr>io_read := ?k\<rparr>) t1 = (out', Inr (), t')"
      using "1.IH" [rule_format, of ?r "out1\<lparr>io_read := ?k\<rparr>" t1] by simp
    moreover have "insert_batch env db coll ?b (out\<lparr>io_read := ?k\<rparr>) t = (out1\<lparr>io_read := ?k\<rparr>, Inr (), t1)"
      by (rule insert_batch_total [OF dflt one])
    ultimately show ?thesis using next_eq False by (subst insert_loop_batches.simps) simp
  qed
qed

section \<open>Lemmas on the run\<close>

lemma run_scripts_append:
  "run_scripts R xs t = (Inr (), t1) \<Longrightarrow> run_scripts R (xs @ ys) t = run_scripts R ys t1"
  by (induction xs arbitrary: t) (auto split: prod.splits sum.splits)

lemma sum_reports_spec:
  "sum_reports rs rep = Inr rep' \<Longrightarrow>
     (\<forall>r \<in> set rs. ir_fatal r = None)
     \<and> rp_inserted rep' = rp_inserted rep + sum_list (map ir_inserted rs)
     \<and> rp_skipped rep' = rp_skipped rep + sum_list (map ir_skipped rs)
     \<and> rp_failed rep' = rp_failed rep @ concat (map (\<lambda>r. case ir_failed r of None \<Rightarrow> [] | Some n \<Rightarrow> [n]) rs)"
proof (induction rs arbitrary: rep)
  case (Cons r rs)
  have fatal: "ir_fatal r = None" using Cons.prems by (auto simp: Let_def split: option.splits)
  let ?rep = "rep\<lparr>rp_inserted := rp_inserted rep + ir_inserted r, rp_skipped := rp_skipped rep + ir_skipped r,
       rp_indexes := rp_indexes rep + ir_indexes r,
       rp_failed := rp_failed rep @ (case ir_failed r of None \<Rightarrow> [] | Some n \<Rightarrow> [n])\<rparr>"
  have "sum_reports rs ?rep = Inr rep'" using Cons.prems fatal by (simp add: Let_def)
  from Cons.IH [OF this] fatal show ?case by simp
qed simp

lemma restore_tail_keeps:
  "restore_tail env R m rep t = (Inr rep', t') \<Longrightarrow>
     rp_inserted rep' = rp_inserted rep \<and> rp_skipped rep' = rp_skipped rep \<and> rp_failed rep' = rp_failed rep"
  by (auto simp: restore_tail_def split: if_splits sum.splits prod.splits)

text \<open>A run that succeeds got through the scripts and the sum of its reports.\<close>

lemma restore_run_success:
  assumes "restore_run env par R r t = (Inr rep, t')" "resolve_dump (rs_codec env) (rs_storage env) r (rs_store env) = Inr m"
    and "run_stage (rs_scripts env) ''pre-data'' R t = (p, t1)"
    and "restore_results env (dm_id m) par (restore_targets (rs_options env) m) t1 = (rs, t2)"
  shows "p = Inr () \<and> (\<forall>r \<in> set rs. ir_fatal r = None)
    \<and> rp_inserted rep = sum_list (map ir_inserted rs) \<and> rp_skipped rep = sum_list (map ir_skipped rs)
    \<and> rp_failed rep = concat (map (\<lambda>r. case ir_failed r of None \<Rightarrow> [] | Some n \<Rightarrow> [n]) rs)"
proof -
  let ?zero = "\<lparr>rp_inserted = 0, rp_skipped = 0, rp_indexes = 0, rp_failed = []\<rparr>"
  have p: "p = Inr ()" using assms by (cases p) (auto simp: restore_run_def)
  obtain rep1 where "sum_reports rs ?zero = Inr rep1"
    using assms p by (cases "sum_reports rs ?zero") (auto simp: restore_run_def)
  moreover from this have "restore_tail env R m rep1 t2 = (Inr rep, t')"
    using assms p by (simp add: restore_run_def)
  ultimately show ?thesis using sum_reports_spec [of rs ?zero rep1] restore_tail_keeps p by fastforce
qed

lemma restore_sequential_items:
  "restore_sequential env did items t = (rs, t') \<Longrightarrow> it \<in> set items \<Longrightarrow>
     \<exists>r \<in> set rs. \<exists>u u'. restore_item env did it u = (r, u')"
  by (induction items arbitrary: t rs) (fastforce split: prod.splits)+

text \<open>The report of a collection.\<close>

lemma restore_item_clean:
  assumes "restore_item env did it t = (rep, t')" "ir_failed rep = None" "ir_fatal rep = None"
  obtains m t2 out t3 where
    "read_collection_meta (rs_codec env) (rs_storage env) did (ri_db it) (ri_coll it) (rs_store env) = Inr m"
    "insert_documents env did (ri_db it) (ri_coll it) t2 = (out, Inr (), t3)" "cm_count m \<le> io_read out"
    "ir_inserted rep = io_inserted out" "ir_skipped rep = io_skipped out"
  using assms
  by (auto simp: restore_item_def Let_def check_complete_def default_report_def
      split: sum.splits prod.splits if_splits)

lemma restore_item_failed:
  assumes "restore_item env did it t = (rep, t')" "ir_failed rep = Some n"
  shows "n = ri_db it @ ''.'' @ ri_coll it"
  using assms
  by (auto simp: restore_item_def Let_def default_report_def split: sum.splits prod.splits if_splits)

context batch_sink begin

lemma restore_item_counts:
  assumes "sk_insert_many (rs_sink env) (ri_db it) (ri_coll it) = many"
    and "restore_item env did it t = (rep, t')" "ir_failed rep = None" "ir_fatal rep = None"
  shows "\<exists>m. read_collection_meta (rs_codec env) (rs_storage env) did (ri_db it) (ri_coll it) (rs_store env) = Inr m
    \<and> cm_count m \<le> ir_inserted rep + ir_skipped rep"
  using assms(2-4)
proof (cases rule: restore_item_clean)
  case (1 m t2 out t3)
  obtain rd where "insert_loop_batches env (ri_db it) (ri_coll it) rd no_outcome t2 = (out, Inr (), t3)"
    using 1(2) by (auto simp: insert_documents_def split: sum.splits)
  from insert_loop_batches_conserves [OF assms(1) this] 1 show ?thesis by (auto simp: no_outcome_def)
qed

end

section \<open>Properties\<close>

text \<open>
  C12. Batch size and write mode change nothing but speed: whatever the batch size, ordered or not,
  restoring the documents of a blob succeeds exactly when inserting them one by one, skipping the
  excluded errors, does; then the target and the counts are the same.
\<close>

theorem restore_batching_irrelevant:
  assumes "sk_insert_many (rs_sink env) = insert_many_default (sk_insert (rs_sink env))"
    and "\<forall>d \<in> set docs. framed (rs_codec env) d"
    and "open_document_reader (rs_codec env) (rs_storage env) did db coll (rs_store env) =
      Inr \<lparr>rd_bytes = blob_of (rs_codec env) docs, rd_end = None\<rparr>"
  shows "insert_documents env did db coll t = (out, Inr (), t') \<longleftrightarrow>
    insert_each (rs_exclusions env) db coll (sk_insert (rs_sink env) db coll) docs
      (no_outcome\<lparr>io_read := length docs\<rparr>) t = (out, Inr (), t')"
proof -
  have z: "no_outcome\<lparr>io_read := io_read no_outcome + length docs\<rparr> = no_outcome\<lparr>io_read := length docs\<rparr>"
    by (simp add: no_outcome_def)
  show ?thesis
    using insert_loop_batches_each [OF assms(1,2), of db coll no_outcome t out t', unfolded z]
      insert_loop_batches_total [OF assms(1,2), of db coll no_outcome t out t', unfolded z]
    by (auto simp: insert_documents_def assms(3))
qed

text \<open>
  C9. No document is lost silently: when a collection is restored without a failure, at least as many
  documents as the dump recorded were inserted or skipped as an excluded error, on any sink whose
  batches account for their documents.
\<close>

theorem restore_item_complete:
  assumes "batch_sink (sk_insert_many (rs_sink env) (ri_db it) (ri_coll it))"
    and "restore_item env did it t = (rep, t')" "ir_failed rep = None" "ir_fatal rep = None"
  shows "\<exists>m. read_collection_meta (rs_codec env) (rs_storage env) did (ri_db it) (ri_coll it) (rs_store env) = Inr m
    \<and> cm_count m \<le> ir_inserted rep + ir_skipped rep"
  using batch_sink.restore_item_counts [OF assms(1) refl assms(2-4)] .

text \<open>
  A restore that reports success has restored every selected collection: each is either listed as
  failed or complete against the count the dump recorded.
\<close>

theorem restore_success_accounts:
  assumes "\<And>db coll. batch_sink (sk_insert_many (rs_sink env) db coll)"
    and "ro_parallel_jobs (rs_options env) \<le> 1"
    and "resolve_dump (rs_codec env) (rs_storage env) r (rs_store env) = Inr m"
    and "restore_run env par R r t = (Inr rep, t')"
    and "it \<in> set (restore_targets (rs_options env) m)"
  shows "ri_db it @ ''.'' @ ri_coll it \<in> set (rp_failed rep)
    \<or> (\<exists>cm u ir u'. restore_item env (dm_id m) it u = (ir, u')
        \<and> read_collection_meta (rs_codec env) (rs_storage env) (dm_id m) (ri_db it) (ri_coll it) (rs_store env) = Inr cm
        \<and> cm_count cm \<le> ir_inserted ir + ir_skipped ir)"
proof -
  let ?its = "restore_targets (rs_options env) m"
  obtain p t1 where p: "run_stage (rs_scripts env) ''pre-data'' R t = (p, t1)" by (rule prod.exhaust)
  obtain rs t2 where rs: "restore_results env (dm_id m) par ?its t1 = (rs, t2)" by (rule prod.exhaust)
  then have seq: "restore_sequential env (dm_id m) ?its t1 = (rs, t2)"
    using assms(2) by (simp add: restore_results_def)
  obtain ir u u' where ir: "ir \<in> set rs" "restore_item env (dm_id m) it u = (ir, u')"
    using restore_sequential_items [OF seq assms(5)] by blast
  note run = restore_run_success [OF assms(4,3) p rs]
  show ?thesis
  proof (cases "ir_failed ir")
    case None
    have "ir_fatal ir = None" using run ir(1) by simp
    from batch_sink.restore_item_counts [OF assms(1) refl ir(2) None this] obtain cm where
      "read_collection_meta (rs_codec env) (rs_storage env) (dm_id m) (ri_db it) (ri_coll it) (rs_store env) = Inr cm"
      "cm_count cm \<le> ir_inserted ir + ir_skipped ir" by auto
    with ir(2) show ?thesis by (intro disjI2 exI conjI)
  next
    case (Some n)
    then have "n \<in> set (rp_failed rep)" using run ir(1) by force
    with restore_item_failed [OF ir(2) Some] show ?thesis by simp
  qed
qed

text \<open>
  C14. A parallel restore drops no collection: if the run succeeds, no worker's slot was left empty, every
  collection has a result without a fatal error, and the totals are the sums over all of them.
\<close>

theorem parallel_restore_complete:
  assumes "resolve_dump (rs_codec env) (rs_storage env) r (rs_store env) = Inr m"
    and "run_stage (rs_scripts env) ''pre-data'' R t = (Inr (), t1)"
    and "items = restore_targets (rs_options env) m" "1 < length items"
    and "1 < ro_parallel_jobs (rs_options env)"
    and "par items (ro_parallel_jobs (rs_options env)) t1 = (results, t2)"
    and "pool_outcome can (\<lambda>r. ir_fatal r \<noteq> None \<and> ro_exit_on_error (rs_options env)) jobs (length items) results"
    and "0 < jobs"
    and "restore_run env par R r t = (Inr rep, t')"
  shows "\<exists>rs. results = map Some rs \<and> length rs = length items
    \<and> (\<forall>i < length items. can i (rs ! i) \<and> ir_fatal (rs ! i) = None)
    \<and> rp_inserted rep = sum_list (map ir_inserted rs) \<and> rp_skipped rep = sum_list (map ir_skipped rs)"
proof -
  let ?fill = "\<lambda>r. case r of None \<Rightarrow> default_report | Some x \<Rightarrow> x"
  have pool: "length results = length items"
    "\<And>i r. i < length items \<Longrightarrow> results ! i = Some r \<Longrightarrow> can i r"
    "\<And>i. i < length items \<Longrightarrow> results ! i = None \<Longrightarrow>
       \<exists>j < length items. \<exists>r. results ! j = Some r \<and> ir_fatal r \<noteq> None"
    using pool_outcome_results [OF assms(7,8)] by (simp, simp, fastforce)
  have rs: "restore_results env (dm_id m) par (restore_targets (rs_options env) m) t1 = (map ?fill results, t2)"
    using assms(3-6) by (simp add: restore_results_def Let_def)
  note run = restore_run_success [OF assms(9,1,2) rs]
  have fatal: "ir_fatal (?fill (results ! i)) = None" if "i < length items" for i
  proof -
    have "?fill (results ! i) \<in> set (map ?fill results)" using that pool(1) by simp
    with run show ?thesis by blast
  qed
  have some: "results ! i \<noteq> None" if i: "i < length items" for i
  proof
    assume "results ! i = None"
    then obtain j r where "j < length items" "results ! j = Some r" "ir_fatal r \<noteq> None" using pool(3) i by blast
    with fatal [of j] show False by simp
  qed
  define rs' where "rs' = map ?fill results"
  have len: "length rs' = length items" using pool(1) by (simp add: rs'_def)
  have at: "results ! i = Some (rs' ! i)" if i: "i < length items" for i
    using some [OF i] i pool(1) by (auto simp: rs'_def)
  have "results = map Some rs'" by (rule nth_equalityI) (simp_all add: len pool(1) at)
  moreover have "can i (rs' ! i) \<and> ir_fatal (rs' ! i) = None" if i: "i < length items" for i
    using pool(2) [OF i at [OF i]] fatal [OF i] at [OF i] by simp
  ultimately show ?thesis using run len unfolding rs'_def [symmetric] by blast
qed

text \<open>
  A failing hook stops the restore: scripts run in order up to the first one that fails, and if that is
  before the data, the restore fails with its error and the target is as that script left it.
\<close>

theorem pre_script_failure_stops:
  assumes "resolve_dump (rs_codec env) (rs_storage env) r (rs_store env) = Inr m"
    and "kv_get ''pre-data'' (rs_scripts env) = Some (xs @ y # ys)"
    and "run_scripts R xs t = (Inr (), t1)" "run_script R y t1 = (Inl e, t2)"
  shows "restore_run env par R r t = (Inl e, t2)"
  using assms run_scripts_append [OF assms(3), of "y # ys"]
  by (simp add: restore_run_def run_stage_def)

section \<open>An example\<close>

text \<open>A stored dump of \<open>d.c\<close> with two documents, and the metadata naming it.\<close>

definition restore_codec :: codec where
  "restore_codec = sample_codec\<lparr>dec_meta := (\<lambda>bs. Some
     \<lparr>dm_id = ''x'', dm_status = Done, dm_created_at = ''2024'',
      dm_databases = [\<lparr>dt_name = ''d'', dt_collections =
        [\<lparr>toc_name = ''c'', toc_count = 2, toc_indexes = [], toc_order = 0\<rparr>,
         \<lparr>toc_name = ''c2'', toc_count = 0, toc_indexes = [], toc_order = 1\<rparr>]\<rparr>],
      dm_size = 0\<rparr>)\<rparr>"

definition sample_store :: fsys where
  "sample_store = snd (dir_put ''x/metadata.json'' [97]
     (snd (write_collection_data sample_codec dir_storage ''x'' sample_data False [])))"

definition sample_restore_options :: restore_options where
  "sample_restore_options =
     \<lparr>ro_include_collections = [''c''], ro_exclude_collections = [], ro_include_indexes = [],
      ro_exclude_indexes = [], ro_batch_size = 1, ro_ordered = True, ro_dependency_order = False,
      ro_exit_on_error = True, ro_clean = True, ro_parallel_jobs = 1\<rparr>"

definition sample_restore :: "(fsys, mem) restore_env" where
  "sample_restore =
     \<lparr>rs_codec = restore_codec, rs_storage = dir_storage, rs_store = sample_store, rs_sink = mem_sink,
      rs_exclusions = \<lparr>global_codes = [11000], global_indexes = [], ex_collections = []\<rparr>,
      rs_scripts = [(''pre-data'',
        [\<lparr>sc_name = None, sc_query = Some ''ok'', sc_query_file = None, sc_command = None\<rparr>,
         \<lparr>sc_name = None, sc_query = Some ''fail'', sc_query_file = None, sc_command = None\<rparr>,
         \<lparr>sc_name = None, sc_query = Some ''ok'', sc_query_file = None, sc_command = None\<rparr>])],
      rs_options = sample_restore_options\<rparr>"

definition sample_runner :: "mem script_runner" where
  "sample_runner = process_runner (\<lambda>bin args t. (Inr (last args \<noteq> ''fail'', ''exit status: 1''), t)) ''mongosh'' ''uri''"

definition sample_target :: restore_target where
  "sample_target = \<lparr>ri_db = ''d'', ri_coll = ''c''\<rparr>"

lemma sample_restore_sink: "batch_sink (sk_insert_many (rs_sink sample_restore) db coll)"
  using mem_batch.batch_sink_axioms [of db coll] by (simp add: sample_restore_def)

lemma sample_resolved:
  "\<exists>m. resolve_dump (rs_codec sample_restore) (rs_storage sample_restore) ''latest'' (rs_store sample_restore) = Inr m
    \<and> dm_id m = ''x'' \<and> restore_targets sample_restore_options m = [sample_target]
    \<and> length (restore_targets (sample_restore_options\<lparr>ro_include_collections := []\<rparr>) m) = 2"
proof -
  let ?r = "resolve_dump (rs_codec sample_restore) (rs_storage sample_restore) ''latest'' (rs_store sample_restore)"
  have "case ?r of Inl e \<Rightarrow> False | Inr m \<Rightarrow> dm_id m = ''x'' \<and> restore_targets sample_restore_options m = [sample_target]
    \<and> length (restore_targets (sample_restore_options\<lparr>ro_include_collections := []\<rparr>) m) = 2"
    by code_simp
  then show ?thesis by (cases ?r) auto
qed

theorem restore_batching_irrelevant_witness:
  "\<exists>t'. insert_documents sample_restore ''x'' ''d'' ''c'' [] =
     (\<lparr>io_inserted = 2, io_skipped = 0, io_read = 2\<rparr>, Inr (), t')"
proof -
  have dflt: "sk_insert_many (rs_sink sample_restore) = insert_many_default (sk_insert (rs_sink sample_restore))"
    by (simp add: sample_restore_def mem_sink_def)
  have "list_all (framed (rs_codec sample_restore)) sample_docs" by code_simp
  then have framed: "\<forall>d \<in> set sample_docs. framed (rs_codec sample_restore) d" by (simp add: list_all_iff)
  have rd: "open_document_reader (rs_codec sample_restore) (rs_storage sample_restore) ''x'' ''d'' ''c''
      (rs_store sample_restore) = Inr \<lparr>rd_bytes = blob_of (rs_codec sample_restore) sample_docs, rd_end = None\<rparr>"
    by code_simp
  let ?each = "insert_each (rs_exclusions sample_restore) ''d'' ''c'' (sk_insert (rs_sink sample_restore) ''d'' ''c'')
      sample_docs (no_outcome\<lparr>io_read := length sample_docs\<rparr>) []"
  have "fst ?each = \<lparr>io_inserted = 2, io_skipped = 0, io_read = 2\<rparr> \<and> fst (snd ?each) = Inr ()" by code_simp
  then have "?each = (\<lparr>io_inserted = 2, io_skipped = 0, io_read = 2\<rparr>, Inr (), snd (snd ?each))"
    by (metis prod.collapse)
  then show ?thesis using restore_batching_irrelevant [OF dflt framed rd, of "[]"] by blast
qed

lemma sample_restored:
  "case restore_item sample_restore ''x'' sample_target [] of (rep, t) \<Rightarrow> ir_failed rep = None \<and> ir_fatal rep = None
     \<and> ir_inserted rep = 2 \<and> ir_skipped rep = 0"
  by code_simp

theorem restore_item_complete_witness:
  "\<exists>m rep t. restore_item sample_restore ''x'' sample_target [] = (rep, t)
     \<and> read_collection_meta (rs_codec sample_restore) (rs_storage sample_restore) ''x'' ''d'' ''c''
         (rs_store sample_restore) = Inr m
     \<and> cm_count m \<le> ir_inserted rep + ir_skipped rep"
proof -
  obtain rep t where r: "restore_item sample_restore ''x'' sample_target [] = (rep, t)" by (rule prod.exhaust)
  with sample_restored have "ir_failed rep = None" "ir_fatal rep = None" by auto
  from restore_item_complete [OF sample_restore_sink r this] r show ?thesis
    by (auto simp: sample_target_def)
qed

text \<open>The same without scripts.\<close>

definition quiet_restore :: "(fsys, mem) restore_env" where
  "quiet_restore = sample_restore\<lparr>rs_scripts := []\<rparr>"

theorem restore_success_accounts_witness:
  "\<exists>rep t'. restore_run quiet_restore (\<lambda>its jobs t. ([], t)) sample_runner ''latest'' [] = (Inr rep, t')
     \<and> (''d.c'' \<in> set (rp_failed rep)
        \<or> (\<exists>(cm :: collection_meta) u ir u'. restore_item quiet_restore ''x'' sample_target u = (ir, u')
            \<and> cm_count cm \<le> ir_inserted ir + ir_skipped ir))"
proof -
  let ?par = "\<lambda>its jobs t. ([], t :: mem)"
  let ?run = "restore_run quiet_restore ?par sample_runner ''latest'' []"
  have sink: "batch_sink (sk_insert_many (rs_sink quiet_restore) db coll)" for db coll
    using sample_restore_sink [of db coll] by (simp add: quiet_restore_def)
  have jobs: "ro_parallel_jobs (rs_options quiet_restore) \<le> 1" by code_simp
  obtain m where m: "resolve_dump (rs_codec quiet_restore) (rs_storage quiet_restore) ''latest'' (rs_store quiet_restore) = Inr m"
    "dm_id m = ''x''" "sample_target \<in> set (restore_targets (rs_options quiet_restore) m)"
    using sample_resolved by (auto simp: quiet_restore_def sample_restore_def)
  have "\<not> isl (fst ?run)" by code_simp
  then obtain rep t' where run: "?run = (Inr rep, t')" by (cases ?run; cases "fst ?run") auto
  from restore_success_accounts [OF sink jobs m(1) run m(3)] show ?thesis
  proof
    assume "ri_db sample_target @ ''.'' @ ri_coll sample_target \<in> set (rp_failed rep)"
    then have "''d.c'' \<in> set (rp_failed rep)" by (simp add: sample_target_def)
    with run show ?thesis by (intro exI conjI disjI1)
  next
    assume "\<exists>cm u ir u'. restore_item quiet_restore (dm_id m) sample_target u = (ir, u')
      \<and> read_collection_meta (rs_codec quiet_restore) (rs_storage quiet_restore) (dm_id m) (ri_db sample_target)
          (ri_coll sample_target) (rs_store quiet_restore) = Inr cm
      \<and> cm_count cm \<le> ir_inserted ir + ir_skipped ir"
    then obtain cm :: collection_meta and u ir u' where "restore_item quiet_restore ''x'' sample_target u = (ir, u')"
      "cm_count cm \<le> ir_inserted ir + ir_skipped ir"
      unfolding m(2) by (elim exE conjE) (erule that, assumption)
    with run show ?thesis by (intro exI conjI disjI2)
  qed
qed

definition parallel_restore :: "(fsys, mem) restore_env" where
  "parallel_restore = sample_restore\<lparr>rs_scripts := [],
     rs_options := sample_restore_options\<lparr>ro_include_collections := [], ro_parallel_jobs := 2\<rparr>\<rparr>"

theorem parallel_restore_complete_witness:
  "\<exists>rep t'. restore_run parallel_restore (\<lambda>its jobs t. (map Some [default_report\<lparr>ir_inserted := 2\<rparr>, default_report], t))
       sample_runner ''latest'' [] = (Inr rep, t') \<and> rp_inserted rep = 2"
proof -
  let ?rs = "[default_report\<lparr>ir_inserted := 2\<rparr>, default_report]"
  let ?par = "\<lambda>its jobs t. (map Some ?rs, t :: mem)"
  let ?run = "restore_run parallel_restore ?par sample_runner ''latest'' []"
  obtain m where m: "resolve_dump (rs_codec parallel_restore) (rs_storage parallel_restore) ''latest''
      (rs_store parallel_restore) = Inr m"
    "length (restore_targets (rs_options parallel_restore) m) = 2"
    using sample_resolved by (auto simp: parallel_restore_def sample_restore_def restore_targets_def restores_collection_def)
  have pre: "run_stage (rs_scripts parallel_restore) ''pre-data'' sample_runner [] = (Inr (), [])"
    by (simp add: parallel_restore_def run_stage_def)
  have par: "?par (restore_targets (rs_options parallel_restore) m) (ro_parallel_jobs (rs_options parallel_restore)) [] =
      (map Some ?rs, [])" by simp
  have pool: "pool_outcome (\<lambda>i r. r = ?rs ! i)
      (\<lambda>r. ir_fatal r \<noteq> None \<and> ro_exit_on_error (rs_options parallel_restore)) 1
      (length (restore_targets (rs_options parallel_restore) m)) (map Some ?rs)"
    unfolding m(2) using pool_sequential [of ?rs "\<lambda>i r. r = ?rs ! i"] by (simp add: numeral_2_eq_2)
  have "\<not> isl (fst ?run)" by code_simp
  then obtain rep t' where run: "?run = (Inr rep, t')" by (cases ?run; cases "fst ?run") auto
  have jobs: "1 < length (restore_targets (rs_options parallel_restore) m)"
    "1 < ro_parallel_jobs (rs_options parallel_restore)"
    using m(2) by (simp_all add: parallel_restore_def sample_restore_options_def)
  from parallel_restore_complete [OF m(1) pre refl jobs par pool zero_less_one run] obtain rs where
    "map Some ?rs = map Some rs" "rp_inserted rep = sum_list (map ir_inserted rs)"
    by (elim exE conjE) (erule that, assumption)
  then have "rp_inserted rep = sum_list (map ir_inserted ?rs)" by (auto simp: Cons_eq_map_conv)
  with run show ?thesis by (simp add: default_report_def)
qed

theorem pre_script_failure_stops_witness:
  "restore_run sample_restore (\<lambda>its jobs t. ([], t)) sample_runner ''latest'' [] =
     (Inl (RestoreError ''script mongosh --eval failed with exit status: 1''), [])"
proof -
  let ?s = "\<lambda>q. \<lparr>sc_name = None, sc_query = Some q, sc_query_file = None, sc_command = None\<rparr>"
  obtain m where m: "resolve_dump (rs_codec sample_restore) (rs_storage sample_restore) ''latest''
      (rs_store sample_restore) = Inr m" using sample_resolved by auto
  have k: "kv_get ''pre-data'' (rs_scripts sample_restore) = Some ([?s ''ok''] @ ?s ''fail'' # [?s ''ok''])"
    by (simp add: sample_restore_def)
  have "run_scripts sample_runner [?s ''ok''] [] = (Inr (), [])" by code_simp
  moreover have "run_script sample_runner (?s ''fail'') [] =
      (Inl (RestoreError ''script mongosh --eval failed with exit status: 1''), [])" by code_simp
  ultimately show ?thesis by (rule pre_script_failure_stops [OF m k])
qed

end
