(* ===== verification/RoundTrip.thy ===== *)
theory RoundTrip
  imports Restore
begin

text \<open>
  What a restore does to the deployment it writes to: invariants of the sink that every restored
  collection keeps, and the round trip of a collection from one deployment through a dump on a
  directory into another.
\<close>

section \<open>Invariants of a sink\<close>

text \<open>A property of the target that the operations of the sink on one collection keep.\<close>

locale sink_invariant =
  fixes sink :: "'t mongo_sink" and db :: string and coll :: string and P :: "'t \<Rightarrow> bool"
  assumes ensure_inv: "P t \<Longrightarrow> sk_ensure sink db coll v opts t = (r, t') \<Longrightarrow> P t'"
    and insert_many_inv: "P t \<Longrightarrow> sk_insert_many sink db coll docs ord t = (b, t') \<Longrightarrow> P t'"
    and create_index_inv: "P t \<Longrightarrow> sk_create_index sink db coll ix t = (r, t') \<Longrightarrow> P t'"
    and drop_inv: "P t \<Longrightarrow> sk_drop sink db coll t = (r, t') \<Longrightarrow> P t'"
begin

lemma insert_batch_inv:
  assumes "rs_sink env = sink"
  shows "P t \<Longrightarrow> insert_batch env db coll docs out t = (out', r, t') \<Longrightarrow> P t'"
proof (induction docs arbitrary: out t rule: length_induct)
  case (1 docs)
  obtain b t1 where b: "sk_insert_many sink db coll docs (ro_ordered (rs_options env)) t = (b, t1)"
    by (rule prod.exhaust)
  have t1: "P t1" by (rule insert_many_inv [OF "1.prems"(1) b])
  show ?case
  proof (cases "docs = []")
    case True
    with "1.prems" show ?thesis by (simp add: insert_batch.simps)
  next
    case False
    then have shorter: "length (drop (Suc k) docs) < length docs" for k by (cases docs) auto
    show ?thesis
      using "1.prems"(2) t1 b False "1.IH" [rule_format, OF shorter t1]
      by (subst (asm) insert_batch.simps)
        (auto simp: assms Let_def split: sum.splits prod.splits if_splits)
  qed
qed

lemma insert_loop_batches_inv:
  assumes "rs_sink env = sink"
  shows "P t \<Longrightarrow> insert_loop_batches env db coll rd out t = (out', r, t') \<Longrightarrow> P t'"
proof (induction rd arbitrary: out t rule: measure_induct_rule [of "\<lambda>rd. length (rd_bytes rd)"])
  case (less rd)
  show ?case
  proof (cases "next_batch (rs_codec env) (max (ro_batch_size (rs_options env)) 1) rd")
    case (Inl e)
    with less.prems show ?thesis by (simp add: insert_loop_batches.simps)
  next
    case (Inr p)
    obtain batch rd' where p: "p = (batch, rd')" by (cases p)
    show ?thesis
    proof (cases "batch = []")
      case True
      with less.prems Inr p show ?thesis by (simp add: insert_loop_batches.simps)
    next
      case False
      obtain out1 q t1 where one: "insert_batch env db coll batch (out\<lparr>io_read := io_read out + length batch\<rparr>) t =
          (out1, q, t1)" by (rule prod_cases3)
      have t1: "P t1" by (rule insert_batch_inv [OF assms less.prems(1) one])
      show ?thesis
      proof (cases q)
        case (Inl e)
        with less.prems Inr p False one t1 show ?thesis by (simp add: insert_loop_batches.simps)
      next
        case ok: (Inr u)
        have "insert_loop_batches env db coll rd' out1 t1 = (out', r, t')"
          using less.prems(2) Inr p False one ok by (simp add: insert_loop_batches.simps)
        then show ?thesis using less.IH t1 next_batch_shorter Inr p False by blast
      qed
    qed
  qed
qed

lemma create_indexes_inv:
  assumes "rs_sink env = sink"
  shows "P t \<Longrightarrow> create_indexes env db coll ixs n t = (r, t') \<Longrightarrow> P t'"
  by (induction ixs arbitrary: n t)
    (auto simp: assms split: prod.splits sum.splits if_splits dest: create_index_inv)

lemma restore_item_inv:
  assumes "rs_sink env = sink" "ri_db it = db" "ri_coll it = coll"
    and "P t" "restore_item env did it t = (rep, t')"
  shows "P t'"
proof -
  note env = assms(1-3)
  obtain c t1 where c: "clean_step env db coll t = (c, t1)" by (rule prod.exhaust)
  have t1: "P t1" using c assms(1,4) drop_inv by (auto simp: clean_step_def split: if_splits)
  note item = assms(5) [unfolded restore_item_def Let_def env]
  show ?thesis
  proof (cases "read_collection_meta (rs_codec env) (rs_storage env) did db coll (rs_store env)")
    case (Inl e)
    with item assms(4) show ?thesis by simp
  next
    case m: (Inr m)
    obtain e t2 where e: "sk_ensure sink db coll (cm_validator m) (cm_options m) t1 = (e, t2)"
      by (rule prod.exhaust)
    have t2: "P t2" by (rule ensure_inv [OF t1 e])
    obtain out q t3 where d: "insert_documents env did db coll t2 = (out, q, t3)" by (rule prod_cases3)
    have t3: "P t3"
      using d t2 insert_loop_batches_inv [OF assms(1)] by (auto simp: insert_documents_def split: sum.splits)
    obtain n t4 where ix: "create_indexes env db coll (cm_indexes m) 0 t3 = (n, t4)" by (rule prod.exhaust)
    have t4: "P t4" by (rule create_indexes_inv [OF assms(1) t3 ix])
    show ?thesis
    proof (cases "t' \<in> {t1, t2, t3, t4}")
      case True
      with t1 t2 t3 t4 show ?thesis by blast
    next
      case False
      with item m c e d ix show ?thesis by (simp split: sum.splits if_splits)
    qed
  qed
qed

end

section \<open>The in-memory deployment\<close>

text \<open>A collection other than the one restored keeps its entry.\<close>

lemma insert_loop_inv:
  assumes "\<And>d s r s'. P s \<Longrightarrow> ins d s = (r, s') \<Longrightarrow> P s'"
  shows "P s \<Longrightarrow> insert_loop ins docs i ord out s = (b, s') \<Longrightarrow> P s'"
proof (induction docs arbitrary: i out s)
  case (Cons d ds)
  obtain r s1 where r: "ins d s = (r, s1)" by (rule prod.exhaust)
  have "P s1" by (rule assms [OF Cons.prems(1) r])
  with Cons r show ?case by (cases r) (auto simp: Let_def split: if_splits)
qed simp

lemma insert_many_default_inv:
  assumes "\<And>d s r s'. P s \<Longrightarrow> ins db coll d s = (r, s') \<Longrightarrow> P s'"
    and "P s" "insert_many_default ins db coll docs ord s = (b, s')"
  shows "P s'"
  using insert_loop_inv [of P "ins db coll", OF assms(1) assms(2)] assms(3)
  by (auto simp: insert_many_default_def split: prod.splits)

lemma kv_get_remove: "kv_get k (filter (\<lambda>p. fst p \<noteq> k0) m) = (if k = k0 then None else kv_get k m)"
  using kv_get_filter [of k "\<lambda>k. k \<noteq> k0" m] by simp

lemma mem_insert_entry:
  "mem_insert db coll d m = (r, m') \<Longrightarrow> k \<noteq> (db, coll) \<Longrightarrow> kv_get k m' = kv_get k m"
  by (auto simp: mem_insert_def Let_def bt_get_insert split: if_splits)

interpretation mem_frame: sink_invariant mem_sink db coll "\<lambda>m. k \<noteq> (db, coll) \<longrightarrow> kv_get k m = v" for db coll k v
proof unfold_locales
  fix t docs ord b t'
  assume "k \<noteq> (db, coll) \<longrightarrow> kv_get k t = v" "sk_insert_many mem_sink db coll docs ord t = (b, t')"
  then show "k \<noteq> (db, coll) \<longrightarrow> kv_get k t' = v"
    by (intro insert_many_default_inv [of "\<lambda>m. k \<noteq> (db, coll) \<longrightarrow> kv_get k m = v" mem_insert db coll t docs ord b t'])
      (simp_all add: mem_sink_def mem_insert_entry)
qed (auto simp: mem_sink_def mem_ensure_def mem_create_index_def mem_drop_def Let_def bt_get_insert kv_get_remove)

text \<open>No collection holds two documents with the same identifier.\<close>

definition ids_unique :: "mem \<Rightarrow> bool" where
  "ids_unique m = (\<forall>db coll. ids_fresh (mem_documents db coll m))"

lemma mem_insert_unique: "ids_unique m \<Longrightarrow> mem_insert db coll d m = (r, m') \<Longrightarrow> ids_unique m'"
  using mem_insert_fresh [of db coll d m r m'] mem_insert_documents [of db coll d m r m']
  by (auto simp: ids_unique_def)

lemma mem_ensure_documents:
  "mem_ensure db coll v opts m = (r, m') \<Longrightarrow> mem_documents db' coll' m' = mem_documents db' coll' m"
  by (auto simp: mem_ensure_def Let_def bt_get_insert mem_entry_def empty_collection_def
      mem_documents_def split: option.splits if_splits)

lemma mem_create_index_documents:
  "mem_create_index db coll ix m = (r, m') \<Longrightarrow> mem_documents db' coll' m' = mem_documents db' coll' m"
  by (auto simp: mem_create_index_def Let_def bt_get_insert mem_entry_def empty_collection_def
      mem_documents_def split: option.splits if_splits)

lemma mem_drop_documents:
  "mem_drop db coll m = (r, m') \<Longrightarrow>
     mem_documents db' coll' m' = (if (db', coll') = (db, coll) then [] else mem_documents db' coll' m)"
  by (auto simp: mem_drop_def mem_documents_def kv_get_remove)

interpretation mem_unique: sink_invariant mem_sink db coll ids_unique for db coll
proof unfold_locales
  fix t docs ord b t'
  assume "ids_unique t" "sk_insert_many mem_sink db coll docs ord t = (b, t')"
  then show "ids_unique t'"
    by (intro insert_many_default_inv [of ids_unique mem_insert db coll t docs ord b t'])
      (simp_all add: mem_sink_def mem_insert_unique)
qed (auto simp: mem_sink_def ids_unique_def mem_ensure_documents mem_create_index_documents mem_drop_documents
    ids_fresh_def)

section \<open>A collection arriving in the in-memory deployment\<close>

lemma ids_fresh_prefix: "ids_fresh (xs @ ys) \<Longrightarrow> ids_fresh xs"
  by (simp add: ids_fresh_def sorted_wrt_append)

lemma insert_each_mem:
  "ids_fresh (mem_documents db coll t @ docs) \<Longrightarrow>
     \<exists>t'. insert_each ex db coll (mem_insert db coll) docs out t =
         (out\<lparr>io_inserted := io_inserted out + length docs\<rparr>, Inr (), t')
       \<and> mem_documents db coll t' = mem_documents db coll t @ docs"
proof (induction docs arbitrary: out t)
  case (Cons d ds)
  obtain r t1 where r: "mem_insert db coll d t = (r, t1)" by (rule prod.exhaust)
  let ?c = "mem_entry db coll (empty_collection db coll) t"
  have "ids_fresh (d_documents ?c @ [d])"
    using Cons.prems ids_fresh_prefix [of "mem_documents db coll t @ [d]" ds] by (simp add: mem_documents_entry)
  then have "r = Inr ()" using r ids_fresh_snoc [of ?c d] by (simp add: mem_insert_def Let_def)
  moreover from this have t1: "mem_documents db coll t1 = mem_documents db coll t @ [d]"
    using mem_insert_documents [OF r, of db coll] by simp
  moreover have "ids_fresh (mem_documents db coll t1 @ ds)" using Cons.prems t1 by simp
  ultimately show ?case
    using r Cons.IH [of t1 "out\<lparr>io_inserted := io_inserted out + 1\<rparr>"] by auto
qed simp

lemma create_indexes_mem:
  assumes "rs_sink env = mem_sink"
  shows "\<exists>n' t'. create_indexes env db coll ixs n t = (Inr n', t')
    \<and> mem_documents db coll t' = mem_documents db coll t"
proof (induction ixs arbitrary: n t)
  case (Cons ix ixs)
  obtain r t1 where r: "mem_create_index db coll ix t = (r, t1)" by (rule prod.exhaust)
  then have "r = Inr ()" "mem_documents db coll t1 = mem_documents db coll t"
    using mem_create_index_documents [OF r] by (auto simp: mem_create_index_def Let_def)
  then show ?case
    using r Cons [of "n + 1" t1] Cons [of n t] by (auto simp: assms mem_sink_def)
qed simp

lemma restore_item_mem:
  assumes env: "rs_sink env = mem_sink"
    and m: "read_collection_meta (rs_codec env) (rs_storage env) did (ri_db it) (ri_coll it) (rs_store env) = Inr m"
      "cm_count m = length docs"
    and rd: "open_document_reader (rs_codec env) (rs_storage env) did (ri_db it) (ri_coll it) (rs_store env) =
      Inr \<lparr>rd_bytes = blob_of (rs_codec env) docs, rd_end = None\<rparr>"
    and docs: "\<forall>d \<in> set docs. framed (rs_codec env) d" "ids_fresh docs"
    and clean: "ro_clean (rs_options env) \<or> mem_documents (ri_db it) (ri_coll it) t = []"
  shows "\<exists>rep t'. restore_item env did it t = (rep, t') \<and> ir_failed rep = None \<and> ir_fatal rep = None
    \<and> ir_inserted rep = length docs \<and> ir_skipped rep = 0 \<and> mem_documents (ri_db it) (ri_coll it) t' = docs"
proof -
  let ?db = "ri_db it" and ?coll = "ri_coll it"
  have dflt: "sk_insert_many (rs_sink env) = insert_many_default (sk_insert (rs_sink env))"
    by (simp add: env mem_sink_def)
  obtain t1 where t1: "clean_step env ?db ?coll t = (Inr (), t1)" "mem_documents ?db ?coll t1 = []"
  proof (cases "ro_clean (rs_options env)")
    case True
    have d: "mem_drop ?db ?coll t = (Inr (), snd (mem_drop ?db ?coll t))" by (simp add: mem_drop_def)
    with True mem_drop_documents [OF d, of ?db ?coll] show ?thesis
      by (intro that [of "snd (mem_drop ?db ?coll t)"]) (simp_all add: clean_step_def env mem_sink_def)
  next
    case False
    with clean show ?thesis by (intro that [of t]) (simp_all add: clean_step_def)
  qed
  obtain r t2 where t2: "mem_ensure ?db ?coll (cm_validator m) (cm_options m) t1 = (r, t2)" by (rule prod.exhaust)
  then have r: "r = Inr ()" and empty: "mem_documents ?db ?coll t2 = []"
    using mem_ensure_documents [OF t2] t1(2) by (auto simp: mem_ensure_def Let_def)
  let ?out = "\<lparr>io_inserted = length docs, io_skipped = 0, io_read = length docs\<rparr>"
  obtain t3 where t3: "insert_each (rs_exclusions env) ?db ?coll (mem_insert ?db ?coll) docs
        (no_outcome\<lparr>io_read := io_read no_outcome + length docs\<rparr>) t2 = (?out, Inr (), t3)"
      "mem_documents ?db ?coll t3 = docs"
    using insert_each_mem [of ?db ?coll t2 docs "rs_exclusions env" "no_outcome\<lparr>io_read := length docs\<rparr>"]
      empty docs(2) by (auto simp: no_outcome_def)
  have "insert_loop_batches env ?db ?coll \<lparr>rd_bytes = blob_of (rs_codec env) docs, rd_end = None\<rparr> no_outcome t2 =
      (?out, Inr (), t3)"
    by (rule insert_loop_batches_total [OF dflt docs(1)]) (simp only: env mem_sink_def mongo_sink.simps t3(1))
  then have d: "insert_documents env did ?db ?coll t2 = (?out, Inr (), t3)"
    by (simp add: insert_documents_def rd)
  obtain n t4 where t4: "create_indexes env ?db ?coll (cm_indexes m) 0 t3 = (Inr n, t4)"
      "mem_documents ?db ?coll t4 = mem_documents ?db ?coll t3"
    using create_indexes_mem [OF env] by blast
  have ens: "sk_ensure (rs_sink env) ?db ?coll (cm_validator m) (cm_options m) t1 = (Inr (), t2)"
    using t2 r by (simp add: env mem_sink_def)
  show ?thesis
    using m t1(1) ens d t3(2) t4
    by (cases "ro_dependency_order (rs_options env)")
      (simp_all add: restore_item_def Let_def check_complete_def default_report_def)
qed

section \<open>Properties\<close>

text \<open>
  C1. Dump and restore are inverse: what the plan makes of the documents of a live collection, dumped to a
  directory and restored into another deployment, is exactly the collection's contents there, in order.
  The documents are serializable and carry distinct identifiers, and the target collection is cleaned
  first or empty.
\<close>

theorem dump_restore_round_trip:
  assumes "fs_ok fs" "clean_name did" "clean_item it"
    and "dumped_docs E src (wi_coll it) (fst (item_stream src it)) = Inr outs"
    and "\<forall>d \<in> set outs. framed C d" "ids_fresh outs"
    and "gunzip C (gz C (blob_of C outs)) = (blob_of C outs, None)"
    and "\<And>st raw. item_structure src (wi_db it) (wi_coll it) = Inr st \<Longrightarrow>
          enc_cmeta C (meta_of_data (item_data it outs st)) = Some raw \<Longrightarrow>
          dec_cmeta C raw = Some (meta_of_data (item_data it outs st))"
    and "\<not> do_gzip (du_options src) \<Longrightarrow>
          dir_exists (in_dump did (data_path (wi_db it) (wi_coll it) True)) fs = Inr False"
    and "dump_item E C dir_storage src did it fs = (Inr (sz, toc), fs')"
    and "rs_codec env = C" "rs_storage env = dir_storage" "rs_store env = fs'" "rs_sink env = mem_sink"
    and "ro_clean (rs_options env) \<or> mem_documents (wi_db it) (wi_coll it) m = []"
  shows "\<exists>rep m'. restore_item env did \<lparr>ri_db = wi_db it, ri_coll = wi_coll it\<rparr> m = (rep, m')
    \<and> ir_failed rep = None \<and> ir_fatal rep = None \<and> ir_inserted rep = length outs \<and> ir_skipped rep = 0
    \<and> mem_documents (wi_db it) (wi_coll it) m' = outs"
proof -
  obtain st where parts:
    "read_collection_meta C dir_storage did (wi_db it) (wi_coll it) fs' = Inr (meta_of_data (item_data it outs st))"
    "open_document_reader C dir_storage did (wi_db it) (wi_coll it) fs' = Inr \<lparr>rd_bytes = blob_of C outs, rd_end = None\<rparr>"
    using dump_item_parts [OF assms(1-5,7-10)] by blast
  have "cm_count (meta_of_data (item_data it outs st)) = length outs"
    by (simp add: meta_of_data_def item_data_def)
  then show ?thesis
    using restore_item_mem [of env did "\<lparr>ri_db = wi_db it, ri_coll = wi_coll it\<rparr>" _ outs m]
      parts assms(5,6,11-15) by simp
qed

text \<open>
  Restoring a collection touches no other collection, on every path, failures and tolerated errors
  included.
\<close>

theorem restore_item_confined:
  assumes "rs_sink env = mem_sink" "restore_item env did it m = (rep, m')" "k \<noteq> (ri_db it, ri_coll it)"
  shows "kv_get k m' = kv_get k m"
  using mem_frame.restore_item_inv [where it = it and k = k and v = "kv_get k m", OF assms(1) refl refl _ assms(2)]
    assms(3) by simp


section \<open>An example\<close>

definition arrival :: "(fsys, mem) restore_env" where
  "arrival = sample_restore\<lparr>rs_codec := sample_codec,
     rs_store := snd (dump_item sample_ext sample_codec dir_storage sample_env ''x'' sample_item [])\<rparr>"

lemma sample_law:
  assumes "item_structure sample_env (wi_db sample_item) (wi_coll sample_item) = Inr st"
    and "enc_cmeta sample_codec (meta_of_data (item_data sample_item [[(''_id'', BInt32 7)]] st)) = Some raw"
  shows "dec_cmeta sample_codec raw = Some (meta_of_data (item_data sample_item [[(''_id'', BInt32 7)]] st))"
proof -
  have "item_structure sample_env (wi_db sample_item) (wi_coll sample_item) = Inr empty_structure" by code_simp
  moreover have "enc_cmeta sample_codec (meta_of_data (item_data sample_item [[(''_id'', BInt32 7)]] empty_structure)) =
      Some [1]" by code_simp
  moreover have "dec_cmeta sample_codec [1] =
      Some (meta_of_data (item_data sample_item [[(''_id'', BInt32 7)]] empty_structure))" by code_simp
  ultimately show ?thesis using assms by simp
qed

theorem dump_restore_round_trip_witness:
  "\<exists>rep m. restore_item arrival ''x'' \<lparr>ri_db = ''d'', ri_coll = ''c''\<rparr> [] = (rep, m)
     \<and> mem_documents ''d'' ''c'' m = [[(''_id'', BInt32 7)]]"
proof -
  let ?outs = "[[(''_id'', BInt32 7)]]"
  have wi: "wi_db sample_item = ''d''" "wi_coll sample_item = ''c''" by (simp_all add: sample_item_def)
  have outs: "dumped_docs sample_ext sample_env (wi_coll sample_item) (fst (item_stream sample_env sample_item)) =
      Inr ?outs" by code_simp
  have framed: "\<forall>d \<in> set ?outs. framed sample_codec d"
    using sample_framed by (simp add: sample_docs_def)
  have fresh: "ids_fresh ?outs" by (simp add: ids_fresh_def)
  have zip: "gunzip sample_codec (gz sample_codec (blob_of sample_codec ?outs)) = (blob_of sample_codec ?outs, None)"
    by (simp add: sample_codec_def)
  have gone: "dir_exists (in_dump ''x'' (data_path (wi_db sample_item) (wi_coll sample_item) True)) [] = Inr False"
    by code_simp
  have env: "rs_codec arrival = sample_codec" "rs_storage arrival = dir_storage"
    "rs_store arrival = snd (dump_item sample_ext sample_codec dir_storage sample_env ''x'' sample_item [])"
    "rs_sink arrival = mem_sink"
    by (simp_all add: arrival_def sample_restore_def)
  have clean: "ro_clean (rs_options arrival) \<or> mem_documents (wi_db sample_item) (wi_coll sample_item) [] = []"
    by (simp add: mem_documents_def)
  show ?thesis
    using dump_restore_round_trip [OF fs_ok_Nil clean_examples(1,2) outs framed fresh zip sample_law gone
        sample_dumped env clean] by (simp only: wi) blast
qed

theorem restore_item_confined_witness:
  "\<exists>rep m. restore_item sample_restore ''x'' sample_target sample_mem = (rep, m)
     \<and> kv_get (''e'', ''b'') m = kv_get (''e'', ''b'') sample_mem"
proof -
  obtain rep m where r: "restore_item sample_restore ''x'' sample_target sample_mem = (rep, m)" by (rule prod.exhaust)
  have "rs_sink sample_restore = mem_sink" by (simp add: sample_restore_def)
  from restore_item_confined [OF this r, of "(''e'', ''b'')"] r show ?thesis by (simp add: sample_target_def)
qed


end
