(* ===== verification/Management.thy ===== *)
theory Management
  imports DumpFormat
begin

text \<open>
  Dump management (src/dump/management.rs): listing, showing, deleting and pruning. A time is an
  integer (nanoseconds since the epoch); parsing RFC 3339 (crate chrono) is the parameter \<open>tm\<close>.
\<close>

record dump_listing =
  dl_id :: string
  dl_status :: dump_status
  dl_size :: nat

definition list_entries :: "codec \<Rightarrow> 's storage \<Rightarrow> 's \<Rightarrow> dump_listing list res" where
  "list_entries C S s =
     map_sum id (\<lambda>ms. sort_key dl_id
       (map (\<lambda>m. \<lparr>dl_id = dm_id m, dl_status = dm_status m, dl_size = dm_size m\<rparr>) ms))
       (list_metadata C S s)"

definition tab :: string where
  "tab = [CHR 0x09]"

definition list_dumps :: "codec \<Rightarrow> 's storage \<Rightarrow> 's \<Rightarrow> string res" where
  "list_dumps C S s =
     map_sum id (\<lambda>es. join_with nl
       (map (\<lambda>d. dl_id d @ tab @ status_str (dl_status d) @ tab @ show_nat (dl_size d) @ '' bytes'') es))
       (list_entries C S s)"

definition show_dump :: "codec \<Rightarrow> 's storage \<Rightarrow> string \<Rightarrow> 's \<Rightarrow> string res" where
  "show_dump C S r s = map_sum id render_toc (resolve_dump C S r s)"

definition delete_dump :: "codec \<Rightarrow> 's storage \<Rightarrow> string \<Rightarrow> 's \<Rightarrow> unit res \<times> 's" where
  "delete_dump C S did s =
     (case read_metadata C S did s of
        Inl e \<Rightarrow> (Inl e, s)
      | Inr m \<Rightarrow> sg_delete S did s)"

record retention_policy =
  retain_recent :: "nat option"
  retain_for :: "int option"
  before_date :: "int option"
  prune_failed :: bool
  prune_unsafe :: bool

definition created_at :: "(string \<Rightarrow> int option) \<Rightarrow> dump_metadata \<Rightarrow> int" where
  "created_at tm m = (case tm (dm_created_at m) of None \<Rightarrow> 0 | Some t \<Rightarrow> t)"

definition protected_ids ::
    "(string \<Rightarrow> int option) \<Rightarrow> dump_metadata list \<Rightarrow> retention_policy \<Rightarrow> string set" where
  "protected_ids tm dumps p =
     (case retain_recent p of
        None \<Rightarrow> {}
      | Some n \<Rightarrow>
          set (map dm_id (take n (sort_desc (created_at tm) (filter (\<lambda>m. dm_status m = Done) dumps)))))"

definition deletion_candidate ::
    "(string \<Rightarrow> int option) \<Rightarrow> retention_policy \<Rightarrow> int \<Rightarrow> dump_metadata \<Rightarrow> bool" where
  "deletion_candidate tm p now m =
     ((retain_recent p \<noteq> None \<and> dm_status m = Done)
      \<or> (case retain_for p of None \<Rightarrow> False | Some dur \<Rightarrow> created_at tm m < now - dur)
      \<or> (case before_date p of None \<Rightarrow> False | Some bd \<Rightarrow> created_at tm m < bd)
      \<or> (prune_failed p \<and> dm_status m = Failed)
      \<or> (prune_unsafe p \<and> (dm_status m = Unknown \<or> dm_status m = InProgress)))"

definition select_for_deletion ::
    "(string \<Rightarrow> int option) \<Rightarrow> dump_metadata list \<Rightarrow> retention_policy \<Rightarrow> int \<Rightarrow> string list" where
  "select_for_deletion tm dumps p now =
     (let prot = protected_ids tm dumps p
      in sort (map dm_id (filter (\<lambda>m. dm_id m \<notin> prot \<and> deletion_candidate tm p now m) dumps)))"

fun delete_all :: "'s storage \<Rightarrow> string list \<Rightarrow> 's \<Rightarrow> unit res \<times> 's" where
  "delete_all S [] s = (Inr (), s)"
| "delete_all S (did # ids) s =
     (case sg_delete S did s of
        (Inl e, s') \<Rightarrow> (Inl e, s')
      | (Inr u, s') \<Rightarrow> delete_all S ids s')"

definition prune ::
    "(string \<Rightarrow> int option) \<Rightarrow> codec \<Rightarrow> 's storage \<Rightarrow> retention_policy \<Rightarrow> int \<Rightarrow> bool \<Rightarrow> 's
       \<Rightarrow> string list res \<times> 's" where
  "prune tm C S p now dry_run s =
     (case list_metadata C S s of
        Inl e \<Rightarrow> (Inl e, s)
      | Inr dumps \<Rightarrow>
          let to_delete = select_for_deletion tm dumps p now
          in if dry_run then (Inr to_delete, s)
             else (case delete_all S to_delete s of
                     (Inl e, s') \<Rightarrow> (Inl e, s')
                   | (Inr u, s') \<Rightarrow> (Inr to_delete, s')))"

section \<open>Lemmas\<close>

text \<open>In a list sorted in descending order an element is among the first \<open>n\<close> when at most \<open>n\<close>
  elements are at least as large.\<close>

lemma sorted_take_large:
  assumes "sorted_wrt (\<lambda>a b. f b \<le> (f a :: 'b::linorder)) xs" "x \<in> set xs"
    and "length (filter (\<lambda>y. f x \<le> f y) xs) \<le> n"
  shows "x \<in> set (take n xs)"
proof -
  obtain as bs where xs: "xs = as @ x # bs" using split_list [OF assms(2)] by blast
  have "\<forall>y \<in> set as. f x \<le> f y" using assms(1) by (auto simp: xs sorted_wrt_append)
  then have "filter (\<lambda>y. f x \<le> f y) as = as" by (simp add: filter_id_conv)
  then have "length as < n" using assms(3) by (simp add: xs)
  then have "take n xs = as @ x # take (n - length as - 1) bs"
    by (cases "n - length as") (auto simp: xs)
  then show ?thesis by simp
qed

lemma insert_desc_filter_length:
  "length (filter P (insert_desc f x ys)) = length (filter P (x # ys))"
  by (induction ys) auto

lemma sort_desc_filter_length: "length (filter P (sort_desc f xs)) = length (filter P xs)"
  by (induction xs) (auto simp: sort_desc_def insert_desc_filter_length)

lemma select_iff:
  "i \<in> set (select_for_deletion tm dumps p now) \<longleftrightarrow>
     (\<exists>m \<in> set dumps. dm_id m = i \<and> deletion_candidate tm p now m) \<and> i \<notin> protected_ids tm dumps p"
  by (auto simp: select_for_deletion_def Let_def)

lemma delete_all_keeps:
  assumes "\<And>did s r s'. did \<in> set ids \<Longrightarrow> sg_delete S did s = (r, s') \<Longrightarrow> obs s' = obs s"
    and "delete_all S ids s = (r, s')"
  shows "obs s' = obs s"
  using assms
proof (induction ids arbitrary: s)
  case (Cons did ids)
  obtain r1 s1 where d: "sg_delete S did s = (r1, s1)" by (cases "sg_delete S did s")
  with Cons.prems(1) [of did s r1 s1] have o1: "obs s1 = obs s" by simp
  show ?case
  proof (cases r1)
    case (Inl e)
    with Cons.prems(2) d o1 show ?thesis by simp
  next
    case (Inr u)
    then have "delete_all S ids s1 = (r, s')" using Cons.prems(2) d by simp
    then have "obs s' = obs s1" using Cons.IH Cons.prems(1) by (meson list.set_intros(2))
    with o1 show ?thesis by simp
  qed
qed simp

section \<open>Properties\<close>

text \<open>
  C34. The retention floor holds against every rule: a completed dump that is among the \<open>n\<close> most recent
  completed ones (at most \<open>n\<close> completed dumps are at least as recent) is never selected for deletion
  under \<open>retain_recent = n\<close>, whatever age, date or status rules are combined with it.
\<close>

theorem retained_dump_survives:
  assumes "retain_recent p = Some n" "m \<in> set dumps" "dm_status m = Done"
    and "length (filter (\<lambda>d. dm_status d = Done \<and> created_at tm m \<le> created_at tm d) dumps) \<le> n"
  shows "dm_id m \<notin> set (select_for_deletion tm dumps p now)"
proof -
  let ?done = "filter (\<lambda>d. dm_status d = Done) dumps"
  let ?sorted = "sort_desc (created_at tm) ?done"
  have "length (filter (\<lambda>d. created_at tm m \<le> created_at tm d) ?sorted) \<le> n"
    using assms(4) by (simp add: sort_desc_filter_length conj_commute)
  then have "m \<in> set (take n ?sorted)"
    by (intro sorted_take_large [OF sorted_sort_desc]) (use assms(2,3) in simp_all)
  then have "dm_id m \<in> protected_ids tm dumps p"
    using assms(1) by (simp add: protected_ids_def)
  then show ?thesis by (simp add: select_iff)
qed

definition sample_dump :: "string \<Rightarrow> dump_status \<Rightarrow> string \<Rightarrow> dump_metadata" where
  "sample_dump i st at = \<lparr>dm_id = i, dm_status = st, dm_created_at = at, dm_databases = [], dm_size = 0\<rparr>"

definition sample_time :: "string \<Rightarrow> int option" where
  "sample_time s = parse_int s"

definition keep_one :: retention_policy where
  "keep_one = \<lparr>retain_recent = Some 1, retain_for = Some 5, before_date = Some 1000, prune_failed = True,
     prune_unsafe = True\<rparr>"

theorem retained_dump_survives_witness:
  "''b'' \<notin> set (select_for_deletion sample_time
      [sample_dump ''a'' Done ''10'', sample_dump ''b'' Done ''20'', sample_dump ''c'' Failed ''30''] keep_one 100)"
proof -
  let ?dumps = "[sample_dump ''a'' Done ''10'', sample_dump ''b'' Done ''20'', sample_dump ''c'' Failed ''30'']"
  let ?m = "sample_dump ''b'' Done ''20''"
  have "length (filter (\<lambda>d. dm_status d = Done \<and> created_at sample_time ?m \<le> created_at sample_time d) ?dumps) \<le> 1"
    by code_simp
  from retained_dump_survives [OF _ _ _ this, of keep_one 100]
  show ?thesis by (simp add: keep_one_def sample_dump_def)
qed

text \<open>
  A dry run of the pruning reports exactly what the real run deletes and changes nothing: it never
  touches the storage, and whenever the real run succeeds both report the same dumps.
\<close>

theorem prune_dry_run:
  "snd (prune tm C S p now True s) = s
   \<and> (\<forall>ids s'. prune tm C S p now False s = (Inr ids, s') \<longrightarrow> fst (prune tm C S p now True s) = Inr ids)"
  by (auto simp: prune_def Let_def split: sum.splits prod.splits)

text \<open>
  Pruning a directory only removes what it reports: after a prune that succeeded, every blob that
  lies below none of the reported dump ids reads exactly as before.
\<close>

theorem prune_confined:
  assumes "prune tm C dir_storage p now dry fs = (Inr ids, fs')"
    and "\<And>i. i \<in> set ids \<Longrightarrow> \<not> prefix (resolve_path i) (resolve_path q)"
  shows "dir_get q fs' = dir_get q fs"
proof (cases dry)
  case True
  with assms(1) show ?thesis by (auto simp: prune_def Let_def split: sum.splits)
next
  case False
  then obtain r where d: "delete_all dir_storage ids fs = (r, fs')"
    using assms(1) by (auto simp: prune_def Let_def split: sum.splits prod.splits)
  show ?thesis
  proof (rule delete_all_keeps [where obs = "dir_get q", OF _ d])
    fix i s r s'
    assume i: "i \<in> set ids" and del: "sg_delete dir_storage i s = (r, s')"
    have "\<not> doomed s (resolve_path i) x" if "prefix x (resolve_path q)" for x
      using assms(2) [OF i] prefix_order.trans [OF _ that]
      by (auto simp: doomed_def split: option.splits)
    with del show "dir_get q s' = dir_get q s"
      by (intro dir_get_cong) (simp add: dir_storage_def dir_delete_lookup)
  qed
qed

definition two_dumps :: fsys where
  "two_dumps = snd (dir_put ''b/metadata.json'' [98] (snd (dir_put ''a/metadata.json'' [97] [])))"

definition keep_one_recent :: retention_policy where
  "keep_one_recent = \<lparr>retain_recent = Some 1, retain_for = None, before_date = None, prune_failed = False,
     prune_unsafe = False\<rparr>"

theorem prune_confined_witness:
  "\<exists>fs'. prune sample_time sample_codec dir_storage keep_one_recent 0 False two_dumps = (Inr [''b''], fs')
     \<and> dir_get ''a/metadata.json'' fs' = Inr [97]"
proof -
  let ?r = "prune sample_time sample_codec dir_storage keep_one_recent 0 False two_dumps"
  have "fst ?r = Inr [''b'']" by code_simp
  then have r: "?r = (Inr [''b''], snd ?r)" by (metis prod.collapse)
  have "\<not> prefix (resolve_path ''b'') (resolve_path ''a/metadata.json'')" by code_simp
  then have "dir_get ''a/metadata.json'' (snd ?r) = dir_get ''a/metadata.json'' two_dumps"
    by (intro prune_confined [OF r]) simp
  moreover have "dir_get ''a/metadata.json'' two_dumps = Inr [97]" by code_simp
  ultimately show ?thesis using r by metis
qed

theorem prune_dry_run_witness:
  "prune sample_time sample_codec dir_storage keep_one_recent 0 True two_dumps = (Inr [''b''], two_dumps)"
proof -
  let ?real = "prune sample_time sample_codec dir_storage keep_one_recent 0 False two_dumps"
  let ?dry = "prune sample_time sample_codec dir_storage keep_one_recent 0 True two_dumps"
  have "fst ?real = Inr [''b'']" by code_simp
  then have "?real = (Inr [''b''], snd ?real)" by (metis prod.collapse)
  then have "snd ?dry = two_dumps \<and> fst ?dry = Inr [''b'']"
    using prune_dry_run [of sample_time sample_codec dir_storage keep_one_recent 0 two_dumps] by blast
  then show ?thesis by (metis prod.collapse)
qed

section \<open>A finding\<close>

text \<open>An in-progress dump whose creation time does not parse counts as created at the epoch: an age rule
  deletes it although \<open>prune_unsafe\<close> is off.\<close>

lemma age_rule_takes_unreadable:
  "select_for_deletion sample_time [sample_dump ''run'' InProgress ''?''] 
     \<lparr>retain_recent = None, retain_for = Some 5, before_date = None, prune_failed = False,
      prune_unsafe = False\<rparr> 100 = [''run'']"
  by code_simp

end
