(* ===== verification/Validate.thy ===== *)
theory Validate
  imports Apply DumpFormat
begin

text \<open>
  Validation: structured warnings with stable identifiers (src/validate/warnings.rs), the preview of
  the transformations on sampled documents (src/validate/preview.rs) and the comparison of a stored
  dump with the live deployment (the last part of src/validate/schema_diff.rs). The JSON printer is a
  parameter.
\<close>

section \<open>Warnings\<close>

datatype severity = Info | Warn | Severe

fun severity_str :: "severity \<Rightarrow> string" where
  "severity_str Info = ''info''"
| "severity_str Warn = ''warning''"
| "severity_str Severe = ''error''"

record warning =
  w_id :: string
  w_severity :: severity
  w_message :: string
  w_meta :: "(string \<times> string) list"

definition nul :: bytes where
  "nul = [0]"

text \<open>The bytes fed to SHA-256; the identifier is six bytes of the digest in hexadecimal.\<close>

definition id_input :: "severity \<Rightarrow> string \<Rightarrow> (string \<times> string) list \<Rightarrow> bytes" where
  "id_input sev m meta =
     string_bytes (severity_str sev) @ nul @ string_bytes m
       @ concat (map (\<lambda>(k, v). nul @ string_bytes k @ string_bytes ''='' @ string_bytes v) meta)"

definition compute_id :: "ext \<Rightarrow> severity \<Rightarrow> string \<Rightarrow> (string \<times> string) list \<Rightarrow> string" where
  "compute_id E sev m meta = x_hex E (take 6 (be_bytes 32 (uint (x_sha256 E (id_input sev m meta)))))"

definition new_warning :: "ext \<Rightarrow> severity \<Rightarrow> string \<Rightarrow> warning" where
  "new_warning E sev m = \<lparr>w_id = compute_id E sev m [], w_severity = sev, w_message = m, w_meta = []\<rparr>"

definition with_meta :: "ext \<Rightarrow> string \<Rightarrow> string \<Rightarrow> warning \<Rightarrow> warning" where
  "with_meta E k v w =
     (let meta = bt_insert k v (w_meta w)
      in w\<lparr>w_meta := meta, w_id := compute_id E (w_severity w) (w_message w) meta\<rparr>)"

definition is_error :: "warning \<Rightarrow> bool" where
  "is_error w = (w_severity w = Severe)"

definition resolved_id :: "string list \<Rightarrow> warning \<Rightarrow> bool" where
  "resolved_id resolved w = list_ex (\<lambda>r. r = w_id w) resolved"

definition visible :: "warning list \<Rightarrow> string list \<Rightarrow> bool \<Rightarrow> warning list" where
  "visible ws resolved show_all = filter (\<lambda>w. show_all \<or> \<not> resolved_id resolved w) ws"

definition has_unresolved :: "warning list \<Rightarrow> string list \<Rightarrow> bool" where
  "has_unresolved ws resolved = list_ex (\<lambda>w. \<not> resolved_id resolved w) ws"

section \<open>The preview\<close>

datatype format = Text | Json
datatype table_format = Vertical | Horizontal

definition parse_format :: "string \<Rightarrow> format res" where
  "parse_format s =
     (if s = ''text'' then Inr Text
      else if s = ''json'' then Inr Json
      else Inl (ValidationError (''invalid --format '' @ quoted s @ '' (expected text or json)'')))"

definition parse_table_format :: "string \<Rightarrow> table_format res" where
  "parse_table_format s =
     (if s = ''vertical'' then Inr Vertical
      else if s = ''horizontal'' then Inr Horizontal
      else Inl (ValidationError (''invalid --table-format '' @ quoted s @ '' (expected vertical or horizontal)'')))"

record preview_options =
  po_rows_limit :: nat
  po_format :: format
  po_table_format :: table_format
  po_transformed_only :: bool
  po_strict :: bool

record field_diff =
  fd_field :: string
  fd_before :: bson
  fd_after :: bson
  fd_changed :: bool

datatype json =
    JString string
  | JBool bool
  | JArray "json list"
  | JObject "(string \<times> json) list"

definition field_json :: "ext \<Rightarrow> field_diff \<Rightarrow> json" where
  "field_json E d =
     JObject [(''field'', JString (fd_field d)), (''before'', JString (x_bson_display E (fd_before d))),
              (''after'', JString (x_bson_display E (fd_after d))), (''changed'', JBool (fd_changed d))]"

definition render_json :: "ext \<Rightarrow> (json \<Rightarrow> string) \<Rightarrow> field_diff list list \<Rightarrow> string" where
  "render_json E pretty per_doc = pretty (JArray (map (\<lambda>diffs. JArray (map (field_json E) diffs)) per_doc))"

definition bar :: string where
  "bar = '' | ''"

definition render_diffs :: "ext \<Rightarrow> table_format \<Rightarrow> field_diff list \<Rightarrow> string" where
  "render_diffs E layout diffs =
     (case layout of
        Vertical \<Rightarrow>
          concat (map (\<lambda>d. ''  '' @ (if fd_changed d then ''*'' else '' '') @ '' '' @ fd_field d @ '': '' @
            x_bson_display E (fd_before d) @ '' -> '' @ x_bson_display E (fd_after d) @ nl) diffs)
      | Horizontal \<Rightarrow>
          ''  field : '' @ join_with bar (map fd_field diffs) @ nl @
          ''  before: '' @ join_with bar (map (\<lambda>d. x_bson_display E (fd_before d)) diffs) @ nl @
          ''  after : '' @ join_with bar (map (\<lambda>d. x_bson_display E (fd_after d)) diffs) @ nl)"

definition render_text :: "ext \<Rightarrow> table_format \<Rightarrow> field_diff list list \<Rightarrow> string" where
  "render_text E layout per_doc =
     concat (map (\<lambda>(i, diffs). ''document #'' @ show_nat i @ nl @ render_diffs E layout diffs)
       (enumerate 0 per_doc))"

definition or_null :: "bson option \<Rightarrow> bson" where
  "or_null v = (case v of None \<Rightarrow> BNull | Some b \<Rightarrow> b)"

definition field_diff_of :: "document \<Rightarrow> document \<Rightarrow> string \<Rightarrow> field_diff" where
  "field_diff_of doc out f =
     (let before = or_null (doc_get f doc); after = or_null (doc_get f out)
      in \<lparr>fd_field = f, fd_before = before, fd_after = after, fd_changed = (\<not> bson_pe before after)\<rparr>)"

definition preview_doc ::
    "ext \<Rightarrow> transformation_plan \<Rightarrow> registry \<Rightarrow> hash_engine \<Rightarrow> string \<Rightarrow> bool \<Rightarrow> document \<Rightarrow> field_diff list res" where
  "preview_doc E plan reg eng coll only doc =
     map_sum id (\<lambda>out. map (field_diff_of doc out)
         (if only then transformed_fields plan coll else map fst doc))
       (plan_transform E plan reg eng coll doc)"

definition preview_rows ::
    "ext \<Rightarrow> transformation_plan \<Rightarrow> registry \<Rightarrow> hash_engine \<Rightarrow> string \<Rightarrow> document list \<Rightarrow> preview_options
       \<Rightarrow> field_diff list list res" where
  "preview_rows E plan reg eng coll docs o' =
     collect_res (preview_doc E plan reg eng coll (po_transformed_only o')) (take (po_rows_limit o') docs)"

definition preview ::
    "ext \<Rightarrow> (json \<Rightarrow> string) \<Rightarrow> transformation_plan \<Rightarrow> registry \<Rightarrow> hash_engine \<Rightarrow> string \<Rightarrow> document list
       \<Rightarrow> warning list \<Rightarrow> string list \<Rightarrow> preview_options \<Rightarrow> string res" where
  "preview E pretty plan reg eng coll docs ws resolved o' =
     (if po_strict o' \<and> has_unresolved ws resolved then
        Inl (ValidationError ''unresolved validation warnings (--strict)'')
      else map_sum id (\<lambda>rows. case po_format o' of
                 Json \<Rightarrow> render_json E pretty rows
               | Text \<Rightarrow> render_text E (po_table_format o') rows)
             (preview_rows E plan reg eng coll docs o'))"

section \<open>A dump against the live deployment\<close>

definition selected :: "string option \<Rightarrow> string \<Rightarrow> bool" where
  "selected wanted name = (case wanted of None \<Rightarrow> True | Some w \<Rightarrow> w = name)"

definition live_schema :: "mongo_source \<Rightarrow> string list \<Rightarrow> string \<Rightarrow> string \<Rightarrow> collection_schema res" where
  "live_schema src colls db coll =
     (if List.member colls coll then
        map_sum id (\<lambda>st. schema_from_parts coll (st_indexes st) (st_validator st) (st_options st))
          (ms_structure src db coll)
      else Inr (new_schema coll))"

definition diff_stored ::
    "codec \<Rightarrow> 's storage \<Rightarrow> 's \<Rightarrow> mongo_source \<Rightarrow> string \<Rightarrow> string list \<Rightarrow> string \<Rightarrow> string \<Rightarrow> string list res" where
  "diff_stored C S s src did colls db coll =
     (case read_collection_meta C S did db coll s of
        Inl e \<Rightarrow> Inl e
      | Inr m \<Rightarrow>
          map_sum id (\<lambda>live. map (\<lambda>d. db @ ''.'' @ describe d coll)
              (diff_collection (schema_from_parts coll (cm_indexes m) (cm_validator m) (cm_options m)) live))
            (live_schema src colls db coll))"

fun diff_colls ::
    "codec \<Rightarrow> 's storage \<Rightarrow> 's \<Rightarrow> mongo_source \<Rightarrow> string \<Rightarrow> string option \<Rightarrow> string list \<Rightarrow> string
       \<Rightarrow> collection_toc list \<Rightarrow> string list \<Rightarrow> string list res" where
  "diff_colls C S s src did wanted colls db [] report = Inr report"
| "diff_colls C S s src did wanted colls db (c # cs) report =
     (if \<not> selected wanted (toc_name c) then diff_colls C S s src did wanted colls db cs report
      else case diff_stored C S s src did colls db (toc_name c) of
             Inl e \<Rightarrow> Inl e
           | Inr lines \<Rightarrow> diff_colls C S s src did wanted colls db cs (report @ lines))"

fun diff_dbs ::
    "codec \<Rightarrow> 's storage \<Rightarrow> 's \<Rightarrow> mongo_source \<Rightarrow> string \<Rightarrow> string option \<Rightarrow> string option
       \<Rightarrow> database_toc list \<Rightarrow> string list \<Rightarrow> string list res" where
  "diff_dbs C S s src did dbw cw [] report = Inr report"
| "diff_dbs C S s src did dbw cw (db # dbs) report =
     (if \<not> selected dbw (dt_name db) then diff_dbs C S s src did dbw cw dbs report
      else case ms_collections src (dt_name db) of
             Inl e \<Rightarrow> Inl e
           | Inr colls \<Rightarrow>
               (case diff_colls C S s src did cw colls (dt_name db) (dt_collections db) report of
                  Inl e \<Rightarrow> Inl e
                | Inr report' \<Rightarrow> diff_dbs C S s src did dbw cw dbs report'))"

definition diff_dump_against_live ::
    "codec \<Rightarrow> 's storage \<Rightarrow> 's \<Rightarrow> mongo_source \<Rightarrow> string \<Rightarrow> string option \<Rightarrow> string option \<Rightarrow> string list res" where
  "diff_dump_against_live C S s src dump_id dbw cw =
     (case resolve_dump C S dump_id s of
        Inl e \<Rightarrow> Inl e
      | Inr m \<Rightarrow> diff_dbs C S s src (dm_id m) dbw cw (dm_databases m) [])"

section \<open>Lemmas\<close>

lemma bt_insert_swap:
  "k \<noteq> k' \<Longrightarrow> bt_insert k v (bt_insert k' v' m) = bt_insert k' v' (bt_insert k v m)"
  by (induction m) auto

lemma with_meta_swap: "k \<noteq> k' \<Longrightarrow> with_meta E k v (with_meta E k' v' w) = with_meta E k' v' (with_meta E k v w)"
  by (simp add: with_meta_def Let_def bt_insert_swap)

lemma has_unresolved_visible: "has_unresolved ws resolved \<longleftrightarrow> visible ws resolved False \<noteq> []"
  by (simp add: has_unresolved_def visible_def filter_empty_conv list_ex_iff)

lemma preview_doc_rows:
  assumes "preview_doc E plan reg eng coll only doc = Inr row"
  shows "\<exists>out. plan_transform E plan reg eng coll doc = Inr out
    \<and> row = map (field_diff_of doc out) (if only then transformed_fields plan coll else map fst doc)"
  using assms by (cases "plan_transform E plan reg eng coll doc") (auto simp: preview_doc_def)

text \<open>What is not configured is not shown as changed, if the value equals itself.\<close>

lemma untouched_unmarked:
  assumes "plan_transform E plan reg eng coll doc = Inr out" "dot \<notin> set f"
    and "\<And>g. g \<in> set (transformed_fields plan coll) \<Longrightarrow> paths_independent g f"
    and "bson_pe (or_null (doc_get f doc)) (or_null (doc_get f doc))"
  shows "\<not> fd_changed (field_diff_of doc out f)"
proof -
  have "get_path out f = get_path doc f" using plan_transform_frame [OF assms(1,3)] by simp
  then have "doc_get f out = doc_get f doc" using get_path_top [OF assms(2)] by simp
  with assms(4) show ?thesis by (simp add: field_diff_of_def Let_def)
qed

text \<open>The diff of a stored collection, read back from its report.\<close>

definition stored_diff ::
    "codec \<Rightarrow> 's storage \<Rightarrow> 's \<Rightarrow> mongo_source \<Rightarrow> string \<Rightarrow> string \<Rightarrow> string \<Rightarrow> schema_diff list option" where
  "stored_diff C S s src did db coll =
     (case (read_collection_meta C S did db coll s, ms_collections src db) of
        (Inr m, Inr colls) \<Rightarrow>
          (case live_schema src colls db coll of
             Inr live \<Rightarrow> Some (diff_collection (schema_from_parts coll (cm_indexes m) (cm_validator m) (cm_options m)) live)
           | Inl e \<Rightarrow> None)
      | _ \<Rightarrow> None)"

definition report_line :: "string \<Rightarrow> string \<Rightarrow> schema_diff \<Rightarrow> string" where
  "report_line db coll d = db @ ''.'' @ describe d coll"

lemma diff_stored_some:
  assumes "diff_stored C S s src did colls db coll = Inr lines" "ms_collections src db = Inr colls"
  shows "\<exists>ds. stored_diff C S s src did db coll = Some ds \<and> lines = map (report_line db coll) ds"
  using assms by (auto simp: diff_stored_def stored_diff_def report_line_def split: sum.splits)

lemma diff_colls_spec:
  "diff_colls C S s src did cw colls db cs report = Inr report' \<Longrightarrow> ms_collections src db = Inr colls \<Longrightarrow>
     (\<forall>c \<in> set cs. selected cw (toc_name c) \<longrightarrow> stored_diff C S s src did db (toc_name c) \<noteq> None)
     \<and> report' = report @ concat (map (\<lambda>c. map (report_line db (toc_name c))
          (the (stored_diff C S s src did db (toc_name c)))) (filter (\<lambda>c. selected cw (toc_name c)) cs))"
proof (induction cs arbitrary: report)
  case (Cons c cs)
  show ?case
  proof (cases "selected cw (toc_name c)")
    case False
    with Cons show ?thesis by simp
  next
    case True
    then obtain lines where l: "diff_stored C S s src did colls db (toc_name c) = Inr lines"
      using Cons.prems(1) by (auto split: sum.splits)
    with Cons.prems True have "diff_colls C S s src did cw colls db cs (report @ lines) = Inr report'" by simp
    from Cons.IH [OF this Cons.prems(2)] diff_stored_some [OF l Cons.prems(2)] True show ?thesis by auto
  qed
qed simp

lemma diff_dbs_spec:
  "diff_dbs C S s src did dbw cw dbs report = Inr report' \<Longrightarrow>
     (\<forall>db \<in> set dbs. selected dbw (dt_name db) \<longrightarrow> (\<forall>c \<in> set (dt_collections db). selected cw (toc_name c) \<longrightarrow>
        stored_diff C S s src did (dt_name db) (toc_name c) \<noteq> None))
     \<and> report' = report @ concat (map (\<lambda>db. concat (map (\<lambda>c. map (report_line (dt_name db) (toc_name c))
          (the (stored_diff C S s src did (dt_name db) (toc_name c))))
            (filter (\<lambda>c. selected cw (toc_name c)) (dt_collections db))))
          (filter (\<lambda>db. selected dbw (dt_name db)) dbs))"
proof (induction dbs arbitrary: report)
  case (Cons db dbs)
  show ?case
  proof (cases "selected dbw (dt_name db)")
    case False
    with Cons show ?thesis by simp
  next
    case True
    obtain colls where c: "ms_collections src (dt_name db) = Inr colls"
      using Cons.prems True by (auto split: sum.splits)
    obtain report1 where r: "diff_colls C S s src did cw colls (dt_name db) (dt_collections db) report = Inr report1"
      using Cons.prems True c by (auto split: sum.splits)
    have "diff_dbs C S s src did dbw cw dbs report1 = Inr report'" using Cons.prems True c r by simp
    from Cons.IH [OF this] diff_colls_spec [OF r c] True show ?thesis by simp
  qed
qed simp

section \<open>Properties\<close>

text \<open>
  The preview shows what a dump would do: one row per sampled document up to the limit, each with the
  fields asked for in order, their values before and after the transformation the plan makes of that
  document, and no mark on a field the plan does not configure.
\<close>

theorem preview_faithful:
  assumes "preview_rows E plan reg eng coll docs o' = Inr rows"
  shows "length rows = min (po_rows_limit o') (length docs)
    \<and> (\<forall>i < length rows. \<exists>out. plan_transform E plan reg eng coll (docs ! i) = Inr out
        \<and> map fd_field (rows ! i) =
            (if po_transformed_only o' then transformed_fields plan coll else map fst (docs ! i))
        \<and> (\<forall>d \<in> set (rows ! i). d = field_diff_of (docs ! i) out (fd_field d)
            \<and> (fd_changed d \<longrightarrow> dot \<in> set (fd_field d)
                \<or> (\<exists>g \<in> set (transformed_fields plan coll). \<not> paths_independent g (fd_field d))
                \<or> \<not> bson_pe (fd_before d) (fd_before d))))"
proof -
  let ?docs = "take (po_rows_limit o') docs"
  have all: "list_all2 (\<lambda>d r. preview_doc E plan reg eng coll (po_transformed_only o') d = Inr r) ?docs rows"
    using assms by (simp add: preview_rows_def collect_res_Inr_iff)
  have len: "length rows = min (po_rows_limit o') (length docs)"
    using list_all2_lengthD [OF all] by (simp add: min.commute)
  have row: "\<exists>out. plan_transform E plan reg eng coll (docs ! i) = Inr out
      \<and> rows ! i = map (field_diff_of (docs ! i) out)
          (if po_transformed_only o' then transformed_fields plan coll else map fst (docs ! i))"
    if i: "i < length rows" for i
    using list_all2_nthD2 [OF all i] len i preview_doc_rows by fastforce
  have mark: "dot \<in> set (fd_field d) \<or> (\<exists>g \<in> set (transformed_fields plan coll). \<not> paths_independent g (fd_field d))
      \<or> \<not> bson_pe (fd_before d) (fd_before d)"
    if "plan_transform E plan reg eng coll doc = Inr out" "d = field_diff_of doc out f" "fd_changed d" for doc out d f
    using untouched_unmarked [OF that(1), of f] that(2,3) by (auto simp: field_diff_of_def Let_def)
  have field: "fd_field (field_diff_of doc out f) = f" for doc out f by (simp add: field_diff_of_def Let_def)
  show ?thesis
  proof (intro conjI allI impI len)
    fix i
    assume "i < length rows"
    then obtain out where out: "plan_transform E plan reg eng coll (docs ! i) = Inr out"
      "rows ! i = map (field_diff_of (docs ! i) out)
          (if po_transformed_only o' then transformed_fields plan coll else map fst (docs ! i))"
      using row by blast
    have "map fd_field (rows ! i) = (if po_transformed_only o' then transformed_fields plan coll else map fst (docs ! i))"
      unfolding out(2) by (simp add: comp_def field)
    moreover have "d = field_diff_of (docs ! i) out (fd_field d)" if "d \<in> set (rows ! i)" for d
      using that unfolding out(2) by (auto simp: field)
    ultimately show "\<exists>out. plan_transform E plan reg eng coll (docs ! i) = Inr out
        \<and> map fd_field (rows ! i) =
            (if po_transformed_only o' then transformed_fields plan coll else map fst (docs ! i))
        \<and> (\<forall>d \<in> set (rows ! i). d = field_diff_of (docs ! i) out (fd_field d)
            \<and> (fd_changed d \<longrightarrow> dot \<in> set (fd_field d)
                \<or> (\<exists>g \<in> set (transformed_fields plan coll). \<not> paths_independent g (fd_field d))
                \<or> \<not> bson_pe (fd_before d) (fd_before d)))"
      using out(1) mark [OF out(1)] by blast
  qed
qed


section \<open>An example\<close>

definition sample_preview_options :: preview_options where
  "sample_preview_options =
     \<lparr>po_rows_limit = 1, po_format = Text, po_table_format = Vertical, po_transformed_only = False, po_strict = True\<rparr>"

theorem preview_faithful_witness:
  "\<exists>rows. preview_rows sample_ext sample_plan sample_registry sample_engine ''users'' [sample_doc, sample_doc]
      sample_preview_options = Inr rows
    \<and> length rows = 1 \<and> map fd_field (rows ! 0) = [''email'', ''card'', ''age'', ''active'']"
proof -
  let ?rows = "preview_rows sample_ext sample_plan sample_registry sample_engine ''users'' [sample_doc, sample_doc]
      sample_preview_options"
  have "\<not> isl ?rows" by code_simp
  then obtain rows where rows: "?rows = Inr rows" by (cases ?rows) auto
  from preview_faithful [OF rows] have "length rows = 1" by (simp add: sample_preview_options_def)
  moreover from this preview_faithful [OF rows] have "map fd_field (rows ! 0) = map fst sample_doc"
    by (auto simp: sample_preview_options_def)
  ultimately show ?thesis using rows by (simp add: sample_doc_def)
qed

text \<open>A dump naming one collection, compared with a deployment where its structure is the recorded one.\<close>

definition drift_codec :: codec where
  "drift_codec = sample_codec\<lparr>dec_meta := (\<lambda>bs. Some
     \<lparr>dm_id = ''x'', dm_status = Done, dm_created_at = ''2024'',
      dm_databases = [\<lparr>dt_name = ''d'', dt_collections =
        [\<lparr>toc_name = ''c'', toc_count = 2, toc_indexes = [], toc_order = 0\<rparr>]\<rparr>], dm_size = 0\<rparr>)\<rparr>"

definition drift_store :: fsys where
  "drift_store = snd (dir_put ''x/metadata.json'' [97]
     (snd (write_collection_data sample_codec dir_storage ''x'' sample_data False [])))"


end
