(* ===== verification/Cli.thy ===== *)
theory Cli
  imports Subset RoundTrip Management Validate
begin

text \<open>
  The command line (src/cli.rs) and the choice of the storage backend (src/storage/selection.rs):
  loading the configuration, reading its raw sections, resolving the options and filters of a run,
  and the commands that put the components together.

  What the program gets from its environment is the record \<open>world\<close>: reading a file, serde_yaml, the
  environment variables, the clock, starting a process, the backends that are compiled in, and
  connecting to MongoDB. A command returns its result, what it prints, and the new state of the
  storage and of the deployment. Log messages are not modelled.
\<close>

section \<open>Choosing the backend\<close>

text \<open>A cloud backend is \<open>None\<close> when its cargo feature is off.\<close>

record 's backends =
  be_directory :: "string \<Rightarrow> 's storage res"
  be_s3 :: "(params \<Rightarrow> 's storage res) option"
  be_azure :: "(params \<Rightarrow> 's storage res) option"
  be_ssh :: "(params \<Rightarrow> 's storage res) option"

definition open_cloud :: "string \<Rightarrow> (params \<Rightarrow> 's storage res) option \<Rightarrow> storage_cfg \<Rightarrow> 's storage res" where
  "open_cloud name opener cfg =
     (case opener of
        Some f \<Rightarrow> f (st_params cfg)
      | None \<Rightarrow> Inl (StorageError (''storage backend '' @ quoted name @
                  '' is not compiled in; rebuild leafmask with --features '' @ name)))"

definition open_from_config :: "'s backends \<Rightarrow> storage_cfg \<Rightarrow> 's storage res" where
  "open_from_config be cfg =
     (case kind cfg of
        None \<Rightarrow> Inl (StorageError ''storage.type is required (directory, s3, azure, or ssh)'')
      | Some k \<Rightarrow>
          if k = ''directory'' then
            (case Option.bind (params_get (st_params cfg) ''path'') y_as_str of
               None \<Rightarrow> Inl (StorageError (''directory storage requires a '' @ quoted ''path''))
             | Some p \<Rightarrow> be_directory be p)
          else if k = ''s3'' then open_cloud ''s3'' (be_s3 be) cfg
          else if k = ''azure'' then open_cloud ''azure'' (be_azure be) cfg
          else if k = ''ssh'' then open_cloud ''ssh'' (be_ssh be) cfg
          else Inl (StorageError (''unsupported storage.type '' @ quoted k @
                 '' (valid: directory, s3, azure, ssh)'')))"

section \<open>Arguments\<close>

record dump_args =
  da_gzip :: bool
  da_include_db :: "string list"
  da_exclude_db :: "string list"
  da_include_collection :: "string list"
  da_exclude_collection :: "string list"
  da_jobs :: nat
  da_no_indexes :: bool

record restore_args =
  ra_id :: string
  ra_include_collection :: "string list"
  ra_exclude_collection :: "string list"
  ra_include_index :: "string list"
  ra_exclude_index :: "string list"
  ra_batch_size :: nat
  ra_ordered :: bool
  ra_dependency_order :: bool
  ra_exit_on_error :: bool
  ra_clean :: bool
  ra_jobs :: nat

record validate_args =
  va_data :: bool
  va_schema :: bool
  va_dump :: string
  va_database :: "string option"
  va_collection :: "string option"
  va_rows_limit :: nat
  va_format :: string
  va_table_format :: string
  va_transformed_only :: bool
  va_strict :: bool

record delete_args =
  de_id :: "string option"
  de_retain_recent :: "nat option"
  de_before_date :: "string option"
  de_prune_failed :: bool
  de_prune_unsafe :: bool
  de_dry_run :: bool

datatype command =
    ListTransformers
  | ShowTransformer string
  | ListDumps
  | ShowDump string
  | Delete delete_args
  | DumpCommand dump_args
  | RestoreCommand restore_args
  | ValidateCommand validate_args

record cli =
  cl_config :: "string option"
  cl_uri :: "string option"
  cl_command :: command

section \<open>The environment\<close>

text \<open>The typed views of the raw sections that serde_yaml decodes; each leaves unknown keys alone.\<close>

type_synonym filter_quad = "string list \<times> string list \<times> string list \<times> string list"

record restore_section_cfg =
  rc_exclusions :: error_exclusions
  rc_scripts :: "(string \<times> script_spec list) list"
  rc_clean :: bool

record section_parsers =
  sp_transformation :: "yaml \<Rightarrow> string + transformation_config list"
  sp_subset_conds :: "yaml \<Rightarrow> string + (string \<times> string) list"
  sp_references :: "yaml \<Rightarrow> string + reference_entry list"
  sp_dump_filters :: "yaml \<Rightarrow> string + filter_quad"
  sp_restore_filters :: "yaml \<Rightarrow> string + filter_quad"
  sp_restore :: "yaml \<Rightarrow> string + restore_section_cfg"
  sp_custom :: "yaml \<Rightarrow> string + custom_def list"

text \<open>A connection: reading the deployment in its state, and writing to it.\<close>

record 't connection =
  cn_source :: "'t \<Rightarrow> mongo_source"
  cn_sink :: "'t mongo_sink"

record ('s, 't) world =
  wd_ext :: ext
  wd_codec :: codec
  wd_read_file :: "string \<Rightarrow> string + string"
  wd_from_yaml :: "string \<Rightarrow> string + config"
  wd_env :: "string \<Rightarrow> string option"
  wd_sections :: section_parsers
  wd_transformer :: "string list \<Rightarrow> transformer res"
  wd_start :: "'t starter"
  wd_mongosh :: string
  wd_backends :: "'s backends"
  wd_connect :: "string \<Rightarrow> 't connection res"
  wd_now :: int
  wd_dump_id :: string
  wd_created :: string
  wd_rfc3339 :: "string \<Rightarrow> string + int"
  wd_pretty :: "json \<Rightarrow> string"
  wd_dump_workers :: "work_item list \<Rightarrow> nat \<Rightarrow> 's \<Rightarrow> item_result option list \<times> 's"
  wd_restore_workers :: "restore_target list \<Rightarrow> nat \<Rightarrow> 't \<Rightarrow> item_report option list \<times> 't"

section \<open>The configuration of a run\<close>

definition load :: "('s, 't) world \<Rightarrow> string \<Rightarrow> config res" where
  "load W path =
     (case wd_read_file W path of
        Inl e \<Rightarrow> Inl (ConfigError (''cannot read '' @ path @ '': '' @ e))
      | Inr raw \<Rightarrow> parse_str (wd_from_yaml W) (interpolate_env (wd_env W) raw))"

definition maybe_config :: "('s, 't) world \<Rightarrow> cli \<Rightarrow> config option res" where
  "maybe_config W cl =
     (case locate (cl_config cl) None of
        Inr path \<Rightarrow> map_sum id Some (load W path)
      | Inl e \<Rightarrow> Inr None)"

definition require_config :: "('s, 't) world \<Rightarrow> cli \<Rightarrow> config res" where
  "require_config W cl =
     (case locate (cl_config cl) None of Inl e \<Rightarrow> Inl e | Inr path \<Rightarrow> load W path)"

definition open_storage :: "('s, 't) world \<Rightarrow> cli \<Rightarrow> 's storage res" where
  "open_storage W cl =
     (case require_config W cl of
        Inl e \<Rightarrow> Inl e
      | Inr cfg \<Rightarrow> open_from_config (wd_backends W) (storage_section cfg))"

definition resolve_uri :: "cli \<Rightarrow> config \<Rightarrow> string res" where
  "resolve_uri cl cfg =
     ok_or (ConfigError ''MongoDB URI required: pass --uri or set mongodb.uri'')
       (case cl_uri cl of Some u \<Rightarrow> Some u | None \<Rightarrow> mongo_uri cfg)"

definition resolve_list :: "string list \<Rightarrow> string list \<Rightarrow> string list" where
  "resolve_list cli_list config_list = (if cli_list = [] then config_list else cli_list)"

text \<open>A section that is absent has its default, one that does not decode is an error with its label.\<close>

definition from_section :: "string \<Rightarrow> 'a \<Rightarrow> (yaml \<Rightarrow> string + 'a) \<Rightarrow> yaml \<Rightarrow> 'a res" where
  "from_section label dflt decode v =
     (if v = YNull then Inr dflt
      else case decode v of
             Inl e \<Rightarrow> Inl (ConfigError (label @ '': '' @ e))
           | Inr x \<Rightarrow> Inr x)"

definition transformation_configs :: "section_parsers \<Rightarrow> config \<Rightarrow> transformation_config list res" where
  "transformation_configs sp cfg =
     from_section ''dump.transformation'' [] (sp_transformation sp) (dump_section cfg)"

definition dump_subset_conds :: "section_parsers \<Rightarrow> config \<Rightarrow> (string \<times> string) list res" where
  "dump_subset_conds sp cfg =
     from_section ''dump.subset_conds'' [] (sp_subset_conds sp) (dump_section cfg)"

text \<open>\<open>to_filter\<close> panics on an expression with a literal that is a lone quote.\<close>

definition cond_filter :: "ext \<Rightarrow> string \<times> string \<Rightarrow> (string \<times> document) res" where
  "cond_filter E p =
     (case parse_condition (snd p) of
        Inl e \<Rightarrow> Inl e
      | Inr c \<Rightarrow>
          (case to_filter E c of
             None \<Rightarrow> Inl (Panicked ''slice index out of range'')
           | Some f \<Rightarrow> Inr (fst p, f)))"

definition dump_subset_filters :: "ext \<Rightarrow> section_parsers \<Rightarrow> config \<Rightarrow> (string \<times> document) list res" where
  "dump_subset_filters E sp cfg =
     (case dump_subset_conds sp cfg of
        Inl e \<Rightarrow> Inl e
      | Inr cs \<Rightarrow> collect_res (cond_filter E) cs)"

definition reference_graph_of :: "ext \<Rightarrow> section_parsers \<Rightarrow> config \<Rightarrow> reference_graph res" where
  "reference_graph_of E sp cfg =
     map_sum id (from_entries E)
       (from_section ''virtual_references'' [] (sp_references sp) (virtual_references cfg))"

definition subset_governed_collections :: "reference_graph \<Rightarrow> (string \<times> string) list \<Rightarrow> string list" where
  "subset_governed_collections g cs =
     remdups_adj (sort (map fst cs @ concat (map (\<lambda>e. from_collection e # target_collections e) g)))"

definition id_filter :: "(string \<times> bson list) list \<Rightarrow> string \<Rightarrow> document" where
  "id_filter ids coll =
     doc_insert ''_id'' (BDocument (doc_insert ''$in''
       (BArray (case kv_get coll ids of None \<Rightarrow> [] | Some xs \<Rightarrow> xs)) [])) []"

definition id_membership_filters ::
    "string list \<Rightarrow> (string \<times> bson list) list \<Rightarrow> (string \<times> document) list" where
  "id_membership_filters governed ids = map (\<lambda>c. (c, id_filter ids c)) governed"

definition dump_filter_lists :: "section_parsers \<Rightarrow> config \<Rightarrow> filter_quad res" where
  "dump_filter_lists sp cfg =
     from_section ''dump filters'' ([], [], [], []) (sp_dump_filters sp) (dump_section cfg)"

definition restore_filter_lists :: "section_parsers \<Rightarrow> config \<Rightarrow> filter_quad res" where
  "restore_filter_lists sp cfg =
     from_section ''restore filters'' ([], [], [], []) (sp_restore_filters sp) (restore_section cfg)"

definition should_warn_default_salt :: "config \<Rightarrow> bool \<Rightarrow> bool" where
  "should_warn_default_salt cfg configured = (configured \<and> snd (resolve_salt (common cfg)))"

definition engine_from :: "config \<Rightarrow> hash_engine" where
  "engine_from cfg = \<lparr>salt = string_bytes (fst (resolve_salt (common cfg)))\<rparr>"

section \<open>Filters of a dump\<close>

definition subset_candidate :: "dump_options \<Rightarrow> string \<Rightarrow> bool" where
  "subset_candidate o' db =
     (\<not> List.member (do_exclude_databases o') db
      \<and> (do_include_databases o' = [] \<or> List.member (do_include_databases o') db))"

definition subset_database :: "mongo_source \<Rightarrow> dump_options \<Rightarrow> string res" where
  "subset_database src o' =
     (case ms_databases src of
        Inl e \<Rightarrow> Inl e
      | Inr dbs \<Rightarrow>
          (case filter (subset_candidate o') dbs of
             [db] \<Rightarrow> Inr db
           | [] \<Rightarrow> Inl (ConfigError (''referential subsetting found no database to run against; '' @
                      ''check the include/exclude database filters''))
           | candidates \<Rightarrow>
               Inl (ConfigError (''referential subsetting needs exactly one database, but '' @
                 show_nat (length candidates) @ '' are selected ('' @ join_with '', '' candidates @
                 ''); narrow the dump with --include-db''))))"

definition resolve_dump_filters ::
    "ext \<Rightarrow> section_parsers \<Rightarrow> config \<Rightarrow> mongo_source \<Rightarrow> reference_graph \<Rightarrow> dump_options
       \<Rightarrow> (string \<times> document) list res option" where
  "resolve_dump_filters E sp cfg src g o' =
     (case dump_subset_conds sp cfg of
        Inl e \<Rightarrow> Some (Inl e)
      | Inr cs \<Rightarrow>
          if g = [] \<or> cs = [] then Some (dump_subset_filters E sp cfg)
          else (case subset_database src o' of
                  Inl e \<Rightarrow> Some (Inl e)
                | Inr db \<Rightarrow>
                    (case engine_new g cs of
                       Inl e \<Rightarrow> Some (Inl e)
                     | Inr eng \<Rightarrow>
                         map_option
                           (map_sum id (id_membership_filters (subset_governed_collections g cs)))
                           (compute_ids E eng (mongo_document_source E src db g)))))"

section \<open>The commands\<close>

type_synonym ('s, 't) outcome = "unit res \<times> string \<times> 's \<times> 't"

definition failing :: "error \<Rightarrow> 's \<Rightarrow> 't \<Rightarrow> ('s, 't) outcome" where
  "failing e s t = (Inl e, [], s, t)"

definition dump_options_of :: "config \<Rightarrow> dump_args \<Rightarrow> filter_quad \<Rightarrow> dump_options" where
  "dump_options_of cfg a q =
     (case q of (idb, edb, ic, ec) \<Rightarrow>
        \<lparr>do_tmp_dir = tmp_dir (common cfg),
         do_include_databases = resolve_list (da_include_db a) idb,
         do_exclude_databases = resolve_list (da_exclude_db a) edb,
         do_include_collections = resolve_list (da_include_collection a) ic,
         do_exclude_collections = resolve_list (da_exclude_collection a) ec,
         do_gzip = da_gzip a, do_parallel_jobs = da_jobs a, do_no_indexes = da_no_indexes a\<rparr>)"

text \<open>The part of \<open>cmd_dump\<close> that depends on the configuration alone: registry, plan, graph, options.\<close>

definition dump_parts ::
    "('s, 't) world \<Rightarrow> config \<Rightarrow> dump_args
       \<Rightarrow> (registry \<times> transformation_plan option \<times> reference_graph \<times> dump_options) res" where
  "dump_parts W cfg a =
     (let E = wd_ext W; sp = wd_sections W
      in case build_registry E (wd_transformer W) (sp_custom sp) (Some cfg) of
           Inl e \<Rightarrow> Inl e
         | Inr reg \<Rightarrow>
       (case transformation_configs sp cfg of
           Inl e \<Rightarrow> Inl e
         | Inr configs \<Rightarrow>
       (case reference_graph_of E sp cfg of
           Inl e \<Rightarrow> Inl e
         | Inr g \<Rightarrow>
       (case compile_with_references E configs reg (engine_from cfg) g of
           Inl e \<Rightarrow> Inl e
         | Inr plan \<Rightarrow>
       (case dump_filter_lists sp cfg of
           Inl e \<Rightarrow> Inl e
         | Inr q \<Rightarrow>
             Inr (reg, if configs = [] then None else Some plan, g, dump_options_of cfg a q))))))"

definition connect_for :: "('s, 't) world \<Rightarrow> cli \<Rightarrow> config \<Rightarrow> 't connection res" where
  "connect_for W cl cfg =
     (case resolve_uri cl cfg of Inl e \<Rightarrow> Inl e | Inr uri \<Rightarrow> wd_connect W uri)"

definition cmd_dump ::
    "('s, 't) world \<Rightarrow> cli \<Rightarrow> dump_args \<Rightarrow> 's \<Rightarrow> 't \<Rightarrow> ('s, 't) outcome option" where
  "cmd_dump W cl a s t =
     (case require_config W cl of
        Inl e \<Rightarrow> Some (failing e s t)
      | Inr cfg \<Rightarrow>
     (case open_from_config (wd_backends W) (storage_section cfg) of
        Inl e \<Rightarrow> Some (failing e s t)
      | Inr S \<Rightarrow>
     (case connect_for W cl cfg of
        Inl e \<Rightarrow> Some (failing e s t)
      | Inr cn \<Rightarrow>
     (case dump_parts W cfg a of
        Inl e \<Rightarrow> Some (failing e s t)
      | Inr (reg, plan, g, o') \<Rightarrow>
     (case resolve_dump_filters (wd_ext W) (wd_sections W) cfg (cn_source cn t) g o' of
        None \<Rightarrow> None
      | Some (Inl e) \<Rightarrow> Some (failing e s t)
      | Some (Inr fs) \<Rightarrow>
          Some (case dump_run (wd_ext W) (wd_codec W) S
                       \<lparr>du_source = cn_source cn t, du_registry = reg, du_engine = engine_from cfg,
                        du_plan = plan, du_filters = fs, du_options = o'\<rparr>
                       (wd_dump_workers W) (wd_dump_id W) (wd_created W) s of
                  (Inl e, s') \<Rightarrow> failing e s' t
                | (Inr m, s') \<Rightarrow>
                    (Inr (), ''created dump '' @ dm_id m @ '' ('' @ show_nat (dm_size m) @ '' bytes)'' @ nl,
                     s', t)))))))"

definition restore_options_of ::
    "restore_args \<Rightarrow> restore_section_cfg \<Rightarrow> filter_quad \<Rightarrow> restore_options" where
  "restore_options_of a rc q =
     (case q of (ic, ec, ii, ei) \<Rightarrow>
        \<lparr>ro_include_collections = resolve_list (ra_include_collection a) ic,
         ro_exclude_collections = resolve_list (ra_exclude_collection a) ec,
         ro_include_indexes = resolve_list (ra_include_index a) ii,
         ro_exclude_indexes = resolve_list (ra_exclude_index a) ei,
         ro_batch_size = ra_batch_size a, ro_ordered = ra_ordered a,
         ro_dependency_order = ra_dependency_order a, ro_exit_on_error = ra_exit_on_error a,
         ro_clean = (ra_clean a \<or> rc_clean rc), ro_parallel_jobs = ra_jobs a\<rparr>)"

definition default_restore_section :: restore_section_cfg where
  "default_restore_section =
     \<lparr>rc_exclusions = \<lparr>global_codes = [], global_indexes = [], ex_collections = []\<rparr>,
      rc_scripts = [], rc_clean = False\<rparr>"

text \<open>The report becomes the result of the command: a failed collection fails it.\<close>

definition restore_verdict :: "restore_report \<Rightarrow> unit res" where
  "restore_verdict rep =
     (if rp_failed rep \<noteq> [] then
        Inl (RestoreError (show_nat (length (rp_failed rep)) @ '' of the restored collections failed: '' @
          join_with '', '' (rp_failed rep)))
      else Inr ())"

definition restore_parts ::
    "('s, 't) world \<Rightarrow> config \<Rightarrow> restore_args \<Rightarrow> (restore_section_cfg \<times> restore_options) res" where
  "restore_parts W cfg a =
     (case from_section ''restore'' default_restore_section (sp_restore (wd_sections W)) (restore_section cfg) of
        Inl e \<Rightarrow> Inl e
      | Inr rc \<Rightarrow>
          map_sum id (\<lambda>q. (rc, restore_options_of a rc q)) (restore_filter_lists (wd_sections W) cfg))"

definition cmd_restore :: "('s, 't) world \<Rightarrow> cli \<Rightarrow> restore_args \<Rightarrow> 's \<Rightarrow> 't \<Rightarrow> ('s, 't) outcome" where
  "cmd_restore W cl a s t =
     (case require_config W cl of
        Inl e \<Rightarrow> failing e s t
      | Inr cfg \<Rightarrow>
     (case open_from_config (wd_backends W) (storage_section cfg) of
        Inl e \<Rightarrow> failing e s t
      | Inr S \<Rightarrow>
     (case resolve_uri cl cfg of
        Inl e \<Rightarrow> failing e s t
      | Inr uri \<Rightarrow>
     (case wd_connect W uri of
        Inl e \<Rightarrow> failing e s t
      | Inr cn \<Rightarrow>
     (case restore_parts W cfg a of
        Inl e \<Rightarrow> failing e s t
      | Inr (rc, o') \<Rightarrow>
          (case restore_run
                  \<lparr>rs_codec = wd_codec W, rs_storage = S, rs_store = s, rs_sink = cn_sink cn,
                   rs_exclusions = rc_exclusions rc, rs_scripts = rc_scripts rc, rs_options = o'\<rparr>
                  (wd_restore_workers W) (process_runner (wd_start W) (wd_mongosh W) uri) (ra_id a) t of
             (Inl e, t') \<Rightarrow> failing e s t'
           | (Inr rep, t') \<Rightarrow>
               (restore_verdict rep,
                ''restored: '' @ show_nat (rp_inserted rep) @ '' inserted, '' @ show_nat (rp_skipped rep) @
                  '' skipped, '' @ show_nat (rp_indexes rep) @ '' indexes'' @ nl,
                s, t')))))))"

text \<open>\<open>validate --schema\<close> prints the drift and fails on it when strict.\<close>

definition cmd_validate_schema ::
    "('s, 't) world \<Rightarrow> cli \<Rightarrow> validate_args \<Rightarrow> 's \<Rightarrow> 't \<Rightarrow> ('s, 't) outcome" where
  "cmd_validate_schema W cl a s t =
     (case require_config W cl of
        Inl e \<Rightarrow> failing e s t
      | Inr cfg \<Rightarrow>
     (case open_from_config (wd_backends W) (storage_section cfg) of
        Inl e \<Rightarrow> failing e s t
      | Inr S \<Rightarrow>
     (case connect_for W cl cfg of
        Inl e \<Rightarrow> failing e s t
      | Inr cn \<Rightarrow>
     (case diff_dump_against_live (wd_codec W) S s (cn_source cn t) (va_dump a) (va_database a) (va_collection a) of
        Inl e \<Rightarrow> failing e s t
      | Inr drift \<Rightarrow>
          if drift = [] then
            (Inr (), ''no schema drift between dump '' @ va_dump a @ '' and the live database'' @ nl, s, t)
          else
            (if va_strict a then
               Inl (ValidationError (show_nat (length drift) @ '' schema difference(s) detected (--strict)''))
             else Inr (),
             concat (map (\<lambda>l. l @ nl) drift), s, t)))))"

text \<open>The preview: its plan is compiled without the reference graph, and no warnings exist yet.\<close>

definition cmd_preview ::
    "('s, 't) world \<Rightarrow> cli \<Rightarrow> validate_args \<Rightarrow> string \<Rightarrow> string \<Rightarrow> format \<Rightarrow> table_format \<Rightarrow> 't \<Rightarrow> string res" where
  "cmd_preview W cl a db coll f tf t =
     (case require_config W cl of
        Inl e \<Rightarrow> Inl e
      | Inr cfg \<Rightarrow>
     (case connect_for W cl cfg of
        Inl e \<Rightarrow> Inl e
      | Inr cn \<Rightarrow>
     (case build_registry (wd_ext W) (wd_transformer W) (sp_custom (wd_sections W)) (Some cfg) of
        Inl e \<Rightarrow> Inl e
      | Inr reg \<Rightarrow>
     (case transformation_configs (wd_sections W) cfg of
        Inl e \<Rightarrow> Inl e
      | Inr configs \<Rightarrow>
     (case compile (wd_ext W) configs reg (engine_from cfg) of
        Inl e \<Rightarrow> Inl e
      | Inr plan \<Rightarrow>
     (case ms_sample (cn_source cn t) db coll (va_rows_limit a) of
        Inl e \<Rightarrow> Inl e
      | Inr docs \<Rightarrow>
          preview (wd_ext W) (wd_pretty W) plan reg (engine_from cfg) coll docs [] (resolved_warnings cfg)
            \<lparr>po_rows_limit = va_rows_limit a, po_format = f, po_table_format = tf,
             po_transformed_only = va_transformed_only a, po_strict = va_strict a\<rparr>))))))"

definition cmd_validate ::
    "('s, 't) world \<Rightarrow> cli \<Rightarrow> validate_args \<Rightarrow> 's \<Rightarrow> 't \<Rightarrow> ('s, 't) outcome" where
  "cmd_validate W cl a s t =
     (if \<not> va_data a \<and> \<not> va_schema a then
        failing (ValidationError (''nothing to do: pass --data to preview transformations, or '' @
          ''--schema to report schema drift'')) s t
      else if va_data a \<and> va_schema a then
        failing (ValidationError ''--data and --schema are separate reports: pass one at a time'') s t
      else if va_schema a then cmd_validate_schema W cl a s t
      else case parse_format (va_format a) of
             Inl e \<Rightarrow> failing e s t
           | Inr f \<Rightarrow>
          (case parse_table_format (va_table_format a) of
             Inl e \<Rightarrow> failing e s t
           | Inr tf \<Rightarrow>
          (case (va_database a, va_collection a) of
             (Some db, Some coll) \<Rightarrow>
               (case cmd_preview W cl a db coll f tf t of
                  Inl e \<Rightarrow> failing e s t
                | Inr out \<Rightarrow> (Inr (), out, s, t))
           | _ \<Rightarrow> failing (ValidationError ''--data needs both --database and --collection'') s t)))"

definition cmd_delete :: "('s, 't) world \<Rightarrow> cli \<Rightarrow> delete_args \<Rightarrow> 's \<Rightarrow> 't \<Rightarrow> ('s, 't) outcome" where
  "cmd_delete W cl a s t =
     (case open_storage W cl of
        Inl e \<Rightarrow> failing e s t
      | Inr S \<Rightarrow>
          (case de_id a of
             Some did \<Rightarrow>
               if de_dry_run a then (Inr (), ''would delete '' @ did @ nl, s, t)
               else (case delete_dump (wd_codec W) S did s of
                       (Inl e, s') \<Rightarrow> failing e s' t
                     | (Inr u, s') \<Rightarrow> (Inr (), ''deleted '' @ did @ nl, s', t))
           | None \<Rightarrow>
               (case (case de_before_date a of
                        None \<Rightarrow> Inr None
                      | Some d \<Rightarrow>
                          (case wd_rfc3339 W d of
                             Inl e \<Rightarrow> Inl (ConfigError (''invalid --before-date: '' @ e))
                           | Inr x \<Rightarrow> Inr (Some x))) of
                  Inl e \<Rightarrow> failing e s t
                | Inr before \<Rightarrow>
                    (case prune (\<lambda>d. case wd_rfc3339 W d of Inl e \<Rightarrow> None | Inr x \<Rightarrow> Some x) (wd_codec W) S
                            \<lparr>retain_recent = de_retain_recent a, retain_for = None, before_date = before,
                             prune_failed = de_prune_failed a, prune_unsafe = de_prune_unsafe a\<rparr>
                            (wd_now W) (de_dry_run a) s of
                       (Inl e, s') \<Rightarrow> failing e s' t
                     | (Inr ids, s') \<Rightarrow>
                         (Inr (), concat (map (\<lambda>did. (if de_dry_run a then ''would delete '' else ''deleted '') @
                            did @ nl) ids), s', t)))))"

definition printed :: "string res \<Rightarrow> 's \<Rightarrow> 't \<Rightarrow> ('s, 't) outcome" where
  "printed r s t = (case r of Inl e \<Rightarrow> failing e s t | Inr out \<Rightarrow> (Inr (), out, s, t))"

definition registry_for :: "('s, 't) world \<Rightarrow> cli \<Rightarrow> registry res" where
  "registry_for W cl =
     (case maybe_config W cl of
        Inl e \<Rightarrow> Inl e
      | Inr cfg \<Rightarrow> build_registry (wd_ext W) (wd_transformer W) (sp_custom (wd_sections W)) cfg)"

definition cli_run :: "('s, 't) world \<Rightarrow> cli \<Rightarrow> 's \<Rightarrow> 't \<Rightarrow> ('s, 't) outcome option" where
  "cli_run W cl s t =
     (case cl_command cl of
        ListTransformers \<Rightarrow>
          Some (printed (map_sum id (\<lambda>r. catalog_list r @ nl) (registry_for W cl)) s t)
      | ShowTransformer name \<Rightarrow>
          Some (printed (case registry_for W cl of Inl e \<Rightarrow> Inl e | Inr r \<Rightarrow> catalog_show r name) s t)
      | ListDumps \<Rightarrow>
          Some (printed (case open_storage W cl of
              Inl e \<Rightarrow> Inl e | Inr S \<Rightarrow> map_sum id (\<lambda>l. l @ nl) (list_dumps (wd_codec W) S s)) s t)
      | ShowDump did \<Rightarrow>
          Some (printed (case open_storage W cl of
              Inl e \<Rightarrow> Inl e | Inr S \<Rightarrow> show_dump (wd_codec W) S did s) s t)
      | Delete a \<Rightarrow> Some (cmd_delete W cl a s t)
      | DumpCommand a \<Rightarrow> cmd_dump W cl a s t
      | RestoreCommand a \<Rightarrow> Some (cmd_restore W cl a s t)
      | ValidateCommand a \<Rightarrow> Some (cmd_validate W cl a s t))"

text \<open>The binary that is built without the feature \<open>mongo\<close>: the commands that need a deployment refuse.\<close>

definition mongo_unavailable :: "string \<Rightarrow> error" where
  "mongo_unavailable cmd =
     ConfigError (''`'' @ cmd @ ''` needs a MongoDB connection; rebuild leafmask with --features mongo'')"

definition cli_run_offline :: "('s, 't) world \<Rightarrow> cli \<Rightarrow> 's \<Rightarrow> 't \<Rightarrow> ('s, 't) outcome option" where
  "cli_run_offline W cl s t =
     (case cl_command cl of
        DumpCommand a \<Rightarrow> Some (failing (mongo_unavailable ''dump'') s t)
      | RestoreCommand a \<Rightarrow> Some (failing (mongo_unavailable ''restore'') s t)
      | ValidateCommand a \<Rightarrow> Some (failing (mongo_unavailable ''validate'') s t)
      | _ \<Rightarrow> cli_run W cl s t)"

text \<open>The process: what \<open>main\<close> prints on its two channels and its exit status.\<close>

definition main_exit :: "('s, 't) outcome \<Rightarrow> int \<times> string \<times> string" where
  "main_exit r =
     (case fst r of
        Inr u \<Rightarrow> (0, fst (snd r), [])
      | Inl e \<Rightarrow> (1, fst (snd r), ''leafmask: '' @ error_display e @ nl))"

section \<open>Lemmas\<close>

lemma parse_conds_keys:
  "parse_conds cs parsed = Inr r \<Longrightarrow> fst ` set r = fst ` set cs \<union> fst ` set parsed"
proof (induction cs parsed rule: parse_conds.induct)
  case (2 coll e cs parsed)
  then obtain c where "parse_condition e = Inr c" "parse_conds cs (bt_insert coll c parsed) = Inr r"
    by (auto split: sum.splits)
  with 2(1) bt_insert_keys [of coll c parsed] show ?case by auto
qed auto

lemma governed_set:
  "set (subset_governed_collections g cs) =
     fst ` set cs \<union> from_collection ` set g \<union> \<Union> (set ` target_collections ` set g)"
  by (auto simp: subset_governed_collections_def)

text \<open>Only governed collections contribute to the closure.\<close>

lemma needed_governed:
  assumes "engine_new g cs = Inr eng"
  shows "needed src eng p \<Longrightarrow> fst p \<in> set (subset_governed_collections g cs)"
proof (induction rule: needed.induct)
  case (seeded coll cond docs d)
  have "fst ` set (se_conds eng) = fst ` set cs"
    using assms parse_conds_keys [of cs "[]" "se_conds eng"] unfolding engine_new_def map_sum_Inr by force
  with seeded(1) show ?case by (force simp: governed_set)
next
  case (referenced p e t f v docs d)
  have "e \<in> set g" "t \<in> set (target_collections e)"
    using assms referenced.hyps(2,3) resolve_target_declared
    by (auto simp: engine_new_def map_sum_Inr references_from_def edge_request_def split: option.splits)
  then show ?case by (auto simp: governed_set)
qed

lemma id_filters_get:
  "kv_get c (id_membership_filters governed ids) = (if c \<in> set governed then Some (id_filter ids c) else None)"
  unfolding id_membership_filters_def by (induction governed) auto

text \<open>The membership filter selects by identifier.\<close>

lemma id_filter_matches:
  "matches_filter d (id_filter ids coll) \<longleftrightarrow>
     (case doc_get ''_id'' d of None \<Rightarrow> False | Some a \<Rightarrow> \<exists>i \<in> set (entries_of coll ids). bson_pe i a)"
  by (auto simp: id_filter_def matches_filter_def field_matches_def op_matches_def Let_def list_ex_iff
      entries_of_def get_path_top dot_def split: option.splits)

definition plain_ids :: "mem \<Rightarrow> bool" where
  "plain_ids m = (\<forall>db coll. \<forall>d \<in> set (mem_documents db coll m).
     \<exists>i. doc_get ''_id'' d = Some i \<and> plain_scalar i)"

lemma same_id_same_doc:
  assumes "ids_fresh docs" "d \<in> set docs" "d' \<in> set docs"
    and "doc_get ''_id'' d = Some i" "doc_get ''_id'' d' = Some i" "plain_scalar i"
  shows "d = d'"
  using assms
proof (induction docs)
  case (Cons x xs)
  have "opt_pe (Some i) (Some i)" using Cons.prems(6) by (simp add: bson_pe_plain)
  with Cons show ?case by (auto simp: ids_fresh_def)
qed (simp add: ids_fresh_def)

text \<open>What a dump of the in-memory deployment streams for a collection under these filters.\<close>

definition streamed :: "mongo_source \<Rightarrow> string \<Rightarrow> (string \<times> document) list \<Rightarrow> string \<Rightarrow> document list" where
  "streamed src db fs coll = fst (ms_stream src db coll (kv_get coll fs))"

lemma streamed_mem:
  "streamed (mem_source m) db fs coll =
     (case kv_get coll fs of None \<Rightarrow> mem_documents db coll m
      | Some f \<Rightarrow> filter (\<lambda>d. matches_filter d f) (mem_documents db coll m))"
  by (auto simp: streamed_def mem_source_def stream_default_def mem_read_filtered_def mem_read_def
      mem_documents_def split: option.splits)

lemma governed_streamed:
  assumes ids: "plain_ids m" "ids_unique m" and inj: "inj_on (doc_key E) (mem_stock m db)"
    and eng: "engine_new g cs = Inr eng"
    and c: "compute_ids E eng (mongo_document_source E (mem_source m) db g) = Some (Inr ids)"
    and coll: "coll \<in> set (subset_governed_collections g cs)"
  shows "set (streamed (mem_source m) db (id_membership_filters (subset_governed_collections g cs) ids) coll) =
     {d. needed (mongo_document_source E (mem_source m) db g) eng (coll, d)}"
proof -
  let ?src = "mongo_document_source E (mem_source m) db g"
  have stock: "needed ?src eng (k, d) \<Longrightarrow> d \<in> set (mem_documents db k m)" for k d
    using mem_docs.required_stock by (force simp: mem_stock_def)
  have "{p. needed ?src eng p} \<subseteq> mem_stock m db" using mem_docs.required_stock by blast
  note members = compute_ids_members [OF mem_docs.finite_required inj_on_subset [OF inj this] c, of coll]
  have "(d \<in> set (mem_documents db coll m) \<and> matches_filter d (id_filter ids coll)) \<longleftrightarrow> needed ?src eng (coll, d)"
    (is "?in \<longleftrightarrow> _") for d
  proof
    assume ?in
    then obtain a i where d: "d \<in> set (mem_documents db coll m)" "doc_get ''_id'' d = Some a"
      and i: "i \<in> set (entries_of coll ids)" "bson_pe i a"
      by (auto simp: id_filter_matches split: option.splits)
    have a: "plain_scalar a" using ids(1) d by (force simp: plain_ids_def)
    then have "i = a" using i(2) by (simp add: bson_pe_plain_right)
    then obtain d' where d': "needed ?src eng (coll, d')" "doc_get ''_id'' d' = Some a"
      using i(1) members by auto
    have "d' = d"
      using same_id_same_doc [OF _ stock [OF d'(1)] d(1) d'(2) d(2) a] ids(2) by (simp add: ids_unique_def)
    with d'(1) show "needed ?src eng (coll, d)" by simp
  next
    assume n: "needed ?src eng (coll, d)"
    then obtain i where i: "doc_get ''_id'' d = Some i" "plain_scalar i"
      using ids(1) stock by (force simp: plain_ids_def)
    have "i \<in> set (entries_of coll ids)" using members n i(1) by auto
    moreover have "bson_pe i i" using i(2) by (simp add: bson_pe_plain)
    ultimately show ?in using stock [OF n] i(1) by (auto simp: id_filter_matches)
  qed
  with coll show ?thesis by (auto simp: streamed_mem id_filters_get)
qed

text \<open>A computed closure has answered every lookup.\<close>

lemma compute_ids_answers:
  assumes "finite {p. needed src eng p}" "inj_on (doc_key E) {p. needed src eng p}"
    and "compute_ids E eng src = Some (Inr ids)"
    and "needed src eng (coll, d)" "e \<in> set (references_from (se_graph eng) coll)"
    and "edge_request e d = Some (t, f, v)"
  shows "\<exists>docs. ds_find_by src t f v = Inr docs"
proof -
  obtain log where log: "closed_log E eng src log"
    using compute_ids_log [OF assms(1,3)] by blast
  have "(coll, d) \<in> set log" by (rule closed_log_complete [OF log assms(2,4)])
  with log have "answered E src d (references_from (se_graph eng) coll) (keys_in E log)"
    by (fastforce simp: closed_log_def)
  with assms(5,6) show ?thesis unfolding answered_def by blast
qed

lemma find_by_mem:
  "ds_find_by (mongo_document_source E (mem_source m) db g) coll f v = Inr docs \<Longrightarrow>
     docs = filter (\<lambda>d. matches_filter d [(f, v)]) (mem_documents db coll m)"
  by (auto simp: mongo_document_source_def ds_collect_def stream_each_def each_doc_collect mem_source_def
      projected_default_def stream_default_def mem_read_filtered_def mem_read_def mem_documents_def
      split: sum.splits option.splits)

text \<open>How \<open>resolve_dump_filters\<close> succeeds when there are both references and conditions.\<close>

lemma resolve_dump_filters_subset:
  assumes "resolve_dump_filters E sp cfg src g o' = Some (Inr fs)"
    and "dump_subset_conds sp cfg = Inr cs" "cs \<noteq> []" "g \<noteq> []"
  obtains db eng ids where "subset_database src o' = Inr db" "engine_new g cs = Inr eng"
    "compute_ids E eng (mongo_document_source E src db g) = Some (Inr ids)"
    "fs = id_membership_filters (subset_governed_collections g cs) ids"
  using assms unfolding resolve_dump_filters_def
  by (auto simp: map_sum_Inr split: sum.splits)

text \<open>How a restore command that succeeds ran.\<close>

lemma cmd_restore_success:
  assumes "cmd_restore W cl a s t = (Inr (), out, s', t')"
  obtains cfg S uri cn rc o' rep where "require_config W cl = Inr cfg"
    "open_from_config (wd_backends W) (storage_section cfg) = Inr S" "resolve_uri cl cfg = Inr uri"
    "wd_connect W uri = Inr cn" "restore_parts W cfg a = Inr (rc, o')" "rp_failed rep = []"
    "restore_run \<lparr>rs_codec = wd_codec W, rs_storage = S, rs_store = s, rs_sink = cn_sink cn,
       rs_exclusions = rc_exclusions rc, rs_scripts = rc_scripts rc, rs_options = o'\<rparr>
       (wd_restore_workers W) (process_runner (wd_start W) (wd_mongosh W) uri) (ra_id a) t = (Inr rep, t')"
  using assms unfolding cmd_restore_def failing_def
  by (auto simp: restore_verdict_def split: sum.splits prod.splits if_splits)

lemma restore_parts_jobs: "restore_parts W cfg a = Inr (rc, o') \<Longrightarrow> ro_parallel_jobs o' = ra_jobs a"
  by (auto simp: restore_parts_def restore_options_of_def map_sum_Inr split: sum.splits)

lemma restore_run_resolved:
  "restore_run env par R r t = (Inr rep, t') \<Longrightarrow>
     \<exists>m. resolve_dump (rs_codec env) (rs_storage env) r (rs_store env) = Inr m"
  by (auto simp: restore_run_def split: sum.splits)

section \<open>Properties\<close>

text \<open>
  C2. Referential subsetting as the dump command wires it: with declared references and conditions, the
  filters given to the dump make it stream, from the one selected database, exactly the closure of the
  conditions under the references for every governed collection and every other collection whole; and
  whenever a streamed document references a value, each document of the target collection carrying that
  value is streamed as well. The identifiers are plain values, unique in their collections, and their
  keys are distinct.
\<close>

theorem referential_subset_dump:
  assumes "dump_subset_conds sp cfg = Inr cs" "cs \<noteq> []" "g \<noteq> []"
    and "resolve_dump_filters E sp cfg (mem_source m) g o' = Some (Inr fs)"
    and "plain_ids m" "ids_unique m" "\<And>db. inj_on (doc_key E) (mem_stock m db)"
  shows "\<exists>db eng. subset_database (mem_source m) o' = Inr db \<and> engine_new g cs = Inr eng
    \<and> (\<forall>coll. set (streamed (mem_source m) db fs coll) =
         (if coll \<in> set (subset_governed_collections g cs)
          then {d. needed (mongo_document_source E (mem_source m) db g) eng (coll, d)}
          else set (mem_documents db coll m)))
    \<and> (\<forall>coll d e t f v d'. d \<in> set (streamed (mem_source m) db fs coll) \<longrightarrow>
         e \<in> set (references_from g coll) \<longrightarrow> edge_request e d = Some (t, f, v) \<longrightarrow>
         d' \<in> set (mem_documents db t m) \<longrightarrow> matches_filter d' [(f, v)] \<longrightarrow>
         d' \<in> set (streamed (mem_source m) db fs t))"
proof -
  obtain db eng ids where db: "subset_database (mem_source m) o' = Inr db" and eng: "engine_new g cs = Inr eng"
    and ids: "compute_ids E eng (mongo_document_source E (mem_source m) db g) = Some (Inr ids)"
    and fs: "fs = id_membership_filters (subset_governed_collections g cs) ids"
    by (rule resolve_dump_filters_subset [OF assms(4,1-3)])
  let ?src = "mongo_document_source E (mem_source m) db g"
  let ?gov = "set (subset_governed_collections g cs)"
  let ?out = "\<lambda>coll. set (streamed (mem_source m) db fs coll)"
  have gov: "?out coll = {d. needed ?src eng (coll, d)}" if "coll \<in> ?gov" for coll
    unfolding fs by (rule governed_streamed [OF assms(5-7) eng ids that])
  have whole: "?out coll = set (mem_documents db coll m)" if "coll \<notin> ?gov" for coll
    using that by (simp add: fs streamed_mem id_filters_get)
  have refs: "d' \<in> ?out t"
    if d: "d \<in> ?out coll" and e: "e \<in> set (references_from g coll)" and r: "edge_request e d = Some (t, f, v)"
      and d': "d' \<in> set (mem_documents db t m)" "matches_filter d' [(f, v)]" for coll d e t f v d'
  proof -
    have "coll \<in> ?gov" using e by (auto simp: governed_set references_from_def)
    then have n: "needed ?src eng (coll, d)" using gov d by simp
    have g: "se_graph eng = g" using eng by (auto simp: engine_new_def map_sum_Inr)
    have "{p. needed ?src eng p} \<subseteq> mem_stock m db" using mem_docs.required_stock by blast
    then obtain docs where docs: "ds_find_by ?src t f v = Inr docs"
      using compute_ids_answers [OF mem_docs.finite_required inj_on_subset [OF assms(7)] ids n _ r] e g by blast
    then have "d' \<in> set docs" using find_by_mem [OF docs] d' by simp
    then have "needed ?src eng (t, d')" using referenced [OF n _ _ docs] e g r by simp
    moreover from this have "t \<in> ?gov" using needed_governed [OF eng] by fastforce
    ultimately show ?thesis using gov by simp
  qed
  show ?thesis
    by (intro exI [of _ db] exI [of _ eng] conjI allI impI)
      (simp_all add: db eng gov whole, rule refs)
qed



section \<open>Examples\<close>

definition blank_config :: config where
  "blank_config =
     \<lparr>common = \<lparr>tmp_dir = Some ''/tmp'', cfg_salt = None\<rparr>, mongo_uri = Some ''mongodb://h'',
      storage_section = \<lparr>kind = Some ''directory'', st_params = [(''path'', YString ''/dumps'')]\<rparr>,
      resolved_warnings = [], dump_section = YMapping [], restore_section = YNull,
      custom_transformers = YNull, virtual_references = YNull\<rparr>"

definition shop_sections :: section_parsers where
  "shop_sections =
     \<lparr>sp_transformation = (\<lambda>y. Inr []), sp_subset_conds = (\<lambda>y. Inr [(''orders'', ''_id == 1'')]),
      sp_references = (\<lambda>y. Inr []), sp_dump_filters = (\<lambda>y. Inr ([], [], [], [])),
      sp_restore_filters = (\<lambda>y. Inr ([], [], [], [])), sp_restore = (\<lambda>y. Inr default_restore_section),
      sp_custom = (\<lambda>y. Inr [])\<rparr>"

lemma shop_documents:
  "mem_documents db coll shop =
     (if db = ''s'' \<and> coll = ''orders'' then
        [[(''_id'', BInt64 1), (''user'', BInt64 10)], [(''_id'', BInt64 2), (''user'', BInt64 20)]]
      else if db = ''s'' \<and> coll = ''users'' then [[(''_id'', BInt64 10)], [(''_id'', BInt64 20)]]
      else [])"
  by (auto simp: mem_documents_def shop_def mem_seed_def empty_collection_def bt_get_insert)

lemma shop_plain: "plain_ids shop"
  by (auto simp: plain_ids_def shop_documents)

lemma shop_unique: "ids_unique shop"
  by (simp add: ids_unique_def ids_fresh_def shop_documents)

lemma shop_inj_stock: "inj_on (doc_key sample_ext) (mem_stock shop db)"
proof (rule inj_on_subset)
  show "inj_on (doc_key sample_ext) (set shop_items)" using shop_keys by (simp only: distinct_map)
  show "mem_stock shop db \<subseteq> set shop_items"
    by (auto simp: mem_stock_def shop_documents shop_items_def split: if_splits)
qed

theorem referential_subset_dump_witness:
  "\<exists>fs. resolve_dump_filters sample_ext shop_sections blank_config (mem_source shop) (se_graph shop_engine)
          sample_dump_options = Some (Inr fs)
     \<and> [(''_id'', BInt64 10)] \<in> set (streamed (mem_source shop) ''s'' fs ''users'')"
proof -
  let ?g = "se_graph shop_engine"
  let ?r = "resolve_dump_filters sample_ext shop_sections blank_config (mem_source shop) ?g sample_dump_options"
  have c: "dump_subset_conds shop_sections blank_config = Inr [(''orders'', ''_id == 1'')]" by code_simp
  have g: "?g \<noteq> []" by (simp add: shop_engine_def)
  let ?d = "[(''_id'', BInt64 1), (''user'', BInt64 10)]"
  have "(case ?r of
      Some (Inr fs) \<Rightarrow> List.member (streamed (mem_source shop) ''s'' fs ''orders'') ?d | _ \<Rightarrow> False)"
    by code_simp
  then obtain fs where fs: "?r = Some (Inr fs)" "?d \<in> set (streamed (mem_source shop) ''s'' fs ''orders'')"
    by (auto split: option.splits sum.splits)
  have db: "subset_database (mem_source shop) sample_dump_options = Inr ''s''" by code_simp
  have e: "hd ?g \<in> set (references_from ?g ''orders'')" by (simp add: shop_engine_def references_from_def)
  have r: "edge_request (hd ?g) [(''_id'', BInt64 1), (''user'', BInt64 10)] = Some (''users'', ''_id'', BInt64 10)"
    by code_simp
  have d: "[(''_id'', BInt64 10)] \<in> set (mem_documents ''s'' ''users'' shop)"
    "matches_filter [(''_id'', BInt64 10)] [(''_id'', BInt64 10)]" by code_simp+
  have refs: "\<exists>db. subset_database (mem_source shop) sample_dump_options = Inr db
      \<and> (\<forall>coll d e t f v d'. d \<in> set (streamed (mem_source shop) db fs coll) \<longrightarrow>
         e \<in> set (references_from ?g coll) \<longrightarrow> edge_request e d = Some (t, f, v) \<longrightarrow>
         d' \<in> set (mem_documents db t shop) \<longrightarrow> matches_filter d' [(f, v)] \<longrightarrow>
         d' \<in> set (streamed (mem_source shop) db fs t))"
    using referential_subset_dump [OF c _ g fs(1) shop_plain shop_unique shop_inj_stock] by blast
  then obtain db where db': "subset_database (mem_source shop) sample_dump_options = Inr db"
    and all: "\<forall>coll d e t f v d'. d \<in> set (streamed (mem_source shop) db fs coll) \<longrightarrow>
         e \<in> set (references_from ?g coll) \<longrightarrow> edge_request e d = Some (t, f, v) \<longrightarrow>
         d' \<in> set (mem_documents db t shop) \<longrightarrow> matches_filter d' [(f, v)] \<longrightarrow>
         d' \<in> set (streamed (mem_source shop) db fs t)"
    by blast
  have "db = ''s''" using db db' by simp
  from all [unfolded this, rule_format, OF fs(2) e r d]
  have "[(''_id'', BInt64 10)] \<in> set (streamed (mem_source shop) ''s'' fs ''users'')" .
  with fs(1) show ?thesis by blast
qed

text \<open>A machine with one configuration, a directory of dumps, and an in-memory deployment.\<close>

definition sample_world :: "(fsys, mem) world" where
  "sample_world =
     \<lparr>wd_ext = sample_ext, wd_codec = restore_codec, wd_read_file = (\<lambda>p. Inr []),
      wd_from_yaml = (\<lambda>y. Inr blank_config), wd_env = (\<lambda>n. None), wd_sections = shop_sections,
      wd_transformer = (\<lambda>argv. Inl (TransformError [])), wd_start = (\<lambda>bin args t. (Inr (True, []), t)),
      wd_mongosh = ''mongosh'',
      wd_backends = \<lparr>be_directory = (\<lambda>p. Inr dir_storage), be_s3 = None, be_azure = None, be_ssh = None\<rparr>,
      wd_connect = (\<lambda>uri. Inr \<lparr>cn_source = mem_source, cn_sink = mem_sink\<rparr>),
      wd_now = 0, wd_dump_id = ''x'', wd_created = [], wd_rfc3339 = (\<lambda>d. Inr 0), wd_pretty = (\<lambda>j. []),
      wd_dump_workers = (\<lambda>its jobs s. ([], s)), wd_restore_workers = (\<lambda>its jobs t. ([], t))\<rparr>"

definition sample_restore_args :: restore_args where
  "sample_restore_args =
     \<lparr>ra_id = ''latest'', ra_include_collection = [''c''], ra_exclude_collection = [], ra_include_index = [],
      ra_exclude_index = [], ra_batch_size = 1, ra_ordered = True, ra_dependency_order = False,
      ra_exit_on_error = False, ra_clean = False, ra_jobs = 1\<rparr>"

definition sample_cli :: cli where
  "sample_cli = \<lparr>cl_config = Some ''leafmask.yaml'', cl_uri = None, cl_command = RestoreCommand sample_restore_args\<rparr>"



end
