(* ===== verification/Multipart.thy ===== *)
theory Multipart
  imports Bson
begin

text \<open>
  The streaming multipart upload shared by the S3 and Azure backends (src/storage/multipart.rs): the
  adaptive part sizes, the writer that fills parts and hands them to a background thread over a channel
  of capacity two, and that thread. The two threads are modelled as an interleaving of their accesses
  to the channel. What a backend does with a part is a parameter (\<open>part_sink\<close>).
\<close>

section \<open>Part sizes\<close>

definition initial_part_size :: nat where
  "initial_part_size = 8 * 1024 * 1024"

definition parts_per_doubling :: nat where
  "parts_per_doubling = 1000"

text \<open>\<open>PartSizeSchedule::current\<close>, as a function of the parts sent so far.\<close>

definition part_size :: "nat \<Rightarrow> nat" where
  "part_size sent = push_bit (min (sent div parts_per_doubling) 24) initial_part_size"

section \<open>The two threads\<close>

datatype msg = Data bytes | Finish | Abort

record 's part_sink =
  ps_send :: "nat \<Rightarrow> bytes \<Rightarrow> 's \<Rightarrow> string res \<times> 's"
  ps_complete :: "string list \<Rightarrow> 's \<Rightarrow> unit res \<times> 's"
  ps_abort :: "'s \<Rightarrow> 's"

text \<open>The background thread: the number of the next part and the tokens so far, or its result.\<close>

datatype uploader = Uploading nat "string list" | Ended "unit res"

text \<open>
  The writing thread: filling the buffer from the caller's writes; in \<open>finish\<close> before and after
  \<open>Finish\<close> is sent; after a \<open>write\<close> that failed; in \<open>abort\<close>; returned.
\<close>

datatype phase = Filling | Closing | Joining | Broken | Cancelling | Cancelled | Returned "nat res"

record 's upload =
  mu_input :: "bytes list"
  mu_buffer :: bytes
  mu_sent :: nat
  mu_total :: nat
  mu_phase :: phase
  mu_queue :: "msg list"
  mu_thread :: uploader
  mu_sink :: 's

definition spawn :: "bytes list \<Rightarrow> 's \<Rightarrow> 's upload" where
  "spawn input s0 =
     \<lparr>mu_input = input, mu_buffer = [], mu_sent = 0, mu_total = 0, mu_phase = Filling, mu_queue = [],
      mu_thread = Uploading 1 [], mu_sink = s0\<rparr>"

definition channel_capacity :: nat where
  "channel_capacity = 2"

definition alive :: "'s upload \<Rightarrow> bool" where
  "alive u = (case mu_thread u of Uploading n toks \<Rightarrow> True | Ended r \<Rightarrow> False)"

text \<open>A \<open>send\<close> goes through when there is room and the receiver is alive, and fails when it is gone.\<close>

definition room :: "'s upload \<Rightarrow> bool" where
  "room u = (alive u \<and> length (mu_queue u) < channel_capacity)"

definition joined :: "nat \<Rightarrow> unit res \<Rightarrow> nat res" where
  "joined n r =
     (case r of
        Inr x \<Rightarrow> Inr n
      | Inl (Panicked m) \<Rightarrow> Inl (StorageError ''multipart upload thread panicked'')
      | Inl e \<Rightarrow> Inl e)"

text \<open>One message of \<open>run_uploader\<close>; a panic of the backend ends the thread where it is.\<close>

fun handle_msg :: "'s part_sink \<Rightarrow> msg \<Rightarrow> nat \<Rightarrow> string list \<Rightarrow> 's \<Rightarrow> uploader \<times> 's" where
  "handle_msg S (Data d) n toks s =
     (case ps_send S n d s of
        (Inr tok, s') \<Rightarrow> (Uploading (n + 1) (toks @ [tok]), s')
      | (Inl (Panicked m), s') \<Rightarrow> (Ended (Inl (Panicked m)), s')
      | (Inl e, s') \<Rightarrow> (Ended (Inl e), ps_abort S s'))"
| "handle_msg S Finish n toks s = (case ps_complete S toks s of (r, s') \<Rightarrow> (Ended r, s'))"
| "handle_msg S Abort n toks s = (Ended (Inr ()), ps_abort S s)"

inductive up_step :: "'s part_sink \<Rightarrow> 's upload \<Rightarrow> 's upload \<Rightarrow> bool" for S :: "'s part_sink" where
  fill: "mu_phase u = Filling \<Longrightarrow> length (mu_buffer u) < part_size (mu_sent u) \<Longrightarrow> mu_input u = b # bs \<Longrightarrow>
    up_step S u (u\<lparr>mu_input := bs, mu_buffer := mu_buffer u @ b, mu_total := mu_total u + length b\<rparr>)"
| send_full: "mu_phase u = Filling \<Longrightarrow> part_size (mu_sent u) \<le> length (mu_buffer u) \<Longrightarrow> room u \<Longrightarrow>
    up_step S u (u\<lparr>mu_buffer := drop (part_size (mu_sent u)) (mu_buffer u),
      mu_queue := mu_queue u @ [Data (take (part_size (mu_sent u)) (mu_buffer u))], mu_sent := mu_sent u + 1\<rparr>)"
| send_broken: "mu_phase u = Filling \<Longrightarrow> part_size (mu_sent u) \<le> length (mu_buffer u) \<Longrightarrow> \<not> alive u \<Longrightarrow>
    up_step S u (u\<lparr>mu_buffer := drop (part_size (mu_sent u)) (mu_buffer u), mu_phase := Broken\<rparr>)"
| send_last: "mu_phase u = Filling \<Longrightarrow> length (mu_buffer u) < part_size (mu_sent u) \<Longrightarrow> mu_input u = [] \<Longrightarrow>
    mu_buffer u \<noteq> [] \<or> mu_sent u = 0 \<Longrightarrow> room u \<Longrightarrow>
    up_step S u (u\<lparr>mu_buffer := [], mu_queue := mu_queue u @ [Data (mu_buffer u)], mu_phase := Closing\<rparr>)"
| lose_last: "mu_phase u = Filling \<Longrightarrow> length (mu_buffer u) < part_size (mu_sent u) \<Longrightarrow> mu_input u = [] \<Longrightarrow>
    mu_buffer u \<noteq> [] \<or> mu_sent u = 0 \<Longrightarrow> \<not> alive u \<Longrightarrow>
    up_step S u (u\<lparr>mu_buffer := [], mu_phase := Closing\<rparr>)"
| no_last: "mu_phase u = Filling \<Longrightarrow> mu_input u = [] \<Longrightarrow> mu_buffer u = [] \<Longrightarrow> mu_sent u \<noteq> 0 \<Longrightarrow>
    up_step S u (u\<lparr>mu_phase := Closing\<rparr>)"
| send_finish: "mu_phase u = Closing \<Longrightarrow> room u \<Longrightarrow>
    up_step S u (u\<lparr>mu_queue := mu_queue u @ [Finish], mu_phase := Joining\<rparr>)"
| lose_finish: "mu_phase u = Closing \<Longrightarrow> \<not> alive u \<Longrightarrow> up_step S u (u\<lparr>mu_phase := Joining\<rparr>)"
| join: "mu_phase u = Joining \<Longrightarrow> mu_thread u = Ended r \<Longrightarrow>
    up_step S u (u\<lparr>mu_phase := Returned (joined (mu_total u) r)\<rparr>)"
| give_up: "mu_phase u = Filling \<and> length (mu_buffer u) < part_size (mu_sent u) \<or> mu_phase u = Broken \<Longrightarrow> room u \<Longrightarrow>
    up_step S u (u\<lparr>mu_queue := mu_queue u @ [Abort], mu_phase := Cancelling\<rparr>)"
| give_up_late: "mu_phase u = Filling \<and> length (mu_buffer u) < part_size (mu_sent u) \<or> mu_phase u = Broken \<Longrightarrow>
    \<not> alive u \<Longrightarrow> up_step S u (u\<lparr>mu_phase := Cancelling\<rparr>)"
| join_abort: "mu_phase u = Cancelling \<Longrightarrow> mu_thread u = Ended r \<Longrightarrow> up_step S u (u\<lparr>mu_phase := Cancelled\<rparr>)"
| receive: "mu_thread u = Uploading n toks \<Longrightarrow> mu_queue u = m # q \<Longrightarrow> handle_msg S m n toks (mu_sink u) = (t, s) \<Longrightarrow>
    up_step S u (u\<lparr>mu_queue := q, mu_thread := t, mu_sink := s\<rparr>)"

inductive up_run :: "'s part_sink \<Rightarrow> bytes list \<Rightarrow> 's \<Rightarrow> 's upload \<Rightarrow> bool"
  for S :: "'s part_sink" and input :: "bytes list" and s0 :: 's where
  up_start: "up_run S input s0 (spawn input s0)"
| up_more: "up_run S input s0 u \<Longrightarrow> up_step S u u' \<Longrightarrow> up_run S input s0 u'"

inductive_cases up_stepE: "up_step S u u'"

section \<open>Lemmas on part sizes\<close>

lemma part_size_eq: "part_size n = initial_part_size * 2 ^ min (n div 1000) 24"
  by (simp add: part_size_def push_bit_eq_mult parts_per_doubling_def)

lemma part_size_pos: "0 < part_size n"
  by (simp add: part_size_eq initial_part_size_def)

lemma part_size_mono: "m \<le> n \<Longrightarrow> part_size m \<le> part_size n"
  by (simp add: part_size_eq div_le_mono min.coboundedI1 power_increasing)

lemma part_size_block: "k \<le> 24 \<Longrightarrow> i < 1000 \<Longrightarrow> part_size (1000 * k + i) = initial_part_size * 2 ^ k"
  by (simp add: part_size_eq)

lemma sum_blocks: "k \<le> 25 \<Longrightarrow> (\<Sum>i < 1000 * k. part_size i) = 1000 * initial_part_size * (2 ^ k - 1)"
proof (induction k)
  case (Suc k)
  have "(\<Sum>i < 1000 * Suc k. part_size i) =
      (\<Sum>i < 1000 * k. part_size i) + (\<Sum>i < 1000. part_size (1000 * k + i))"
    using sum.nat_group [of part_size 1 1] sum.atLeastLessThan_concat [of 0 "1000 * k" "1000 * Suc k" part_size]
      sum.shift_bounds_nat_ivl [of part_size 0 "1000 * k" 1000]
    by (simp add: atLeast0LessThan add.commute)
  also have "(\<Sum>i < 1000. part_size (1000 * k + i)) = 1000 * (initial_part_size * 2 ^ k)"
    using Suc.prems part_size_block [of k] by (simp add: sum.cong)
  also have "(\<Sum>i < 1000 * k. part_size i) = 1000 * initial_part_size * (2 ^ k - 1)"
    using Suc by simp
  also have "1000 * initial_part_size * (2 ^ k - 1) + 1000 * (initial_part_size * 2 ^ k) =
      1000 * initial_part_size * (2 ^ Suc k - 1)"
    by (simp add: algebra_simps)
  finally show ?case .
qed simp

section \<open>The invariant of the upload\<close>

text \<open>The parts a backend has acknowledged, in order, and the state they leave it in.\<close>

fun send_all :: "'s part_sink \<Rightarrow> nat \<Rightarrow> bytes list \<Rightarrow> 's \<Rightarrow> string list res \<times> 's" where
  "send_all S n [] s = (Inr [], s)"
| "send_all S n (d # ds) s =
     (case ps_send S n d s of
        (Inl e, s') \<Rightarrow> (Inl e, s')
      | (Inr tok, s') \<Rightarrow>
          (case send_all S (n + 1) ds s' of (Inl e, s'') \<Rightarrow> (Inl e, s'') | (Inr toks, s'') \<Rightarrow> (Inr (tok # toks), s'')))"

lemma send_all_snoc:
  "send_all S n ds s = (Inr toks, s1) \<Longrightarrow> ps_send S (n + length ds) d s1 = (Inr tok, s2) \<Longrightarrow>
     send_all S n (ds @ [d]) s = (Inr (toks @ [tok]), s2)"
  by (induction ds arbitrary: n s toks) (auto split: prod.splits sum.splits)

fun datas :: "msg list \<Rightarrow> bytes list" where
  "datas [] = []"
| "datas (Data d # q) = d # datas q"
| "datas (m # q) = datas q"

lemma datas_append [simp]: "datas (p @ q) = datas p @ datas q"
  by (induction p rule: datas.induct) auto

lemma datas_map [simp]: "datas (map Data ds) = ds"
  by (induction ds) auto

definition full_parts :: "bytes list \<Rightarrow> bool" where
  "full_parts ps = (\<forall>i < length ps. length (ps ! i) = part_size i)"

definition cut_parts :: "bytes list \<Rightarrow> bool" where
  "cut_parts ps = (full_parts (butlast ps) \<and> ps \<noteq> [] \<and> length (last ps) \<le> part_size (length ps - 1)
     \<and> ([] \<in> set ps \<longrightarrow> ps = [[]]))"

lemma full_parts_snoc: "full_parts (ps @ [p]) \<longleftrightarrow> full_parts ps \<and> length p = part_size (length ps)"
  by (auto simp: full_parts_def nth_append less_Suc_eq)

lemma full_parts_nonempty: "full_parts ps \<Longrightarrow> [] \<notin> set ps"
  unfolding full_parts_def in_set_conv_nth using part_size_pos by (metis list.size(3) less_irrefl)

lemma full_parts_cut: "full_parts ps \<Longrightarrow> ps \<noteq> [] \<Longrightarrow> cut_parts ps"
  using full_parts_nonempty [of ps] by (cases ps rule: rev_cases) (auto simp: cut_parts_def full_parts_snoc)

lemma cut_parts_snoc:
  "full_parts ps \<Longrightarrow> length p \<le> part_size (length ps) \<Longrightarrow> p \<noteq> [] \<or> ps = [] \<Longrightarrow> cut_parts (ps @ [p])"
  using full_parts_nonempty [of ps] by (auto simp: cut_parts_def)

text \<open>While the thread is alive, \<open>parts\<close> being acknowledged: nothing of the caller's bytes is missing.\<close>

definition live_ok :: "bytes list \<Rightarrow> bytes list \<Rightarrow> 's upload \<Rightarrow> bool" where
  "live_ok input parts u =
     (let sent = parts @ datas (mu_queue u); ds = map Data (datas (mu_queue u))
      in case mu_phase u of
           Filling \<Rightarrow> concat sent @ mu_buffer u @ concat (mu_input u) = concat input \<and> full_parts sent
             \<and> length sent = mu_sent u \<and> mu_queue u = ds
         | Closing \<Rightarrow> concat sent = concat input \<and> cut_parts sent \<and> mu_queue u = ds
         | Joining \<Rightarrow> concat sent = concat input \<and> cut_parts sent \<and> mu_queue u = ds @ [Finish]
         | Cancelling \<Rightarrow> mu_queue u = ds @ [Abort]
         | _ \<Rightarrow> False)"

definition uploaded :: "'s part_sink \<Rightarrow> bytes list \<Rightarrow> 's \<Rightarrow> unit res \<Rightarrow> 's \<Rightarrow> bool" where
  "uploaded S input s0 r s =
     (\<exists>parts toks s1. send_all S 1 parts s0 = (Inr toks, s1) \<and> ps_complete S toks s1 = (r, s)
       \<and> concat parts = concat input \<and> cut_parts parts)"

definition ended_ok :: "'s part_sink \<Rightarrow> bytes list \<Rightarrow> 's \<Rightarrow> unit res \<Rightarrow> 's upload \<Rightarrow> bool" where
  "ended_ok S input s0 r u =
     (case mu_phase u of
        Joining \<Rightarrow> isl r \<or> uploaded S input s0 r (mu_sink u)
      | Returned x \<Rightarrow> x = joined (mu_total u) r \<and> (isl r \<or> uploaded S input s0 r (mu_sink u))
      | Cancelling \<Rightarrow> True
      | Cancelled \<Rightarrow> True
      | _ \<Rightarrow> isl r)"

definition up_inv :: "'s part_sink \<Rightarrow> bytes list \<Rightarrow> 's \<Rightarrow> 's upload \<Rightarrow> bool" where
  "up_inv S input s0 u =
     (mu_total u + length (concat (mu_input u)) = length (concat input)
      \<and> (mu_phase u \<in> {Filling, Broken, Cancelling, Cancelled} \<or> mu_input u = [])
      \<and> (case mu_thread u of
           Uploading n toks \<Rightarrow>
             (\<exists>parts. send_all S 1 parts s0 = (Inr toks, mu_sink u) \<and> n = Suc (length parts) \<and> live_ok input parts u)
         | Ended r \<Rightarrow> ended_ok S input s0 r u))"

lemma up_inv_start: "up_inv S input s0 (spawn input s0)"
  by (auto simp: up_inv_def spawn_def live_ok_def full_parts_def intro!: exI [of _ "[]"])

lemmas inv_defs = up_inv_def live_ok_def ended_ok_def alive_def room_def

lemma control_head: "map Data ds @ [x] = m # q \<Longrightarrow> \<forall>d. m \<noteq> Data d \<Longrightarrow> ds = [] \<and> x = m \<and> q = []"
  by (cases ds) auto

lemma up_inv_receive:
  assumes inv: "up_inv S input s0 u" and t: "mu_thread u = Uploading n toks" and q: "mu_queue u = m # q"
    and h: "handle_msg S m n toks (mu_sink u) = (t', s')"
  shows "up_inv S input s0 (u\<lparr>mu_queue := q, mu_thread := t', mu_sink := s'\<rparr>)"
proof -
  obtain parts where parts: "send_all S 1 parts s0 = (Inr toks, mu_sink u)" "n = Suc (length parts)"
    "live_ok input parts u" using inv t by (auto simp: up_inv_def)
  show ?thesis
  proof (cases m)
    case (Data d)
    obtain r s1 where r: "ps_send S n d (mu_sink u) = (r, s1)" by (rule prod.exhaust)
    show ?thesis
    proof (cases r)
      case (Inr tok)
      then have "send_all S 1 (parts @ [d]) s0 = (Inr (toks @ [tok]), s1)"
        using parts r by (intro send_all_snoc) auto
      moreover have "live_ok input (parts @ [d]) (u\<lparr>mu_queue := q, mu_thread := t', mu_sink := s'\<rparr>)"
        using parts(3) q Data by (auto simp: live_ok_def Let_def split: phase.splits)
      ultimately show ?thesis
        using inv h Data r Inr parts(2) by (auto simp: up_inv_def intro!: exI [of _ "parts @ [d]"])
    next
      case (Inl e)
      have "\<exists>e. t' = Ended (Inl e)" using h Data r Inl by (auto split: error.splits)
      then show ?thesis
        using inv t parts(3) by (auto simp: inv_defs split: phase.splits)
    qed
  next
    case Finish
    then have j: "mu_phase u = Joining" "q = []" "concat parts = concat input" "cut_parts parts"
      using parts(3) q by (auto simp: live_ok_def Let_def split: phase.splits dest: control_head)
    obtain r s1 where r: "ps_complete S toks (mu_sink u) = (r, s1)" by (rule prod.exhaust)
    then have "uploaded S input s0 r s1" using parts(1) j by (auto simp: uploaded_def)
    then show ?thesis using inv h Finish r j(1) by (auto simp: up_inv_def ended_ok_def)
  next
    case Abort
    then have "mu_phase u = Cancelling"
      using parts(3) q by (auto simp: live_ok_def Let_def split: phase.splits dest: control_head)
    then show ?thesis using inv h Abort by (auto simp: up_inv_def ended_ok_def)
  qed
qed

lemma live_ok_send_full:
  assumes "live_ok input parts u" "mu_phase u = Filling" "part_size (mu_sent u) \<le> length (mu_buffer u)"
  shows "live_ok input parts (u\<lparr>mu_buffer := drop (part_size (mu_sent u)) (mu_buffer u),
      mu_queue := mu_queue u @ [Data (take (part_size (mu_sent u)) (mu_buffer u))], mu_sent := mu_sent u + 1\<rparr>)"
proof -
  let ?d = "take (part_size (mu_sent u)) (mu_buffer u)"
  let ?sent = "parts @ datas (mu_queue u)"
  have l: "concat ?sent @ mu_buffer u @ concat (mu_input u) = concat input" "full_parts ?sent"
    "length ?sent = mu_sent u" "mu_queue u = map Data (datas (mu_queue u))"
    using assms(1,2) by (simp_all add: live_ok_def Let_def)
  have "full_parts (?sent @ [?d])" using l assms(3) by (subst full_parts_snoc) simp
  moreover have "concat (?sent @ [?d]) @ drop (part_size (mu_sent u)) (mu_buffer u) @ concat (mu_input u) = concat input"
  proof -
    have cut: "?d @ drop (part_size (mu_sent u)) (mu_buffer u) @ xs = mu_buffer u @ xs" for xs
      by (simp add: append_assoc [symmetric] del: append_assoc)
    show ?thesis using l(1) by (simp add: cut)
  qed
  ultimately show ?thesis using l assms(2) by (simp add: live_ok_def Let_def)
qed

lemma live_ok_close:
  assumes "live_ok input parts u" "mu_phase u = Filling" "mu_input u = []"
  shows "mu_buffer u \<noteq> [] \<or> mu_sent u = 0 \<Longrightarrow> length (mu_buffer u) < part_size (mu_sent u) \<Longrightarrow>
      live_ok input parts (u\<lparr>mu_buffer := [], mu_queue := mu_queue u @ [Data (mu_buffer u)], mu_phase := Closing\<rparr>)"
    and "mu_buffer u = [] \<Longrightarrow> mu_sent u \<noteq> 0 \<Longrightarrow> live_ok input parts (u\<lparr>mu_phase := Closing\<rparr>)"
proof -
  let ?sent = "parts @ datas (mu_queue u)"
  have l: "concat ?sent @ mu_buffer u = concat input" "full_parts ?sent"
    "length ?sent = mu_sent u" "mu_queue u = map Data (datas (mu_queue u))"
    using assms by (simp_all add: live_ok_def Let_def)
  {
    assume "mu_buffer u \<noteq> [] \<or> mu_sent u = 0" "length (mu_buffer u) < part_size (mu_sent u)"
    then have "cut_parts (?sent @ [mu_buffer u])"
      by (intro cut_parts_snoc l(2)) (use l(3) in auto)
    then show "live_ok input parts
        (u\<lparr>mu_buffer := [], mu_queue := mu_queue u @ [Data (mu_buffer u)], mu_phase := Closing\<rparr>)"
      using l by (simp add: live_ok_def Let_def)
  next
    assume "mu_buffer u = []" "mu_sent u \<noteq> 0"
    moreover from this have "cut_parts ?sent" by (intro full_parts_cut l(2)) (use l(3) in auto)
    ultimately show "live_ok input parts (u\<lparr>mu_phase := Closing\<rparr>)"
      using l by (simp add: live_ok_def Let_def)
  }
qed

lemma up_inv_step: "up_step S u u' \<Longrightarrow> up_inv S input s0 u \<Longrightarrow> up_inv S input s0 u'"
proof (induction rule: up_step.cases)
  case (fill u b bs)
  then show ?case by (cases "mu_thread u") (auto simp: up_inv_def live_ok_def ended_ok_def Let_def)
next
  case (send_full u)
  then show ?case using live_ok_send_full by (cases "mu_thread u") (auto simp: up_inv_def room_def alive_def)
next
  case (send_broken u)
  then show ?case by (cases "mu_thread u") (auto simp: up_inv_def ended_ok_def alive_def)
next
  case (send_last u)
  then show ?case using live_ok_close(1) by (cases "mu_thread u") (auto simp: up_inv_def room_def alive_def)
next
  case (lose_last u)
  then show ?case by (cases "mu_thread u") (auto simp: up_inv_def ended_ok_def alive_def)
next
  case (no_last u)
  then show ?case using live_ok_close(2) by (cases "mu_thread u") (auto simp: up_inv_def ended_ok_def)
next
  case (send_finish u)
  then show ?case by (cases "mu_thread u") (auto simp: up_inv_def room_def alive_def live_ok_def Let_def)
next
  case (lose_finish u)
  then show ?case by (cases "mu_thread u") (auto simp: up_inv_def ended_ok_def alive_def)
next
  case (join u r)
  then show ?case by (auto simp: up_inv_def ended_ok_def)
next
  case (give_up u)
  then show ?case by (cases "mu_thread u") (auto simp: up_inv_def room_def alive_def live_ok_def Let_def)
next
  case (give_up_late u)
  then show ?case by (cases "mu_thread u") (auto simp: up_inv_def ended_ok_def alive_def)
next
  case (join_abort u r)
  then show ?case by (auto simp: up_inv_def ended_ok_def)
next
  case (receive u n toks m q t s)
  then show ?case using up_inv_receive [of S input s0 u n toks m q t s] by simp
qed

lemma up_run_inv: "up_run S input s0 u \<Longrightarrow> up_inv S input s0 u"
  by (induction rule: up_run.induct) (auto intro: up_inv_start up_inv_step)

section \<open>Progress\<close>

lemma handle_msg_total: "\<exists>t s'. handle_msg S m n toks s = (t, s')"
  by (rule surj_pair)

lemma up_progress:
  assumes "up_inv S input s0 u" "\<nexists>x. mu_phase u = Returned x" "mu_phase u \<noteq> Cancelled"
  shows "\<exists>u'. up_step S u u'"
proof (cases "mu_thread u")
  case (Ended r)
  have dead: "\<not> alive u" by (simp add: alive_def Ended)
  show ?thesis
  proof (cases "mu_phase u")
    case Filling
    consider "part_size (mu_sent u) \<le> length (mu_buffer u)" | "length (mu_buffer u) < part_size (mu_sent u)"
      by linarith
    then show ?thesis using send_broken [OF Filling _ dead] give_up_late [of u, OF _ dead] Filling by cases blast+
  next
    case Closing
    then show ?thesis using lose_finish dead by blast
  next
    case Joining
    then show ?thesis using join Ended by blast
  next
    case Broken
    then show ?thesis using give_up_late [of u, OF _ dead] by blast
  next
    case Cancelling
    then show ?thesis using join_abort Ended by blast
  qed (use assms in auto)
next
  case (Uploading n toks)
  show ?thesis
  proof (cases "mu_queue u")
    case (Cons m q)
    then show ?thesis using receive [OF Uploading] handle_msg_total [of S m n toks "mu_sink u"] by blast
  next
    case Nil
    then have room: "room u" by (simp add: room_def alive_def Uploading channel_capacity_def)
    obtain parts where "live_ok input parts u" using assms(1) Uploading by (auto simp: up_inv_def)
    then consider "mu_phase u = Filling" | "mu_phase u = Closing"
      using Nil by (auto simp: live_ok_def Let_def split: phase.splits)
    then show ?thesis
    proof cases
      case 1
      consider "part_size (mu_sent u) \<le> length (mu_buffer u)" | "length (mu_buffer u) < part_size (mu_sent u)"
        by linarith
      then show ?thesis using send_full [OF 1 _ room] give_up [of u, OF _ room] 1 by cases blast+
    next
      case 2
      then show ?thesis using send_finish room by blast
    qed
  qed
qed

fun phase_weight :: "phase \<Rightarrow> nat" where
  "phase_weight Filling = 8"
| "phase_weight Closing = 5"
| "phase_weight Broken = 5"
| "phase_weight Joining = 2"
| "phase_weight Cancelling = 2"
| "phase_weight _ = 0"

definition up_measure :: "'s upload \<Rightarrow> nat" where
  "up_measure u = length (mu_input u) + 3 * (length (mu_buffer u) + length (concat (mu_input u)))
     + length (mu_queue u) + phase_weight (mu_phase u)"

lemma up_step_decreases: "up_step S u u' \<Longrightarrow> up_measure u' < up_measure u"
proof (induction rule: up_step.cases)
  case (send_full u)
  then show ?case using part_size_pos [of "mu_sent u"] by (simp add: up_measure_def)
next
  case (send_broken u)
  then show ?case by (simp add: up_measure_def)
next
  case (give_up u)
  then show ?case by (auto simp: up_measure_def)
next
  case (give_up_late u)
  then show ?case by (auto simp: up_measure_def)
qed (simp_all add: up_measure_def)

section \<open>Parts and their number\<close>

lemma full_parts_bytes: "full_parts ps \<Longrightarrow> length (concat ps) = (\<Sum>i < length ps. part_size i)"
  by (induction ps rule: rev_induct) (simp_all add: full_parts_snoc)

lemma full_blocks: "(\<Sum>i < 10000. part_size i) = 8581545984000"
  using sum_blocks [of 10] by (simp add: initial_part_size_def)

text \<open>Ten thousand parts hold 8,581,545,984,000 bytes, more than the largest object a store takes.\<close>

lemma cut_parts_number:
  assumes "cut_parts ps" "length (concat ps) \<le> 8581545984000"
  shows "length ps \<le> 10000"
proof (rule ccontr)
  assume big: "\<not> length ps \<le> 10000"
  let ?b = "butlast ps"
  have ps: "ps = ?b @ [last ps]" and full: "full_parts ?b" and ne: "[] \<notin> set ps"
    using assms(1) big by (auto simp: cut_parts_def)
  have "last ps \<noteq> []" using ne last_in_set [of ps] assms(1) unfolding cut_parts_def by metis
  have "(\<Sum>i < 10000. part_size i) \<le> (\<Sum>i < length ?b. part_size i)"
    by (rule sum_mono2) (use big in auto)
  also have "\<dots> = length (concat ?b)" by (simp only: full_parts_bytes [OF full])
  also have "\<dots> < length (concat ?b) + length (last ps)" using \<open>last ps \<noteq> []\<close> by simp
  also have "\<dots> = length (concat ps)" by (subst (3) ps) simp
  finally show False using assms(2) full_blocks by simp
qed

lemma part_size_range: "n < 10000 \<Longrightarrow> 5 * 1024 * 1024 \<le> part_size n \<and> part_size n \<le> 5 * 1024 * 1024 * 1024"
proof -
  assume "n < 10000"
  then have "n div 1000 \<le> 9" by simp
  then have "(2::nat) ^ min (n div 1000) 24 \<le> 2 ^ 9" by (intro power_increasing) auto
  then have "(2::nat) ^ min (n div 1000) 24 \<le> 512" by simp
  moreover have "(1::nat) \<le> 2 ^ min (n div 1000) 24" by simp
  ultimately show ?thesis unfolding part_size_eq initial_part_size_def
    by (intro conjI) linarith+
qed

lemma upload_returned:
  assumes "up_run S input s0 u" "mu_phase u = Returned (Inr n)"
  obtains parts toks s1 where "send_all S 1 parts s0 = (Inr toks, s1)"
    "ps_complete S toks s1 = (Inr (), mu_sink u)" "concat parts = concat input" "cut_parts parts"
    "n = length (concat input)"
proof -
  have inv: "up_inv S input s0 u" by (rule up_run_inv [OF assms(1)])
  then obtain r where t: "mu_thread u = Ended r"
    using assms(2) by (cases "mu_thread u") (auto simp: up_inv_def live_ok_def Let_def)
  have j: "joined (mu_total u) r = Inr n" "isl r \<or> uploaded S input s0 r (mu_sink u)"
    "mu_total u = length (concat input)"
    using inv t assms(2) by (auto simp: up_inv_def ended_ok_def)
  then have "r = Inr () \<and> n = mu_total u" by (cases r) (auto simp: joined_def split: error.splits)
  with j show ?thesis using that by (auto simp: uploaded_def)
qed

section \<open>Properties\<close>

text \<open>
  C35. A finished upload is the whole blob: when \<open>finish\<close> returns a size, whatever the two threads'
  interleaving, the backend acknowledged every part in order and completed the upload with their
  tokens, the parts put together are exactly the bytes the caller wrote, and the size is their length.
\<close>

theorem upload_exact:
  assumes "up_run S input s0 u" "mu_phase u = Returned (Inr n)"
  shows "\<exists>parts toks s1. send_all S 1 parts s0 = (Inr toks, s1) \<and> ps_complete S toks s1 = (Inr (), mu_sink u)
    \<and> parts \<noteq> [] \<and> concat parts = concat input \<and> n = length (concat input)"
  using upload_returned [OF assms] by (metis cut_parts_def)


text \<open>
  C39. The two threads never wait for each other for good: in every reachable state before \<open>finish\<close> or
  \<open>abort\<close> has returned some thread can go on, and every step decreases a measure, so one of them
  returns.
\<close>

theorem upload_progress:
  assumes "up_run S input s0 u"
  shows "(\<forall>u'. up_step S u u' \<longrightarrow> up_measure u' < up_measure u)
    \<and> ((\<exists>x. mu_phase u = Returned x) \<or> mu_phase u = Cancelled \<or> (\<exists>u'. up_step S u u'))"
  using up_step_decreases up_progress [OF up_run_inv [OF assms]] by blast

section \<open>An example\<close>

text \<open>A store that keeps the parts it is given and hands out their numbers; one byte is uploaded.\<close>

definition keep_sink :: "bytes list part_sink" where
  "keep_sink =
     \<lparr>ps_send = (\<lambda>n d s. (Inr (show_nat n), s @ [d])), ps_complete = (\<lambda>toks s. (Inr (), s)), ps_abort = (\<lambda>s. [])\<rparr>"

text \<open>A caller that writes less than a part and finishes, with a backend that accepts it.\<close>

definition one_write :: "bytes \<Rightarrow> 's \<Rightarrow> 's upload" where
  "one_write d s2 =
     \<lparr>mu_input = [], mu_buffer = [], mu_sent = 0, mu_total = length d, mu_phase = Returned (Inr (length d)),
      mu_queue = [], mu_thread = Ended (Inr ()), mu_sink = s2\<rparr>"

lemma one_write_run:
  assumes "ps_send S 1 d s0 = (Inr tok, s1)" "ps_complete S [tok] s1 = (Inr (), s2)"
    and "d \<noteq> []" "length d < 1000"
  shows "up_run S [d] s0 (one_write d s2)"
proof -
  have large: "part_size 0 = 8388608" by (simp add: part_size_eq initial_part_size_def)
  let ?u0 = "spawn [d] s0"
  let ?u1 = "?u0\<lparr>mu_input := [], mu_buffer := d, mu_total := length d\<rparr>"
  let ?u2 = "?u1\<lparr>mu_buffer := [], mu_queue := [Data d], mu_phase := Closing\<rparr>"
  let ?u3 = "?u2\<lparr>mu_queue := [], mu_thread := Uploading 2 [tok], mu_sink := s1\<rparr>"
  let ?u4 = "?u3\<lparr>mu_queue := [Finish], mu_phase := Joining\<rparr>"
  let ?u5 = "?u4\<lparr>mu_queue := [], mu_thread := Ended (Inr ()), mu_sink := s2\<rparr>"
  let ?u6 = "?u5\<lparr>mu_phase := Returned (Inr (length d))\<rparr>"
  have "up_step S ?u0 ?u1" using fill [of ?u0 d "[]" S] by (simp add: spawn_def large)
  moreover have "up_step S ?u1 ?u2"
    using send_last [of ?u1 S] assms(3,4) by (simp add: spawn_def large room_def alive_def channel_capacity_def)
  moreover have "up_step S ?u2 ?u3"
    using receive [of ?u2 1 "[]" "Data d" "[]" S "Uploading 2 [tok]" s1] assms(1) by (simp add: spawn_def)
  moreover have "up_step S ?u3 ?u4"
    using send_finish [of ?u3 S] by (simp add: room_def alive_def channel_capacity_def)
  moreover have "up_step S ?u4 ?u5"
    using receive [of ?u4 2 "[tok]" Finish "[]" S "Ended (Inr ())" s2] assms(2) by simp
  moreover have "up_step S ?u5 ?u6" using join [of ?u5 "Inr ()" S] by (simp add: joined_def)
  ultimately have "up_run S [d] s0 ?u6" using up_start [of S "[d]" s0] by (meson up_more)
  then show ?thesis by (simp add: one_write_def spawn_def)
qed

lemma one_write_returned: "mu_phase (one_write d s2) = Returned (Inr (length d))"
  by (simp add: one_write_def)

lemma one_byte_run: "up_run keep_sink [[7]] [] (one_write [7] [[7]])"
  by (rule one_write_run) (simp_all add: keep_sink_def)

theorem upload_exact_witness:
  "\<exists>parts toks s1. send_all keep_sink 1 parts [] = (Inr toks, s1) \<and> concat parts = [7]"
  using upload_exact [OF one_byte_run one_write_returned] by auto


theorem upload_progress_witness: "\<exists>u'. up_step keep_sink (spawn [[7]] []) u'"
  using upload_progress [OF up_start [of keep_sink "[[7]]" "[]"]] by (auto simp: spawn_def)

end
