(* ===== verification/Cloud.thy ===== *)
theory Cloud
  imports Config DumpFormat Multipart
begin

text \<open>
  The S3 and Azure backends (src/storage/s3.rs, src/storage/azure.rs): their settings, the layout of
  object keys, the storage operations over a client, and the part sinks of their streaming uploads. The
  clients (crates aws-sdk-s3 and azure_storage_blobs) are parameters; a request answers with an error
  message or a value. What S3 documents of its answers is the hypothesis \<open>s3_service\<close>.
\<close>

section \<open>Keys\<close>

definition trim_start_slash :: "string \<Rightarrow> string" where
  "trim_start_slash s = dropWhile (\<lambda>c. c = slash) s"

definition trim_end_slash :: "string \<Rightarrow> string" where
  "trim_end_slash s = rev (trim_start_slash (rev s))"

definition join_key :: "string \<Rightarrow> string \<Rightarrow> string" where
  "join_key pre path =
     (let p = trim_end_slash (trim_start_slash pre); q = trim_start_slash path
      in if p = [] then q else p @ [slash] @ q)"

text \<open>\<open>k.strip_prefix(&strip).unwrap_or(k)\<close>: a key relative to the configured prefix.\<close>

definition relative_key :: "string \<Rightarrow> string \<Rightarrow> string" where
  "relative_key pre k =
     (let strip = join_key pre [] in if starts_with k strip then drop (length strip) k else k)"

definition str_param :: "params \<Rightarrow> string \<Rightarrow> string option" where
  "str_param p key = Option.bind (params_get p key) y_as_str"

definition bool_param :: "params \<Rightarrow> string \<Rightarrow> bool option" where
  "bool_param p key = Option.bind (params_get p key) y_as_bool"

text \<open>\<open>as_u64\<close>, and the cast of a port number to \<open>u16\<close>, which drops the high bits.\<close>

definition y_as_u64 :: "yaml \<Rightarrow> 64 word option" where
  "y_as_u64 v = (case untag v of YNumber (YPosInt n) \<Rightarrow> Some n | _ \<Rightarrow> None)"

definition port_param :: "params \<Rightarrow> string \<Rightarrow> 16 word option" where
  "port_param p key = map_option ucast (Option.bind (params_get p key) y_as_u64)"

definition default_str :: "string option \<Rightarrow> string \<Rightarrow> string" where
  "default_str o' d = (case o' of None \<Rightarrow> d | Some s \<Rightarrow> s)"

section \<open>S3 settings\<close>

record s3_config =
  s3_bucket :: string
  s3_region :: "string option"
  s3_endpoint :: "string option"
  s3_prefix :: string
  s3_access_key_id :: "string option"
  s3_secret_access_key :: "string option"
  s3_force_path_style :: "bool option"

definition s3_from_params :: "params \<Rightarrow> s3_config res" where
  "s3_from_params p =
     map_sum id
       (\<lambda>b. \<lparr>s3_bucket = b, s3_region = str_param p ''region'', s3_endpoint = str_param p ''endpoint'',
             s3_prefix = default_str (str_param p ''prefix'') [],
             s3_access_key_id = str_param p ''access_key_id'',
             s3_secret_access_key = str_param p ''secret_access_key'',
             s3_force_path_style = bool_param p ''force_path_style''\<rparr>)
       (ok_or (StorageError (''s3 storage requires a '' @ quoted ''bucket'')) (str_param p ''bucket''))"

definition object_key :: "s3_config \<Rightarrow> string \<Rightarrow> string" where
  "object_key cfg path = join_key (s3_prefix cfg) path"

definition path_style :: "s3_config \<Rightarrow> bool" where
  "path_style cfg =
     (case s3_force_path_style cfg of Some b \<Rightarrow> b | None \<Rightarrow> s3_endpoint cfg \<noteq> None)"

section \<open>The S3 client\<close>

text \<open>A page of a listing: keys with sizes, and common prefixes, each possibly absent.\<close>

record page =
  pg_contents :: "(string option \<times> int option) list"
  pg_prefixes :: "string option list"

datatype head_reply = HeadOk | HeadNotFound | HeadError string

text \<open>
  The requests on a bucket. \<open>c_get\<close> is \<open>None\<close> when the request fails, else the outcome of reading the
  body; \<open>c_list\<close> delivers the pages of the paginator.
\<close>

record 's s3_client =
  c_get :: "string \<Rightarrow> 's \<Rightarrow> (string + bytes) option"
  c_put :: "string \<Rightarrow> bytes \<Rightarrow> 's \<Rightarrow> (string + unit) \<times> 's"
  c_head :: "string \<Rightarrow> 's \<Rightarrow> head_reply"
  c_delete :: "string \<Rightarrow> 's \<Rightarrow> (string + unit) \<times> 's"
  c_list :: "string \<Rightarrow> string option \<Rightarrow> 's \<Rightarrow> (string + page) list"
  c_create_upload :: "string \<Rightarrow> 's \<Rightarrow> (string + string option) \<times> 's"
  c_upload_part :: "string \<Rightarrow> string \<Rightarrow> i32 \<Rightarrow> bytes \<Rightarrow> 's \<Rightarrow> (string + string option) \<times> 's"
  c_complete_upload :: "string \<Rightarrow> string \<Rightarrow> (i32 \<times> string) list \<Rightarrow> 's \<Rightarrow> (string + unit) \<times> 's"
  c_abort_upload :: "string \<Rightarrow> string \<Rightarrow> 's \<Rightarrow> 's"

text \<open>\<open>map_err(|e| Error::Storage(...))\<close> on the answer to a request.\<close>

definition stored :: "string \<Rightarrow> string + 'a \<Rightarrow> 'a res" where
  "stored what r = (case r of Inl e \<Rightarrow> Inl (StorageError (what @ e)) | Inr x \<Rightarrow> Inr x)"

text \<open>Going through the pages stops at the first failed one.\<close>

definition all_pages :: "(string + 'p) list \<Rightarrow> 'p list res" where
  "all_pages ps = collect_res (stored []) ps"

definition s3_list_dumps :: "'s s3_client \<Rightarrow> s3_config \<Rightarrow> 's \<Rightarrow> string list res" where
  "s3_list_dumps c cfg s =
     map_sum id (\<lambda>pages. sort (map (\<lambda>p. last (split_on slash (trim_end_slash p)))
         (List.map_filter id (concat (map pg_prefixes pages)))))
       (all_pages (c_list c (join_key (s3_prefix cfg) []) (Some [slash]) s))"

definition s3_get :: "'s s3_client \<Rightarrow> s3_config \<Rightarrow> string \<Rightarrow> 's \<Rightarrow> bytes res" where
  "s3_get c cfg path s =
     (case c_get c (object_key cfg path) s of
        None \<Rightarrow> Inl (NotFound (''blob '' @ quoted path @ '' not found''))
      | Some body \<Rightarrow> stored [] body)"

definition s3_put :: "'s s3_client \<Rightarrow> s3_config \<Rightarrow> string \<Rightarrow> bytes \<Rightarrow> 's \<Rightarrow> unit res \<times> 's" where
  "s3_put c cfg path data s = map_prod (stored []) id (c_put c (object_key cfg path) data s)"

definition s3_exists :: "'s s3_client \<Rightarrow> s3_config \<Rightarrow> string \<Rightarrow> 's \<Rightarrow> bool res" where
  "s3_exists c cfg path s =
     (case c_head c (object_key cfg path) s of
        HeadOk \<Rightarrow> Inr True
      | HeadNotFound \<Rightarrow> Inr False
      | HeadError e \<Rightarrow> Inl (StorageError e))"

definition s3_list :: "'s s3_client \<Rightarrow> s3_config \<Rightarrow> string \<Rightarrow> 's \<Rightarrow> string list res" where
  "s3_list c cfg pre s =
     map_sum id (\<lambda>pages. sort (map (relative_key (s3_prefix cfg))
         (List.map_filter fst (concat (map pg_contents pages)))))
       (all_pages (c_list c (object_key cfg pre) None s))"

text \<open>Deleting listed blobs one by one, stopping at the first failure.\<close>

fun delete_blobs :: "(string \<Rightarrow> 's \<Rightarrow> (string + unit) \<times> 's) \<Rightarrow> string list \<Rightarrow> 's \<Rightarrow> unit res \<times> 's" where
  "delete_blobs del [] s = (Inr (), s)"
| "delete_blobs del (r # rs) s =
     (case del r s of
        (Inl e, s') \<Rightarrow> (Inl (StorageError e), s')
      | (Inr u, s') \<Rightarrow> delete_blobs del rs s')"

definition s3_delete :: "'s s3_client \<Rightarrow> s3_config \<Rightarrow> string \<Rightarrow> 's \<Rightarrow> unit res \<times> 's" where
  "s3_delete c cfg pre s =
     (case s3_list c cfg pre s of
        Inl e \<Rightarrow> (Inl e, s)
      | Inr rels \<Rightarrow> delete_blobs (\<lambda>rel. c_delete c (object_key cfg rel)) rels s)"

definition s3_size :: "'s s3_client \<Rightarrow> s3_config \<Rightarrow> string \<Rightarrow> 's \<Rightarrow> nat res" where
  "s3_size c cfg pre s =
     map_sum id (\<lambda>pages. sum_list (map (\<lambda>o'. nat (max 0 (case snd o' of None \<Rightarrow> 0 | Some n \<Rightarrow> n)))
         (concat (map pg_contents pages))))
       (all_pages (c_list c (object_key cfg pre) None s))"

definition s3_storage :: "'s s3_client \<Rightarrow> s3_config \<Rightarrow> 's storage" where
  "s3_storage c cfg =
     \<lparr>sg_list_dumps = s3_list_dumps c cfg, sg_get = s3_get c cfg, sg_put = s3_put c cfg,
      sg_exists = s3_exists c cfg, sg_delete = s3_delete c cfg, sg_list = s3_list c cfg,
      sg_size = s3_size c cfg\<rparr>"

section \<open>Streaming uploads to S3\<close>

text \<open>The completed parts are numbered from 1 in the order of their tokens.\<close>

definition numbered :: "string list \<Rightarrow> (i32 \<times> string) list" where
  "numbered toks = map (\<lambda>(i, t). (word_of_nat i + 1, t)) (enumerate 0 toks)"

definition s3_part_sink :: "'s s3_client \<Rightarrow> string \<Rightarrow> string \<Rightarrow> 's part_sink" where
  "s3_part_sink c key uid =
     \<lparr>ps_send = (\<lambda>n d s.
        (case c_upload_part c key uid (word_of_nat n) d s of
           (Inl e, s') \<Rightarrow> (Inl (StorageError (''upload_part: '' @ e)), s')
         | (Inr None, s') \<Rightarrow> (Inl (StorageError ''upload_part response missing ETag''), s')
         | (Inr (Some tag), s') \<Rightarrow> (Inr tag, s'))),
      ps_complete = (\<lambda>toks s.
        map_prod (stored ''complete_multipart_upload: '') id (c_complete_upload c key uid (numbered toks) s)),
      ps_abort = c_abort_upload c key uid\<rparr>"

text \<open>Opening a writer starts an upload; its sink goes to the background thread.\<close>

definition s3_multipart_writer :: "'s s3_client \<Rightarrow> s3_config \<Rightarrow> string \<Rightarrow> 's \<Rightarrow> 's part_sink res \<times> 's" where
  "s3_multipart_writer c cfg path s =
     (let key = object_key cfg path
      in case c_create_upload c key s of
           (Inl e, s') \<Rightarrow> (Inl (StorageError (''create_multipart_upload: '' @ e)), s')
         | (Inr None, s') \<Rightarrow> (Inl (StorageError ''create_multipart_upload response missing upload id''), s')
         | (Inr (Some uid), s') \<Rightarrow> (Inr (s3_part_sink c key uid), s'))"

section \<open>Azure settings\<close>

record azure_config =
  az_account :: "string option"
  az_container :: string
  az_access_key :: "string option"
  az_prefix :: string
  az_emulator_host :: "string option"
  az_emulator_port :: "16 word option"

definition azure_from_params :: "params \<Rightarrow> azure_config res" where
  "azure_from_params p =
     map_sum id
       (\<lambda>c. \<lparr>az_account = str_param p ''account'', az_container = c, az_access_key = str_param p ''access_key'',
             az_prefix = default_str (str_param p ''prefix'') [],
             az_emulator_host = str_param p ''emulator_host'',
             az_emulator_port = port_param p ''emulator_port''\<rparr>)
       (ok_or (StorageError (''azure storage requires a '' @ quoted ''container'')) (str_param p ''container''))"

definition blob_name :: "azure_config \<Rightarrow> string \<Rightarrow> string" where
  "blob_name cfg path = join_key (az_prefix cfg) path"

text \<open>Where \<open>open\<close> connects to: an emulator, or an account with its key.\<close>

datatype azure_target = Emulator string "16 word" | Account string string

definition azure_target_of :: "azure_config \<Rightarrow> azure_target res" where
  "azure_target_of cfg =
     (case az_emulator_host cfg of
        Some host \<Rightarrow> Inr (Emulator host (case az_emulator_port cfg of None \<Rightarrow> 10000 | Some p \<Rightarrow> p))
      | None \<Rightarrow>
          (case az_account cfg of
             None \<Rightarrow> Inl (StorageError (''azure storage requires an '' @ quoted ''account''))
           | Some a \<Rightarrow>
               (case az_access_key cfg of
                  None \<Rightarrow> Inl (StorageError (''azure storage requires an '' @ quoted ''access_key''))
                | Some k \<Rightarrow> Inr (Account a k))))"

section \<open>The Azure backend\<close>

record 's azure_client =
  a_get :: "string \<Rightarrow> 's \<Rightarrow> bytes option"
  a_put :: "string \<Rightarrow> bytes \<Rightarrow> 's \<Rightarrow> (string + unit) \<times> 's"
  a_exists :: "string \<Rightarrow> 's \<Rightarrow> string + bool"
  a_delete :: "string \<Rightarrow> 's \<Rightarrow> (string + unit) \<times> 's"
  a_list :: "string \<Rightarrow> 's \<Rightarrow> (string + (string \<times> nat) list) list"
  a_put_block :: "string \<Rightarrow> string \<Rightarrow> bytes \<Rightarrow> 's \<Rightarrow> (string + unit) \<times> 's"
  a_put_block_list :: "string \<Rightarrow> string list \<Rightarrow> 's \<Rightarrow> (string + unit) \<times> 's"

definition azure_get :: "'s azure_client \<Rightarrow> azure_config \<Rightarrow> string \<Rightarrow> 's \<Rightarrow> bytes res" where
  "azure_get c cfg path s =
     ok_or (NotFound (''blob '' @ quoted path @ '' not found'')) (a_get c (blob_name cfg path) s)"

definition azure_put :: "'s azure_client \<Rightarrow> azure_config \<Rightarrow> string \<Rightarrow> bytes \<Rightarrow> 's \<Rightarrow> unit res \<times> 's" where
  "azure_put c cfg path data s = map_prod (stored []) id (a_put c (blob_name cfg path) data s)"

definition azure_exists :: "'s azure_client \<Rightarrow> azure_config \<Rightarrow> string \<Rightarrow> 's \<Rightarrow> bool res" where
  "azure_exists c cfg path s = stored [] (a_exists c (blob_name cfg path) s)"

definition azure_list :: "'s azure_client \<Rightarrow> azure_config \<Rightarrow> string \<Rightarrow> 's \<Rightarrow> string list res" where
  "azure_list c cfg pre s =
     map_sum id (\<lambda>pages. sort (map (relative_key (az_prefix cfg)) (map fst (concat pages))))
       (all_pages (a_list c (blob_name cfg pre) s))"

definition azure_list_dumps :: "'s azure_client \<Rightarrow> azure_config \<Rightarrow> 's \<Rightarrow> string list res" where
  "azure_list_dumps c cfg s =
     map_sum id (\<lambda>all. remdups_adj (sort (map (\<lambda>p. hd (split_on slash p)) all))) (azure_list c cfg [] s)"

definition azure_delete :: "'s azure_client \<Rightarrow> azure_config \<Rightarrow> string \<Rightarrow> 's \<Rightarrow> unit res \<times> 's" where
  "azure_delete c cfg pre s =
     (case azure_list c cfg pre s of
        Inl e \<Rightarrow> (Inl e, s)
      | Inr rels \<Rightarrow> delete_blobs (\<lambda>rel. a_delete c (blob_name cfg rel)) rels s)"

definition azure_size :: "'s azure_client \<Rightarrow> azure_config \<Rightarrow> string \<Rightarrow> 's \<Rightarrow> nat res" where
  "azure_size c cfg pre s =
     map_sum id (\<lambda>pages. sum_list (map snd (concat pages))) (all_pages (a_list c (blob_name cfg pre) s))"

definition azure_storage :: "'s azure_client \<Rightarrow> azure_config \<Rightarrow> 's storage" where
  "azure_storage c cfg =
     \<lparr>sg_list_dumps = azure_list_dumps c cfg, sg_get = azure_get c cfg, sg_put = azure_put c cfg,
      sg_exists = azure_exists c cfg, sg_delete = azure_delete c cfg, sg_list = azure_list c cfg,
      sg_size = azure_size c cfg\<rparr>"

text \<open>Block ids are the part numbers, padded with zeros to twenty digits.\<close>

definition block_id :: "nat \<Rightarrow> string" where
  "block_id n = replicate (20 - length (show_nat n)) (CHR ''0'') @ show_nat n"

definition azure_part_sink :: "'s azure_client \<Rightarrow> string \<Rightarrow> 's part_sink" where
  "azure_part_sink c blob =
     \<lparr>ps_send = (\<lambda>n d s.
        case a_put_block c blob (block_id n) d s of
          (Inl e, s') \<Rightarrow> (Inl (StorageError (''put_block: '' @ e)), s')
        | (Inr u, s') \<Rightarrow> (Inr (block_id n), s')),
      ps_complete = (\<lambda>toks s. map_prod (stored ''put_block_list: '') id (a_put_block_list c blob toks s)),
      ps_abort = (\<lambda>s. s)\<rparr>"

definition azure_multipart_writer :: "'s azure_client \<Rightarrow> azure_config \<Rightarrow> string \<Rightarrow> 's \<Rightarrow> 's part_sink res \<times> 's" where
  "azure_multipart_writer c cfg path s = (Inr (azure_part_sink c (blob_name cfg path)), s)"

section \<open>SFTP settings\<close>

text \<open>The settings of the SFTP backend (src/storage/ssh.rs) and the layout of its remote paths; its operations are
  in \<open>Sftp\<close>.\<close>

record ssh_config =
  sh_host :: string
  sh_port :: "16 word"
  sh_username :: "string option"
  sh_password :: "string option"
  sh_private_key :: "string option"
  sh_base_path :: string

definition ssh_from_params :: "params \<Rightarrow> ssh_config res" where
  "ssh_from_params p =
     map_sum id
       (\<lambda>h. \<lparr>sh_host = h, sh_port = (case port_param p ''port'' of None \<Rightarrow> 22 | Some n \<Rightarrow> n),
             sh_username = str_param p ''username'', sh_password = str_param p ''password'',
             sh_private_key = str_param p ''private_key'',
             sh_base_path = default_str (str_param p ''base_path'') ''.''\<rparr>)
       (ok_or (StorageError (''ssh storage requires a '' @ quoted ''host'')) (str_param p ''host''))"

definition remote_path :: "ssh_config \<Rightarrow> string \<Rightarrow> string" where
  "remote_path cfg path =
     (let base = trim_end_slash (sh_base_path cfg); q = trim_start_slash path
      in if base = [] \<or> base = ''.'' then q else base @ [slash] @ q)"

section \<open>Opening a cloud backend\<close>

text \<open>What \<open>open_from_config\<close> calls; building a client from its settings is the parameter.\<close>

definition open_s3 :: "(s3_config \<Rightarrow> 's s3_client res) \<Rightarrow> params \<Rightarrow> 's storage res" where
  "open_s3 client p =
     (case s3_from_params p of
        Inl e \<Rightarrow> Inl e
      | Inr cfg \<Rightarrow> map_sum id (\<lambda>c. s3_storage c cfg) (client cfg))"

definition open_azure :: "(azure_target \<Rightarrow> string \<Rightarrow> 's azure_client res) \<Rightarrow> params \<Rightarrow> 's storage res" where
  "open_azure client p =
     (case azure_from_params p of
        Inl e \<Rightarrow> Inl e
      | Inr cfg \<Rightarrow>
          (case azure_target_of cfg of
             Inl e \<Rightarrow> Inl e
           | Inr t \<Rightarrow> map_sum id (\<lambda>c. azure_storage c cfg) (client t (az_container cfg))))"

section \<open>Lemmas on keys\<close>

text \<open>Path-style addressing follows the setting, else a custom endpoint; an unusual port wraps around.\<close>

lemma path_style_default: "s3_force_path_style cfg = None \<Longrightarrow> path_style cfg \<longleftrightarrow> s3_endpoint cfg \<noteq> None"
  by (simp add: path_style_def)

lemma port_wraps: "port_param [(''port'', YNumber (YPosInt 65558))] ''port'' = Some 22"
  by (simp add: port_param_def params_get_def y_as_u64_def)

lemma trim_start_prefix: "s \<noteq> [] \<Longrightarrow> hd s \<noteq> slash \<Longrightarrow> trim_start_slash (s @ t) = s @ t"
  by (cases s) (auto simp: trim_start_slash_def)

lemma trim_start_idem: "trim_start_slash (trim_start_slash s) = trim_start_slash s"
  by (induction s) (auto simp: trim_start_slash_def)

text \<open>The keys below a path are the keys of its extensions.\<close>

lemma join_key_append: "path = [] \<or> hd path \<noteq> slash \<Longrightarrow> join_key pre path = join_key pre [] @ path"
  by (cases path) (auto simp: join_key_def Let_def trim_start_slash_def)

lemma join_key_trim: "join_key pre (trim_start_slash path) = join_key pre path"
  by (simp add: join_key_def Let_def trim_start_idem)

lemma trim_start_hd: "trim_start_slash p = [] \<or> hd (trim_start_slash p) \<noteq> slash"
  using hd_dropWhile [of "\<lambda>c. c = slash" p] by (auto simp: trim_start_slash_def)

lemma join_key_eq: "join_key pre path = join_key pre [] @ trim_start_slash path"
  using join_key_append [OF trim_start_hd, of pre path] by (simp add: join_key_trim)

lemma join_key_inject: "join_key pre p = join_key pre q \<longleftrightarrow> trim_start_slash p = trim_start_slash q"
  by (simp add: join_key_eq [of pre p] join_key_eq [of pre q])

text \<open>A listed key goes back to itself; below the root at least it stays below.\<close>

lemma relative_key_listed:
  assumes "prefix (join_key pre path) k"
  obtains t where "k = join_key pre path @ t" "relative_key pre k = trim_start_slash path @ t"
  using assms by (auto simp: join_key_eq [of pre path] relative_key_def Let_def elim!: prefixE)

lemma relative_key_back:
  assumes "prefix (join_key pre path) k" "trim_start_slash path \<noteq> []"
  shows "join_key pre (relative_key pre k) = k"
proof -
  obtain t where t: "k = join_key pre path @ t" "relative_key pre k = trim_start_slash path @ t"
    by (rule relative_key_listed [OF assms(1)])
  have "trim_start_slash (relative_key pre k) = relative_key pre k"
    unfolding t(2) using trim_start_hd [of path] assms(2) by (intro trim_start_prefix) auto
  then show ?thesis
    using t join_key_eq [of pre "relative_key pre k"] join_key_eq [of pre path] by simp
qed

lemma relative_key_below:
  assumes "prefix (join_key pre path) k"
  shows "prefix (join_key pre path) (join_key pre (relative_key pre k))"
proof (cases "trim_start_slash path = []")
  case True
  then show ?thesis using join_key_eq [of pre path] join_key_eq [of pre "relative_key pre k"] by simp
qed (use assms relative_key_back in simp)

section \<open>What S3 documents\<close>

text \<open>
  The objects of the bucket as a view \<open>objs\<close> of the client's state. A request that succeeds has its
  documented effect; one that fails has changed nothing or done its work; reads see the latest write and
  are answered; a listing without delimiter names the keys with the given prefix.
\<close>

definition s3_service :: "'s s3_client \<Rightarrow> ('s \<Rightarrow> string \<Rightarrow> bytes option) \<Rightarrow> bool" where
  "s3_service c objs =
     ((\<forall>k s. c_get c k s = map_option Inr (objs s k))
      \<and> (\<forall>k s. c_head c k s = (if objs s k = None then HeadNotFound else HeadOk))
      \<and> (\<forall>k d s r s'. c_put c k d s = (r, s') \<longrightarrow>
           objs s' = (objs s)(k \<mapsto> d) \<or> isl r \<and> objs s' = objs s)
      \<and> (\<forall>k s r s'. c_delete c k s = (r, s') \<longrightarrow>
           objs s' = (objs s)(k := None) \<or> isl r \<and> objs s' = objs s)
      \<and> (\<forall>p s pages. all_pages (c_list c p None s) = Inr pages \<longrightarrow>
           set (List.map_filter fst (concat (map pg_contents pages))) = {k. objs s k \<noteq> None \<and> prefix p k}))"

text \<open>Such a service is a blob store: every path is one place, its key.\<close>

lemma s3_blob_store:
  assumes "s3_service c objs"
  shows "blob_store (s3_get c cfg) (s3_put c cfg) (s3_exists c cfg) (\<lambda>p. [object_key cfg p]) (\<lambda>s. True)"
proof -
  have get: "s3_get c cfg p s = Inr b \<longleftrightarrow> objs s (object_key cfg p) = Some b" for p s b
    using assms by (auto simp: s3_service_def s3_get_def stored_def split: option.splits)
  have ex: "s3_exists c cfg p s = Inr (objs s (object_key cfg p) \<noteq> None)" for p s
    using assms by (simp add: s3_service_def s3_exists_def)
  have put: "objs s' = (objs s)(object_key cfg p \<mapsto> d) \<or> isl r \<and> objs s' = objs s"
    if w: "s3_put c cfg p d s = (r, s')" for p d s r s'
  proof -
    obtain r1 where r1: "c_put c (object_key cfg p) d s = (r1, s')" "r = stored [] r1"
      using w by (cases "c_put c (object_key cfg p) d s") (auto simp: s3_put_def)
    with assms have "objs s' = (objs s)(object_key cfg p \<mapsto> d) \<or> isl r1 \<and> objs s' = objs s"
      by (simp add: s3_service_def)
    with r1(2) show ?thesis by (cases r1) (auto simp: stored_def)
  qed
  show ?thesis
  proof
    fix s p d s' assume "s3_put c cfg p d s = (Inr (), s')"
    then have s': "objs s' = (objs s)(object_key cfg p \<mapsto> d)" using put by force
    then show "s3_get c cfg p s' = Inr d" by (simp add: get)
    show "s3_get c cfg q s' = Inr b" if "[object_key cfg q] \<noteq> [object_key cfg p]" "s3_get c cfg q s = Inr b" for q b
      using that s' by (simp add: get)
  next
    fix s p d r s' q assume w: "s3_put c cfg p d s = (r, s')" and q: "s3_exists c cfg q s' = Inr True"
    from put [OF w] q show "s3_exists c cfg q s = Inr True \<or> prefix [object_key cfg q] [object_key cfg p]"
      by (auto simp: ex split: if_splits)
  qed (auto simp: get ex)
qed

text \<open>Deleting the listed keys of a path.\<close>

lemma delete_blobs_effect:
  assumes "s3_service c objs" "delete_blobs (\<lambda>rel. c_delete c (object_key cfg rel)) rels s = (r, s')"
  shows "(\<forall>k. k \<notin> object_key cfg ` set rels \<longrightarrow> objs s' k = objs s k)
    \<and> (r = Inr () \<longrightarrow> (\<forall>k \<in> object_key cfg ` set rels. objs s' k = None))"
  using assms(2)
proof (induction rels arbitrary: s)
  case (Cons x xs)
  obtain r1 s1 where d: "c_delete c (object_key cfg x) s = (r1, s1)" by (rule prod.exhaust)
  then have e: "objs s1 = (objs s)(object_key cfg x := None) \<or> isl r1 \<and> objs s1 = objs s"
    using assms(1) by (simp add: s3_service_def)
  show ?case
  proof (cases r1)
    case (Inl m)
    with Cons.prems d e show ?thesis by auto
  next
    case (Inr u)
    with Cons.prems d have rest: "delete_blobs (\<lambda>rel. c_delete c (object_key cfg rel)) xs s1 = (r, s')" by simp
    have s1: "objs s1 = (objs s)(object_key cfg x := None)" using e Inr by simp
    show ?thesis
    proof (cases "object_key cfg x \<in> object_key cfg ` set xs")
      case True
      with Cons.IH [OF rest] s1 show ?thesis by auto
    next
      case False
      with Cons.IH [OF rest] s1 show ?thesis by simp
    qed
  qed
qed simp

section \<open>What a part sink does\<close>

text \<open>
  The contract between the streaming upload and a backend: an acknowledged part is held under its number,
  and completing with the acknowledgements of the parts 1, 2, ... in order makes them one object.
\<close>

locale part_store =
  fixes S :: "'s part_sink" and objs :: "'s \<Rightarrow> string \<Rightarrow> bytes option" and key :: string
    and held :: "'s \<Rightarrow> nat \<Rightarrow> (string \<times> bytes) option"
  assumes send: "ps_send S n d s = (Inr tok, s') \<Longrightarrow> n < 2 ^ 32 \<Longrightarrow>
      objs s' = objs s \<and> held s' n = Some (tok, d) \<and> (\<forall>m < 2 ^ 32. m \<noteq> n \<longrightarrow> held s' m = held s m)"
    and complete: "ps_complete S toks s = (Inr (), s') \<Longrightarrow> length toks = length ds \<Longrightarrow> length ds < 2 ^ 32 \<Longrightarrow>
      (\<And>i. i < length ds \<Longrightarrow> held s (i + 1) = Some (toks ! i, ds ! i)) \<Longrightarrow> objs s' = (objs s)(key \<mapsto> concat ds)"
begin

lemma send_all_held:
  "send_all S n parts s = (Inr toks, s') \<Longrightarrow> n + length parts \<le> 2 ^ 32 \<Longrightarrow>
     objs s' = objs s \<and> length toks = length parts
     \<and> (\<forall>m < 2 ^ 32. m < n \<or> n + length parts \<le> m \<longrightarrow> held s' m = held s m)
     \<and> (\<forall>i < length parts. held s' (n + i) = Some (toks ! i, parts ! i))"
proof (induction parts arbitrary: n s toks)
  case (Cons d ds)
  obtain tok s1 toks' where up: "ps_send S n d s = (Inr tok, s1)"
    and rest: "send_all S (n + 1) ds s1 = (Inr toks', s')" and toks: "toks = tok # toks'"
    using Cons.prems(1) by (auto split: prod.splits sum.splits)
  have n: "n < 2 ^ 32" using Cons.prems(2) by simp
  note s1 = send [OF up n]
  have IH: "objs s' = objs s1" "length toks' = length ds"
    "\<forall>m < 2 ^ 32. m < n + 1 \<or> n + 1 + length ds \<le> m \<longrightarrow> held s' m = held s1 m"
    "\<forall>i < length ds. held s' (n + 1 + i) = Some (toks' ! i, ds ! i)"
    using Cons.IH [OF rest] Cons.prems(2) by auto
  have "held s' (n + i) = Some (toks ! i, (d # ds) ! i)" if "i < length (d # ds)" for i
    using that IH(3,4) s1 n toks by (cases i) auto
  with IH s1 toks show ?case by auto
qed simp

lemma upload_is_put:
  assumes "up_run S input s0 u" "mu_phase u = Returned (Inr n)" "n \<le> 8581545984000"
  shows "objs (mu_sink u) = (objs s0)(key \<mapsto> concat input) \<and> n = length (concat input)"
proof -
  obtain parts toks s1 where parts: "send_all S 1 parts s0 = (Inr toks, s1)"
    "ps_complete S toks s1 = (Inr (), mu_sink u)" "concat parts = concat input"
    "cut_parts parts" "n = length (concat input)"
    by (rule upload_returned [OF assms(1,2)])
  have few: "length parts \<le> 10000" using cut_parts_number [OF parts(4)] assms(3) parts(3,5) by simp
  then have sent: "objs s1 = objs s0" "length toks = length parts"
    "\<And>i. i < length parts \<Longrightarrow> held s1 (i + 1) = Some (toks ! i, parts ! i)"
    using send_all_held [OF parts(1)] by (auto simp: add.commute)
  have "objs (mu_sink u) = (objs s1)(key \<mapsto> concat parts)"
    by (rule complete [OF parts(2) sent(2) _ sent(3)]) (use few in simp_all)
  with parts(3,5) sent(1) show ?thesis by simp
qed

end

text \<open>An upload in progress keeps its parts by number, as the view \<open>ups\<close>; completing it joins them.\<close>

definition s3_uploads ::
    "'s s3_client \<Rightarrow> ('s \<Rightarrow> string \<Rightarrow> bytes option) \<Rightarrow> ('s \<Rightarrow> string \<Rightarrow> i32 \<Rightarrow> (string \<times> bytes) option) \<Rightarrow> bool" where
  "s3_uploads c objs ups =
     ((\<forall>k uid n d s tag s'. c_upload_part c k uid n d s = (Inr (Some tag), s') \<longrightarrow>
         objs s' = objs s \<and> ups s' uid = (ups s uid)(n \<mapsto> (tag, d)))
      \<and> (\<forall>k uid ps ds s s'. c_complete_upload c k uid ps s = (Inr (), s') \<longrightarrow>
         list_all2 (\<lambda>(n, tag) d. ups s uid n = Some (tag, d)) ps ds \<longrightarrow>
         objs s' = (objs s)(k \<mapsto> concat ds)))"

lemma i32_number: "m < 2 ^ 32 \<Longrightarrow> unat (word_of_nat m :: i32) = m"
  by (simp add: unsigned_of_nat take_bit_nat_eq_self)

lemma i32_number_inject: "m < 2 ^ 32 \<Longrightarrow> n < 2 ^ 32 \<Longrightarrow> (word_of_nat m :: i32) = word_of_nat n \<longleftrightarrow> m = n"
  by (metis i32_number)

lemma s3_part_store:
  assumes "s3_uploads c objs ups"
  shows "part_store (s3_part_sink c k uid) objs k (\<lambda>s n. ups s uid (word_of_nat n))"
proof
  fix n d s tok s'
  assume "ps_send (s3_part_sink c k uid) n d s = (Inr tok, s')" and n: "n < 2 ^ 32"
  then have "c_upload_part c k uid (word_of_nat n) d s = (Inr (Some tok), s')"
    by (auto simp: s3_part_sink_def split: prod.splits sum.splits option.splits)
  with assms have "objs s' = objs s" "ups s' uid = (ups s uid)(word_of_nat n \<mapsto> (tok, d))"
    by (auto simp: s3_uploads_def)
  with n show "objs s' = objs s \<and> ups s' uid (word_of_nat n) = Some (tok, d)
      \<and> (\<forall>m < 2 ^ 32. m \<noteq> n \<longrightarrow> ups s' uid (word_of_nat m) = ups s uid (word_of_nat m))"
    by (simp add: i32_number_inject)
next
  fix toks s s' and ds :: "bytes list"
  assume c: "ps_complete (s3_part_sink c k uid) toks s = (Inr (), s')" and len: "length toks = length ds"
    and held: "\<And>i. i < length ds \<Longrightarrow> ups s uid (word_of_nat (i + 1)) = Some (toks ! i, ds ! i)"
  have "c_complete_upload c k uid (numbered toks) s = (Inr (), s')"
    using c by (cases "c_complete_upload c k uid (numbered toks) s")
      (auto simp: s3_part_sink_def stored_def split: sum.splits)
  moreover have "list_all2 (\<lambda>(n, tag) d. ups s uid n = Some (tag, d)) (numbered toks) ds"
    using held len by (auto simp: list_all2_conv_all_nth numbered_def nth_enumerate_eq add.commute)
  ultimately show "objs s' = (objs s)(k \<mapsto> concat ds)" using assms unfolding s3_uploads_def by blast
qed

section \<open>Block ids and the Azure part sink\<close>

lemma length_show_uint: "n < 10 ^ Suc k \<Longrightarrow> length (show_uint n) \<le> Suc k" for n :: int
proof (induction k arbitrary: n)
  case 0
  then show ?case by (subst show_uint.simps) simp
next
  case (Suc k)
  have "n div 10 < 10 ^ Suc k" using Suc.prems by simp
  with Suc.IH show ?case by (subst show_uint.simps) simp
qed

lemma digits_val_zeros: "digits_val (replicate k (CHR ''0'') @ s) = digits_val s"
  by (induction k) (simp_all add: digits_val_def digit_val_def)

lemma block_id_inject: "block_id m = block_id n \<longleftrightarrow> m = n"
proof
  have "digits_val (block_id n) = int n" for n
    by (simp add: block_id_def digits_val_zeros show_nat_def show_int_def digits_val_show_uint)
  moreover assume "block_id m = block_id n"
  ultimately show "m = n" by (metis of_nat_eq_iff)
qed simp

text \<open>
  What Azure documents: a block is held uncommitted under its id, and a block list that is accepted makes
  the blocks it names, in their order, the content of the blob.
\<close>

definition azure_uploads ::
    "'s azure_client \<Rightarrow> ('s \<Rightarrow> string \<Rightarrow> bytes option) \<Rightarrow> ('s \<Rightarrow> string \<Rightarrow> string \<Rightarrow> bytes option) \<Rightarrow> bool" where
  "azure_uploads c objs blocks =
     ((\<forall>blob i d s s'. a_put_block c blob i d s = (Inr (), s') \<longrightarrow>
         objs s' = objs s \<and> blocks s' blob = (blocks s blob)(i \<mapsto> d))
      \<and> (\<forall>blob ids ds s s'. a_put_block_list c blob ids s = (Inr (), s') \<longrightarrow>
         list_all2 (\<lambda>i d. blocks s blob i = Some d) ids ds \<longrightarrow> objs s' = (objs s)(blob \<mapsto> concat ds)))"

lemma azure_part_store:
  assumes "azure_uploads c objs blocks"
  shows "part_store (azure_part_sink c blob) objs blob
    (\<lambda>s n. map_option (Pair (block_id n)) (blocks s blob (block_id n)))"
proof
  fix n d s tok s'
  assume "ps_send (azure_part_sink c blob) n d s = (Inr tok, s')"
  then have "a_put_block c blob (block_id n) d s = (Inr (), s')" and tok: "tok = block_id n"
    by (auto simp: azure_part_sink_def split: prod.splits sum.splits)
  with assms have "objs s' = objs s" "blocks s' blob = (blocks s blob)(block_id n \<mapsto> d)"
    by (auto simp: azure_uploads_def)
  with tok show "objs s' = objs s \<and> map_option (Pair (block_id n)) (blocks s' blob (block_id n)) = Some (tok, d)
      \<and> (\<forall>m < 2 ^ 32. m \<noteq> n \<longrightarrow> map_option (Pair (block_id m)) (blocks s' blob (block_id m)) =
          map_option (Pair (block_id m)) (blocks s blob (block_id m)))"
    by (simp add: block_id_inject)
next
  fix toks s s' and ds :: "bytes list"
  assume c: "ps_complete (azure_part_sink c blob) toks s = (Inr (), s')" and len: "length toks = length ds"
    and held: "\<And>i. i < length ds \<Longrightarrow>
      map_option (Pair (block_id (i + 1))) (blocks s blob (block_id (i + 1))) = Some (toks ! i, ds ! i)"
  have "a_put_block_list c blob toks s = (Inr (), s')"
    using c by (cases "a_put_block_list c blob toks s")
      (auto simp: azure_part_sink_def stored_def split: sum.splits)
  moreover have "list_all2 (\<lambda>i d. blocks s blob i = Some d) toks ds"
    using held len by (fastforce simp: list_all2_conv_all_nth)
  ultimately show "objs s' = (objs s)(blob \<mapsto> concat ds)" using assms unfolding azure_uploads_def by blast
qed

section \<open>More on keys\<close>

lemma trim_start_append:
  "trim_start_slash (a @ b) = (if trim_start_slash a = [] then trim_start_slash b else trim_start_slash a @ b)"
  by (induction a) (auto simp: trim_start_slash_def)

text \<open>Within a dump, different paths have different keys.\<close>

lemma object_key_in_dump:
  assumes "hd p \<noteq> slash" "hd q \<noteq> slash" "p \<noteq> []" "q \<noteq> []"
  shows "object_key cfg (in_dump did p) = object_key cfg (in_dump did q) \<longleftrightarrow> p = q"
proof -
  have "trim_start_slash (''/'' @ p) = p" "trim_start_slash (''/'' @ q) = q"
    using trim_start_prefix [of p "[]"] trim_start_prefix [of q "[]"] assms
    by (simp_all add: trim_start_append [of "''/''"] trim_start_slash_def slash_def)
  then show ?thesis
    by (simp add: object_key_def in_dump_def join_key_inject trim_start_append [of did])
qed

lemma dump_keys_differ:
  "object_key cfg (in_dump did (data_path db coll gz_on)) \<noteq> object_key cfg (in_dump did (meta_path db coll))"
  "object_key cfg (in_dump did (data_path db coll True)) \<noteq> object_key cfg (in_dump did (data_path db coll False))"
  by (subst object_key_in_dump; auto simp: data_path_def meta_path_def slash_def)+

section \<open>Properties\<close>

text \<open>
  A blob streamed to S3 is stored whole: when the upload of a writer returns a size, whatever the
  interleaving of the two threads, the object at its key holds exactly the bytes written and no other
  object has changed. The blob has at most 8,581,545,984,000 bytes (the parts then number at most 10,000).
\<close>

theorem s3_upload_is_put:
  assumes "s3_uploads c objs ups" "up_run (s3_part_sink c k uid) input s0 u"
    and "mu_phase u = Returned (Inr n)" "n \<le> 8581545984000"
  shows "objs (mu_sink u) = (objs s0)(k \<mapsto> concat input) \<and> n = length (concat input)"
  by (rule part_store.upload_is_put [OF s3_part_store [OF assms(1)] assms(2-4)])

text \<open>
  A blob streamed to Azure is stored whole: when the upload of a writer returns a size, the blob holds
  exactly the bytes written and no other blob has changed; and every block id sent has the same length, as the
  service requires, with a different one for each part.
\<close>

theorem azure_upload_is_put:
  assumes "azure_uploads c objs blocks" "up_run (azure_part_sink c blob) input s0 u"
    and "mu_phase u = Returned (Inr n)" "n \<le> 8581545984000"
  shows "objs (mu_sink u) = (objs s0)(blob \<mapsto> concat input) \<and> n = length (concat input)
    \<and> (\<forall>i < 2 ^ 64. length (block_id i) = 20) \<and> inj block_id"
proof -
  have "length (block_id i) = 20" if "i < 2 ^ 64" for i
    using that length_show_uint [of "int i" 19] by (simp add: block_id_def show_nat_def show_int_def)
  moreover have "inj block_id" by (simp add: inj_def block_id_inject)
  moreover note part_store.upload_is_put [OF azure_part_store [OF assms(1)] assms(2-4)]
  ultimately show ?thesis by blast
qed

text \<open>
  Deleting on S3 stays below the deleted path: an object whose key does not start with the key of the
  path is untouched, and when the deletion of a path succeeds no object with such a key is left. (The
  prefix is one of the text, not of path segments: \<open>d1\<close> also covers \<open>d10/x\<close>.)
\<close>

theorem s3_delete_exact:
  assumes "s3_service c objs" "s3_delete c cfg p s = (r, s')"
  shows "(\<forall>k. \<not> prefix (object_key cfg p) k \<longrightarrow> objs s' k = objs s k)
    \<and> (r = Inr () \<longrightarrow> trim_start_slash p \<noteq> [] \<longrightarrow> (\<forall>k. prefix (object_key cfg p) k \<longrightarrow> objs s' k = None))"
proof (cases "all_pages (c_list c (object_key cfg p) None s)")
  case (Inl e)
  with assms(2) show ?thesis by (auto simp: s3_delete_def s3_list_def)
next
  case (Inr pages)
  let ?keys = "List.map_filter fst (concat (map pg_contents pages))"
  let ?rels = "sort (map (relative_key (s3_prefix cfg)) ?keys)"
  have keys: "set ?keys = {k. objs s k \<noteq> None \<and> prefix (object_key cfg p) k}"
    using assms(1) Inr by (simp add: s3_service_def)
  have "delete_blobs (\<lambda>rel. c_delete c (object_key cfg rel)) ?rels s = (r, s')"
    using assms(2) Inr by (simp add: s3_delete_def s3_list_def)
  note del = delete_blobs_effect [OF assms(1) this]
  have img: "object_key cfg ` set ?rels = (\<lambda>k. object_key cfg (relative_key (s3_prefix cfg) k)) ` set ?keys"
    by (simp add: image_image)
  have below: "prefix (object_key cfg p) k" if "k \<in> object_key cfg ` set ?rels" for k
    using that relative_key_below unfolding img keys object_key_def by blast
  have gone: "k \<in> object_key cfg ` set ?rels"
    if "trim_start_slash p \<noteq> []" "objs s k \<noteq> None" "prefix (object_key cfg p) k" for k
  proof -
    have "object_key cfg (relative_key (s3_prefix cfg) k) = k"
      using relative_key_back that by (simp add: object_key_def)
    with that(2,3) show ?thesis unfolding img keys by force
  qed
  show ?thesis
  proof (intro conjI allI impI)
    show "objs s' k = objs s k" if "\<not> prefix (object_key cfg p) k" for k
      using del below that by blast
    show "objs s' k = None" if ok: "r = Inr ()" "trim_start_slash p \<noteq> []" "prefix (object_key cfg p) k" for k
      using del gone [OF ok(2) _ ok(3)] ok(1) by (cases "k \<in> object_key cfg ` set ?rels") auto
  qed
qed

text \<open>
  C11. A dumped collection reads back whole from S3: writing a collection into a dump in a bucket, compressed or
  not, and reading it back yields the same documents in the same order, indexes, validator and options,
  whatever the key prefix and the names; an uncompressed write does not sit beside a compressed blob.
\<close>

theorem collection_round_trip_s3:
  assumes "s3_service c objs"
    and "\<forall>x \<in> set (d_documents d). framed C x"
    and "gunzip C (gz C (blob_of C (d_documents d))) = (blob_of C (d_documents d), None)"
    and "\<And>raw. enc_cmeta C (meta_of_data d) = Some raw \<Longrightarrow> dec_cmeta C raw = Some (meta_of_data d)"
    and "\<not> gz_on \<Longrightarrow> s3_exists c cfg (in_dump did (data_path (d_database d) (d_collection d) True)) s = Inr False"
    and "write_collection_data C (s3_storage c cfg) did d gz_on s = (Inr n, s')"
  shows "read_collection_full C (s3_storage c cfg) did (d_database d) (d_collection d) s' = Inr d"
proof -
  have "blob_store (s3_get c cfg) (s3_put c cfg) (s3_exists c cfg) (\<lambda>p. [object_key cfg p]) (\<lambda>s. True)"
    by (rule s3_blob_store [OF assms(1)])
  then have "read_collection_meta C (s3_storage c cfg) did (d_database d) (d_collection d) s' = Inr (meta_of_data d)
    \<and> open_document_reader C (s3_storage c cfg) did (d_database d) (d_collection d) s' =
        Inr \<lparr>rd_bytes = blob_of C (d_documents d), rd_end = None\<rparr>"
    by (rule blob_store.collection_parts [OF _ _ _ _ _ assms(2,3,4) _ _ assms(6)])
      (use assms(5) dump_keys_differ in \<open>simp_all add: s3_storage_def\<close>)
  then show ?thesis by (intro read_parts [OF assms(2)]) simp_all
qed

section \<open>An example\<close>

text \<open>A bucket in memory: its objects, and the parts of the uploads in progress.\<close>

type_synonym bucket = "(string \<times> bytes) list \<times> ((string \<times> i32) \<times> bytes) list"

definition mem_bucket :: "bucket s3_client" where
  "mem_bucket =
     \<lparr>c_get = (\<lambda>k s. map_option Inr (kv_get k (fst s))),
      c_put = (\<lambda>k d s. (Inr (), (ix_insert k d (fst s), snd s))),
      c_head = (\<lambda>k s. if kv_get k (fst s) = None then HeadNotFound else HeadOk),
      c_delete = (\<lambda>k s. (Inr (), (filter (\<lambda>p. fst p \<noteq> k) (fst s), snd s))),
      c_list = (\<lambda>p delim s. [Inr
        \<lparr>pg_contents = map (\<lambda>o'. (Some (fst o'), Some (int (length (snd o')))))
           (filter (\<lambda>o'. starts_with (fst o') p) (fst s)), pg_prefixes = []\<rparr>]),
      c_create_upload = (\<lambda>k s. (Inr (Some ''u''), s)),
      c_upload_part = (\<lambda>k uid n d s. (Inr (Some ''t''), (fst s, ix_insert (uid, n) d (snd s)))),
      c_complete_upload = (\<lambda>k uid ps s.
        (Inr (), (ix_insert k (concat (map (\<lambda>(n, t). case kv_get (uid, n) (snd s) of None \<Rightarrow> [] | Some d \<Rightarrow> d) ps))
           (fst s), snd s))),
      c_abort_upload = (\<lambda>k uid s. s)\<rparr>"

definition bucket_objects :: "bucket \<Rightarrow> string \<Rightarrow> bytes option" where
  "bucket_objects s k = kv_get k (fst s)"

definition bucket_uploads :: "bucket \<Rightarrow> string \<Rightarrow> i32 \<Rightarrow> (string \<times> bytes) option" where
  "bucket_uploads s uid n = map_option (Pair ''t'') (kv_get (uid, n) (snd s))"

lemma mem_bucket_service: "s3_service mem_bucket bucket_objects"
proof -
  have del: "(\<lambda>k'. kv_get k' (filter (\<lambda>p. fst p \<noteq> k) m)) = (\<lambda>k'. kv_get k' m)(k := None)"
    for k :: string and m :: "(string \<times> bytes) list"
    by (rule ext, induction m) auto
  have keys: "List.map_filter fst (map (\<lambda>o'. (Some (fst o'), Some (int (length (snd o'))))) xs) = map fst xs"
    for xs :: "(string \<times> bytes) list"
    by (induction xs) (auto simp: map_filter_simps)
  show ?thesis
    by (auto simp: s3_service_def mem_bucket_def bucket_objects_def all_pages_def stored_def ix_get_insert fun_eq_iff
        fun_cong [OF del] keys starts_with_iff kv_get_None image_iff intro: rev_image_eqI)
qed

lemma mem_bucket_uploads: "s3_uploads mem_bucket bucket_objects bucket_uploads"
proof -
  have parts: "list_all2 (\<lambda>(n, tag) d. bucket_uploads s uid n = Some (tag, d)) ps ds \<Longrightarrow>
      map (\<lambda>(n, t). case kv_get (uid, n) (snd s) of None \<Rightarrow> [] | Some d \<Rightarrow> d) ps = ds" for s uid ps ds
    by (induction rule: list_all2_induct) (auto simp: bucket_uploads_def)
  show ?thesis
    unfolding s3_uploads_def
  proof (intro conjI allI impI)
    fix k uid ps ds s s'
    assume "c_complete_upload mem_bucket k uid ps s = (Inr (), s')"
      "list_all2 (\<lambda>(n, tag) d. bucket_uploads s uid n = Some (tag, d)) ps ds"
    with parts show "bucket_objects s' = (bucket_objects s)(k \<mapsto> concat ds)"
      by (auto simp: mem_bucket_def bucket_objects_def ix_get_insert fun_eq_iff)
  qed (auto simp: mem_bucket_def bucket_objects_def bucket_uploads_def ix_get_insert fun_eq_iff)
qed

definition dump_bucket :: s3_config where
  "dump_bucket =
     \<lparr>s3_bucket = ''b'', s3_region = None, s3_endpoint = None, s3_prefix = ''lm/'', s3_access_key_id = None,
      s3_secret_access_key = None, s3_force_path_style = None\<rparr>"

text \<open>The deletion of \<open>d1\<close> takes \<open>d10\<close> with it.\<close>

theorem s3_delete_exact_witness:
  "\<exists>s'. s3_delete mem_bucket dump_bucket ''d1'' ([(''lm/d1/x'', [1]), (''lm/d10/x'', [2]), (''lm/d2/x'', [3])], []) =
       (Inr (), s')
     \<and> bucket_objects s' ''lm/d2/x'' = Some [3] \<and> bucket_objects s' ''lm/d10/x'' = None"
proof -
  let ?s = "([(''lm/d1/x'', [1]), (''lm/d10/x'', [2]), (''lm/d2/x'', [3])], []) :: bucket"
  have "fst (s3_delete mem_bucket dump_bucket ''d1'' ?s) = Inr ()" by code_simp
  then obtain s' where d: "s3_delete mem_bucket dump_bucket ''d1'' ?s = (Inr (), s')"
    by (cases "s3_delete mem_bucket dump_bucket ''d1'' ?s") auto
  have k: "object_key dump_bucket ''d1'' = ''lm/d1''" by code_simp
  have t: "trim_start_slash ''d1'' \<noteq> []" by code_simp
  have "bucket_objects s' ''lm/d2/x'' = bucket_objects ?s ''lm/d2/x''"
    using s3_delete_exact [OF mem_bucket_service d] by (simp add: k)
  moreover have "bucket_objects s' ''lm/d10/x'' = None"
    using s3_delete_exact [OF mem_bucket_service d] t by (simp add: k)
  ultimately show ?thesis using d by (simp add: bucket_objects_def)
qed

interpretation bucket_parts: part_store "s3_part_sink mem_bucket k uid" bucket_objects k
    "\<lambda>s n. bucket_uploads s uid (word_of_nat n)" for k uid
  by (rule s3_part_store [OF mem_bucket_uploads])

theorem s3_upload_is_put_witness:
  "\<exists>u. up_run (s3_part_sink mem_bucket ''k'' ''u'') [[7]] ([], []) u
     \<and> bucket_objects (mu_sink u) = (bucket_objects ([], []))(''k'' \<mapsto> [7])"
proof -
  let ?S = "s3_part_sink mem_bucket ''k'' ''u''"
  have "up_run ?S [[7]] ([], []) (one_write [7] ([(''k'', [7])], [((''u'', 1), [7])]))"
    by (rule one_write_run [where tok = "''t''" and ?s1.0 = "([], [((''u'', 1), [7])])"])
      (simp_all add: s3_part_sink_def mem_bucket_def numbered_def stored_def)
  then show ?thesis
    using s3_upload_is_put [OF mem_bucket_uploads _ one_write_returned] by fastforce
qed

text \<open>A container in memory: its blobs, and the uncommitted blocks.\<close>

type_synonym container = "(string \<times> bytes) list \<times> ((string \<times> string) \<times> bytes) list"

definition mem_container :: "container azure_client" where
  "mem_container =
     \<lparr>a_get = (\<lambda>k s. kv_get k (fst s)), a_put = (\<lambda>k d s. (Inr (), (ix_insert k d (fst s), snd s))),
      a_exists = (\<lambda>k s. Inr (kv_get k (fst s) \<noteq> None)),
      a_delete = (\<lambda>k s. (Inr (), (filter (\<lambda>p. fst p \<noteq> k) (fst s), snd s))),
      a_list = (\<lambda>p s. [Inr (map (\<lambda>o'. (fst o', length (snd o'))) (filter (\<lambda>o'. starts_with (fst o') p) (fst s)))]),
      a_put_block = (\<lambda>k i d s. (Inr (), (fst s, ix_insert (k, i) d (snd s)))),
      a_put_block_list = (\<lambda>k ids s.
        (Inr (), (ix_insert k (concat (map (\<lambda>i. case kv_get (k, i) (snd s) of None \<Rightarrow> [] | Some d \<Rightarrow> d) ids))
           (fst s), snd s)))\<rparr>"

definition container_blobs :: "container \<Rightarrow> string \<Rightarrow> bytes option" where
  "container_blobs s k = kv_get k (fst s)"

definition container_blocks :: "container \<Rightarrow> string \<Rightarrow> string \<Rightarrow> bytes option" where
  "container_blocks s k i = kv_get (k, i) (snd s)"

lemma mem_container_uploads: "azure_uploads mem_container container_blobs container_blocks"
proof -
  have parts: "list_all2 (\<lambda>i d. container_blocks s k i = Some d) ids ds \<Longrightarrow>
      map (\<lambda>i. case kv_get (k, i) (snd s) of None \<Rightarrow> [] | Some d \<Rightarrow> d) ids = ds" for s k ids ds
    by (induction rule: list_all2_induct) (auto simp: container_blocks_def)
  then show ?thesis
    by (auto simp: azure_uploads_def mem_container_def container_blobs_def container_blocks_def ix_get_insert fun_eq_iff)
qed

interpretation container_parts: part_store "azure_part_sink mem_container k" container_blobs k
    "\<lambda>s n. map_option (Pair (block_id n)) (container_blocks s k (block_id n))" for k
  by (rule azure_part_store [OF mem_container_uploads])

theorem azure_upload_is_put_witness:
  "\<exists>u. up_run (azure_part_sink mem_container ''k'') [[7]] ([], []) u
     \<and> container_blobs (mu_sink u) = (container_blobs ([], []))(''k'' \<mapsto> [7])"
proof -
  let ?S = "azure_part_sink mem_container ''k''"
  have "up_run ?S [[7]] ([], []) (one_write [7] ([(''k'', [7])], [((''k'', block_id 1), [7])]))"
    by (rule one_write_run [where tok = "block_id 1" and ?s1.0 = "([], [((''k'', block_id 1), [7])])"])
      (simp_all add: azure_part_sink_def mem_container_def stored_def)
  then show ?thesis
    using azure_upload_is_put [OF mem_container_uploads _ one_write_returned] by fastforce
qed

theorem collection_round_trip_s3_witness:
  "read_collection_full sample_codec (s3_storage mem_bucket dump_bucket) ''x'' ''d'' ''c''
     (snd (write_collection_data sample_codec (s3_storage mem_bucket dump_bucket) ''x'' sample_data False ([], []))) =
   Inr sample_data"
proof -
  let ?S = "s3_storage mem_bucket dump_bucket"
  let ?w = "write_collection_data sample_codec ?S ''x'' sample_data False ([], [])"
  have gone: "s3_exists mem_bucket dump_bucket
      (in_dump ''x'' (data_path (d_database sample_data) (d_collection sample_data) True)) ([], []) = Inr False"
    by (simp add: s3_exists_def mem_bucket_def)
  have "fst ?w = Inr 17" by code_simp
  then have w: "?w = (Inr 17, snd ?w)" by (cases ?w) simp
  show ?thesis
    using collection_round_trip_s3 [OF mem_bucket_service sample_conditions sample_meta gone w]
    by (simp only: sample_names)
qed



end
