(* ===== verification/Driver.thy ===== *)
theory Driver
  imports Mongo "HOL-Library.Multiset"
begin

text \<open>
  The adapter to a real deployment (module \<open>driver\<close> of src/mongo.rs): the read side and the write side
  over a client of the mongodb crate, which is a parameter. A request changes the state of the server or
  reads it; a cursor is what it delivers before it ends, and the error it ends with, if any. What MongoDB
  documents of an insert is the locale \<open>document_server\<close>; from it follows the contract \<open>batch_sink\<close> of a
  restore.
\<close>

section \<open>The client\<close>

record indexed_write_error =
  we_index :: nat
  we_code :: i32
  we_message :: string

text \<open>
  \<open>mongodb::error::ErrorKind\<close>, as far as the source looks at it, and the error with the rendering of
  itself and of its kind.
\<close>

datatype error_kind =
    CommandKind i32
  | WriteErrorKind i32 string
  | InsertManyKind "indexed_write_error list option"
  | OtherKind

record driver_error =
  de_kind :: error_kind
  de_kind_text :: string
  de_text :: string

type_synonym 'a cursor = "'a list \<times> driver_error option"

record index_model =
  im_keys :: document
  im_name :: "string option"
  im_unique :: "bool option"

record 's client =
  cl_list_databases :: "'s \<Rightarrow> driver_error + string list"
  cl_list_collections :: "string \<Rightarrow> 's \<Rightarrow> driver_error + string list"
  cl_run_command :: "string \<Rightarrow> document \<Rightarrow> 's \<Rightarrow> (driver_error + document) \<times> 's"
  cl_list_indexes :: "string \<Rightarrow> string \<Rightarrow> 's \<Rightarrow> driver_error + index_model cursor"
  cl_find :: "string \<Rightarrow> string \<Rightarrow> document \<Rightarrow> document option \<Rightarrow> i64 option \<Rightarrow> 's
                \<Rightarrow> driver_error + document cursor"
  cl_insert_one :: "string \<Rightarrow> string \<Rightarrow> document \<Rightarrow> 's \<Rightarrow> (driver_error + unit) \<times> 's"
  cl_insert_many :: "string \<Rightarrow> string \<Rightarrow> document list \<Rightarrow> bool \<Rightarrow> 's \<Rightarrow> (driver_error + nat) \<times> 's"
  cl_create_index :: "string \<Rightarrow> string \<Rightarrow> index_model \<Rightarrow> 's \<Rightarrow> (driver_error + unit) \<times> 's"
  cl_drop_collection :: "string \<Rightarrow> string \<Rightarrow> 's \<Rightarrow> (driver_error + unit) \<times> 's"
  cl_drop_database :: "string \<Rightarrow> 's \<Rightarrow> (driver_error + unit) \<times> 's"

definition mongo_err :: "string \<Rightarrow> driver_error \<Rightarrow> error" where
  "mongo_err what e = MongoError (what @ de_text e)"

section \<open>Names and versions\<close>

text \<open>The name of the offending index in the message of a duplicate key error.\<close>

definition index_name_from_message :: "string \<Rightarrow> string option" where
  "index_name_from_message message =
     (case split_str ''index:'' 0 message of p # q # ps \<Rightarrow> first_word q | _ \<Rightarrow> None)"

definition parse_server_version :: "string \<Rightarrow> (nat \<times> nat \<times> nat) option" where
  "parse_server_version raw =
     (let core = takeWhile (\<lambda>c. c \<noteq> CHR ''-'' \<and> c \<noteq> CHR ''+'') raw;
          parts = split_on dot core;
          part = (\<lambda>i. if i < length parts then or_else (parse_unsigned 32 (parts ! i)) 0 else 0)
      in case parse_unsigned 32 (hd parts) of
           None \<Rightarrow> None
         | Some major \<Rightarrow> Some (major, part 1, part 2))"

definition default_index_name :: "(string \<times> i32) list \<Rightarrow> string" where
  "default_index_name keys = join_with ''_'' (map (\<lambda>(k, v). k @ ''_'' @ show_int (sint v)) keys)"

section \<open>Connecting\<close>

definition driver_connect :: "string + unit \<Rightarrow> (string \<Rightarrow> string + 's client) \<Rightarrow> string \<Rightarrow> 's client res" where
  "driver_connect runtime open_client uri =
     (case runtime of
        Inl e \<Rightarrow> Inl (MongoError e)
      | Inr u \<Rightarrow>
          (case open_client uri of
             Inl e \<Rightarrow> Inl (MongoError (''connect: '' @ e))
           | Inr c \<Rightarrow> Inr c))"

definition drop_database :: "'s client \<Rightarrow> string \<Rightarrow> 's \<Rightarrow> unit res \<times> 's" where
  "drop_database c db s =
     (case cl_drop_database c db s of
        (Inl e, s') \<Rightarrow> (Inl (mongo_err ''drop database: '' e), s')
      | (Inr u, s') \<Rightarrow> (Inr (), s'))"

text \<open>\<open>dbg\<close> is \<open>Debug for str\<close>.\<close>

definition server_version :: "(string \<Rightarrow> string) \<Rightarrow> 's client \<Rightarrow> 's \<Rightarrow> (nat \<times> nat \<times> nat) res" where
  "server_version dbg c s =
     (case fst (cl_run_command c ''admin'' [(''buildInfo'', BInt32 1)] s) of
        Inl e \<Rightarrow> Inl (mongo_err ''buildInfo: '' e)
      | Inr info \<Rightarrow>
          (case doc_get ''version'' info of
             Some (BString raw) \<Rightarrow>
               ok_or (MongoError (''unparseable server version '' @ dbg raw)) (parse_server_version raw)
           | _ \<Rightarrow> Inl (MongoError ''buildInfo.version: '')))"

section \<open>Reading\<close>

definition driver_databases :: "'s client \<Rightarrow> 's \<Rightarrow> string list res" where
  "driver_databases c s =
     (case cl_list_databases c s of
        Inl e \<Rightarrow> Inl (mongo_err ''listDatabases: '' e)
      | Inr names \<Rightarrow> Inr (filter (\<lambda>d. \<not> List.member [''admin'', ''config'', ''local''] d) names))"

definition driver_collections :: "'s client \<Rightarrow> 's \<Rightarrow> string \<Rightarrow> string list res" where
  "driver_collections c s db =
     (case cl_list_collections c db s of
        Inl e \<Rightarrow> Inl (mongo_err ''listCollections: '' e)
      | Inr names \<Rightarrow> Inr (filter (\<lambda>n. \<not> starts_with n ''system.'') names))"

text \<open>The direction of an index key: an integer, truncated to 32 bits; anything else is 1.\<close>

fun key_direction :: "bson \<Rightarrow> i32" where
  "key_direction (BInt32 i) = i"
| "key_direction (BInt64 n) = ucast n"
| "key_direction _ = 1"

definition index_spec_of :: "index_model \<Rightarrow> index_spec" where
  "index_spec_of model =
     (let keys = map (\<lambda>(k, v). (k, key_direction v)) (im_keys model)
      in \<lparr>ix_name = or_else (im_name model) (default_index_name keys), ix_keys = keys,
          ix_unique = or_else (im_unique model) False\<rparr>)"

definition driver_indexes :: "'s client \<Rightarrow> 's \<Rightarrow> string \<Rightarrow> string \<Rightarrow> index_spec list res" where
  "driver_indexes c s db coll =
     (case cl_list_indexes c db coll s of
        Inl e \<Rightarrow> Inr []
      | Inr (models, None) \<Rightarrow> Inr (map index_spec_of models)
      | Inr (models, Some e) \<Rightarrow> Inl (mongo_err [] e))"

text \<open>The \<open>options\<close> of the first entry of a \<open>listCollections\<close> reply, when they are there.\<close>

definition reply_options :: "document \<Rightarrow> document option" where
  "reply_options reply =
     (case doc_get ''cursor'' reply of
        Some (BDocument cur) \<Rightarrow>
          (case doc_get ''firstBatch'' cur of
             Some (BArray (BDocument first # rest)) \<Rightarrow>
               (case doc_get ''options'' first of Some (BDocument opts) \<Rightarrow> Some opts | _ \<Rightarrow> None)
           | _ \<Rightarrow> None)
      | _ \<Rightarrow> None)"

fun split_options :: "document \<Rightarrow> bson option \<Rightarrow> (string \<times> bson) list \<Rightarrow> bson option \<times> (string \<times> bson) list" where
  "split_options [] v opts = (v, opts)"
| "split_options ((k, x) # d) v opts =
     (if k = ''validator'' then split_options d (Some x) opts else split_options d v (bt_insert k x opts))"

definition read_options :: "'s client \<Rightarrow> 's \<Rightarrow> string \<Rightarrow> string \<Rightarrow> (bson option \<times> (string \<times> bson) list) res" where
  "read_options c s db coll =
     (case fst (cl_run_command c db
              [(''listCollections'', BDouble (f64_of_int 1)), (''filter'', BDocument [(''name'', BString coll)])] s) of
        Inl e \<Rightarrow> Inl (mongo_err ''listCollections: '' e)
      | Inr reply \<Rightarrow>
          Inr (case reply_options reply of None \<Rightarrow> (None, []) | Some opts \<Rightarrow> split_options opts None []))"

definition driver_structure :: "'s client \<Rightarrow> 's \<Rightarrow> string \<Rightarrow> string \<Rightarrow> collection_structure res" where
  "driver_structure c s db coll =
     (case driver_indexes c s db coll of
        Inl e \<Rightarrow> Inl e
      | Inr ixs \<Rightarrow>
          map_sum id (\<lambda>(v, opts). \<lparr>st_indexes = ixs, st_validator = v, st_options = opts\<rparr>)
            (read_options c s db coll))"

definition cursor_stream :: "driver_error + document cursor \<Rightarrow> doc_stream" where
  "cursor_stream r =
     (case r of
        Inl e \<Rightarrow> ([], Some (mongo_err ''find: '' e))
      | Inr (docs, end) \<Rightarrow> (docs, map_option (mongo_err []) end))"

definition driver_stream :: "'s client \<Rightarrow> 's \<Rightarrow> string \<Rightarrow> string \<Rightarrow> document option \<Rightarrow> doc_stream" where
  "driver_stream c s db coll flt = cursor_stream (cl_find c db coll (or_else flt []) None None s)"

definition projection_doc :: "string list \<Rightarrow> document" where
  "projection_doc projection = foldl (\<lambda>d f. doc_insert f (BInt32 1) d) [] projection"

definition driver_projected ::
    "'s client \<Rightarrow> 's \<Rightarrow> string \<Rightarrow> string \<Rightarrow> document option \<Rightarrow> string list \<Rightarrow> doc_stream" where
  "driver_projected c s db coll flt projection =
     (if projection = [] then driver_stream c s db coll flt
      else cursor_stream (cl_find c db coll (or_else flt []) (Some (projection_doc projection)) None s))"

text \<open>Collecting a stream: the closure pushes each document to a vector.\<close>

definition collect_stream :: "doc_stream \<Rightarrow> document list res" where
  "collect_stream str = stream_each (\<lambda>d acc. Inr (acc @ [d])) str []"

definition driver_read_filtered ::
    "'s client \<Rightarrow> 's \<Rightarrow> string \<Rightarrow> string \<Rightarrow> document option \<Rightarrow> collection_data res" where
  "driver_read_filtered c s db coll flt =
     (case driver_structure c s db coll of
        Inl e \<Rightarrow> Inl e
      | Inr st \<Rightarrow>
          map_sum id
            (\<lambda>docs. \<lparr>d_database = db, d_collection = coll, d_documents = docs, d_indexes = st_indexes st,
                      d_validator = st_validator st, d_options = st_options st\<rparr>)
            (collect_stream (driver_stream c s db coll flt)))"

text \<open>\<open>limit as i64\<close>.\<close>

definition driver_sample :: "'s client \<Rightarrow> 's \<Rightarrow> string \<Rightarrow> string \<Rightarrow> nat \<Rightarrow> document list res" where
  "driver_sample c s db coll limit =
     collect_stream (cursor_stream (cl_find c db coll [] None (Some (of_nat limit)) s))"

definition driver_source :: "'s client \<Rightarrow> 's \<Rightarrow> mongo_source" where
  "driver_source c s =
     \<lparr>ms_databases = driver_databases c s, ms_collections = driver_collections c s,
      ms_read = (\<lambda>db coll. driver_read_filtered c s db coll None),
      ms_structure = driver_structure c s, ms_stream = driver_stream c s,
      ms_projected = driver_projected c s, ms_sample = driver_sample c s\<rparr>"

section \<open>Writing\<close>

definition error_code :: "driver_error \<Rightarrow> i32 option" where
  "error_code e =
     (case de_kind e of CommandKind code \<Rightarrow> Some code | WriteErrorKind code msg \<Rightarrow> Some code | _ \<Rightarrow> None)"

definition map_insert_error :: "driver_error \<Rightarrow> insert_error" where
  "map_insert_error e =
     (case de_kind e of
        WriteErrorKind code msg \<Rightarrow> \<lparr>ie_code = Some code, ie_index = index_name_from_message msg\<rparr>
      | _ \<Rightarrow> \<lparr>ie_code = None, ie_index = index_name_from_message (de_kind_text e)\<rparr>)"

text \<open>A request whose error with the code \<open>tolerated\<close> counts as success.\<close>

definition accept_code :: "i32 \<Rightarrow> string \<Rightarrow> (driver_error + 'a) \<times> 's \<Rightarrow> unit res \<times> 's" where
  "accept_code tolerated what r =
     (case r of
        (Inr x, s') \<Rightarrow> (Inr (), s')
      | (Inl e, s') \<Rightarrow> (if error_code e = Some tolerated then Inr () else Inl (mongo_err what e), s'))"

definition create_command :: "string \<Rightarrow> bson option \<Rightarrow> (string \<times> bson) list \<Rightarrow> document" where
  "create_command coll v opts =
     foldl (\<lambda>d p. doc_insert (fst p) (snd p) d)
       (case v of
          None \<Rightarrow> [(''create'', BString coll)]
        | Some x \<Rightarrow> doc_insert ''validator'' x [(''create'', BString coll)]) opts"

definition driver_ensure ::
    "'s client \<Rightarrow> string \<Rightarrow> string \<Rightarrow> bson option \<Rightarrow> (string \<times> bson) list \<Rightarrow> 's \<Rightarrow> unit res \<times> 's" where
  "driver_ensure c db coll v opts s =
     accept_code 48 ''create collection: '' (cl_run_command c db (create_command coll v opts) s)"

definition driver_insert ::
    "'s client \<Rightarrow> string \<Rightarrow> string \<Rightarrow> document \<Rightarrow> 's \<Rightarrow> (insert_error + unit) \<times> 's" where
  "driver_insert c db coll d s =
     (case cl_insert_one c db coll d s of
        (Inr u, s') \<Rightarrow> (Inr (), s')
      | (Inl e, s') \<Rightarrow> (Inl (map_insert_error e), s'))"

definition write_failure :: "indexed_write_error \<Rightarrow> nat \<times> insert_error" where
  "write_failure we =
     (we_index we, \<lparr>ie_code = Some (we_code we), ie_index = index_name_from_message (we_message we)\<rparr>)"

text \<open>The subtraction is on \<open>usize\<close>, which wraps around in a release build.\<close>

definition batch_of_errors :: "nat \<Rightarrow> bool \<Rightarrow> indexed_write_error list \<Rightarrow> batch_insert" where
  "batch_of_errors n ordered wes =
     (let failures = map write_failure wes
      in \<lparr>bi_inserted =
            (if ordered then (case failures of [] \<Rightarrow> 0 | f # fs \<Rightarrow> fst f)
             else if length failures \<le> n then n - length failures
             else 2 ^ 64 - (length failures - n)),
          bi_failures = failures\<rparr>)"

definition driver_insert_many ::
    "'s client \<Rightarrow> string \<Rightarrow> string \<Rightarrow> document list \<Rightarrow> bool \<Rightarrow> 's \<Rightarrow> batch_insert res \<times> 's" where
  "driver_insert_many c db coll docs ordered s =
     (if docs = [] then (Inr empty_batch, s)
      else (case cl_insert_many c db coll docs ordered s of
              (Inr n, s') \<Rightarrow> (Inr \<lparr>bi_inserted = n, bi_failures = []\<rparr>, s')
            | (Inl e, s') \<Rightarrow>
                (case de_kind e of
                   InsertManyKind (Some wes) \<Rightarrow> (Inr (batch_of_errors (length docs) ordered wes), s')
                 | _ \<Rightarrow> (Inl (mongo_err ''insert_many: '' e), s'))))"

definition model_of_spec :: "index_spec \<Rightarrow> index_model" where
  "model_of_spec ix =
     \<lparr>im_keys = foldl (\<lambda>d p. doc_insert (fst p) (BInt32 (snd p)) d) [] (ix_keys ix),
      im_name = Some (ix_name ix), im_unique = Some (ix_unique ix)\<rparr>"

definition driver_create_index ::
    "'s client \<Rightarrow> string \<Rightarrow> string \<Rightarrow> index_spec \<Rightarrow> 's \<Rightarrow> unit res \<times> 's" where
  "driver_create_index c db coll ix s =
     (case cl_create_index c db coll (model_of_spec ix) s of
        (Inr u, s') \<Rightarrow> (Inr (), s')
      | (Inl e, s') \<Rightarrow> (Inl (mongo_err ''create index: '' e), s'))"

definition driver_drop :: "'s client \<Rightarrow> string \<Rightarrow> string \<Rightarrow> 's \<Rightarrow> unit res \<times> 's" where
  "driver_drop c db coll s = accept_code 26 ''drop collection: '' (cl_drop_collection c db coll s)"

definition driver_sink :: "'s client \<Rightarrow> 's mongo_sink" where
  "driver_sink c =
     \<lparr>sk_ensure = driver_ensure c, sk_insert = driver_insert c, sk_insert_many = driver_insert_many c,
      sk_create_index = driver_create_index c, sk_drop = driver_drop c\<rparr>"

section \<open>The contract of a deployment\<close>

text \<open>
  What MongoDB documents of an insert of several documents: without an error every document is stored;
  write errors name distinct documents of the batch, with \<open>ordered\<close> the first one that fails ends the
  batch, and without it every document is attempted. \<open>held\<close> is what a collection contains.
\<close>

definition stored_of :: "document list \<Rightarrow> bool \<Rightarrow> nat list \<Rightarrow> document list" where
  "stored_of docs ord failed =
     (if failed = [] then docs else if ord then take (hd failed) docs else nths docs (- set failed))"

locale document_server =
  fixes c :: "'s client" and held :: "string \<Rightarrow> string \<Rightarrow> 's \<Rightarrow> document list"
  assumes all_stored: "docs \<noteq> [] \<Longrightarrow> cl_insert_many c db coll docs ord s = (Inr n, s') \<Longrightarrow>
      n = length docs \<and> mset (held db coll s') = mset (held db coll s) + mset docs"
    and errors_indexed: "docs \<noteq> [] \<Longrightarrow> cl_insert_many c db coll docs ord s = (Inl e, s') \<Longrightarrow>
      de_kind e = InsertManyKind (Some wes) \<Longrightarrow>
      wes \<noteq> [] \<and> distinct (map we_index wes) \<and> (\<forall>w \<in> set wes. we_index w < length docs)
      \<and> (ord \<longrightarrow> length wes = 1)
      \<and> mset (held db coll s') = mset (held db coll s) + mset (stored_of docs ord (map we_index wes))"
begin

lemma insert_many_cases:
  assumes "driver_insert_many c db coll docs ord s = (Inr b, s')"
  obtains (empty) "docs = []" "b = empty_batch" "s' = s"
  | (stored) "docs \<noteq> []" "b = \<lparr>bi_inserted = length docs, bi_failures = []\<rparr>"
      "mset (held db coll s') = mset (held db coll s) + mset docs"
  | (errors) wes where "docs \<noteq> []" "b = batch_of_errors (length docs) ord wes" "wes \<noteq> []"
      "distinct (map we_index wes)" "\<forall>w \<in> set wes. we_index w < length docs" "ord \<longrightarrow> length wes = 1"
      "mset (held db coll s') = mset (held db coll s) + mset (stored_of docs ord (map we_index wes))"
proof (cases "docs = []")
  case True
  with assms show thesis by (intro empty) (auto simp: driver_insert_many_def)
next
  case False
  obtain r s1 where r: "cl_insert_many c db coll docs ord s = (r, s1)" by (cases "cl_insert_many c db coll docs ord s")
  show thesis
  proof (cases r)
    case (Inr n)
    with r False assms all_stored [OF False, of db coll ord s n s1] show thesis
      by (intro stored) (auto simp: driver_insert_many_def)
  next
    case (Inl e)
    with r False assms obtain wes where "de_kind e = InsertManyKind (Some wes)" "s1 = s'"
        "b = batch_of_errors (length docs) ord wes"
      by (auto simp: driver_insert_many_def split: error_kind.splits option.splits)
    with errors_indexed [OF False, of db coll ord s e s1 wes] r Inl False show thesis
      by (intro errors [of wes]) auto
  qed
qed

end

lemma few_failures:
  assumes "distinct xs" "\<forall>x \<in> set xs. x < n"
  shows "length xs \<le> n"
  using card_mono [of "{..< n}" "set xs"] assms by (auto simp: distinct_card)

lemma length_stored:
  assumes "distinct xs" "\<forall>x \<in> set xs. x < length docs" "xs \<noteq> []"
  shows "length (stored_of docs ord xs) = (if ord then hd xs else length docs - length xs)"
proof (cases ord)
  case True
  with assms show ?thesis by (cases xs) (auto simp: stored_of_def)
next
  case False
  have "{i. i < length docs \<and> i \<in> - set xs} = {..< length docs} - set xs" by auto
  moreover have "card ({..< length docs} - set xs) = length docs - length xs"
    using assms by (subst card_Diff_subset) (auto simp: distinct_card)
  ultimately show ?thesis using False assms(3) by (simp add: stored_of_def length_nths)
qed

lemma batch_of_errors_simps:
  "bi_failures (batch_of_errors n ord wes) = map write_failure wes"
  "map fst (map write_failure wes) = map we_index wes"
  "bi_inserted (batch_of_errors n True wes) = (case wes of [] \<Rightarrow> 0 | w # ws \<Rightarrow> we_index w)"
  "length wes \<le> n \<Longrightarrow> bi_inserted (batch_of_errors n False wes) = n - length wes"
  by (auto simp: batch_of_errors_def write_failure_def Let_def split: list.splits)

lemma write_failure_index [simp]: "fst \<circ> write_failure = we_index" "fst (write_failure w) = we_index w"
  by (auto simp: write_failure_def)

context document_server begin

lemma few_errors:
  "distinct (map we_index wes) \<Longrightarrow> \<forall>w \<in> set wes. we_index w < n \<Longrightarrow> length wes \<le> n"
  using few_failures [of "map we_index wes" n] by auto

text \<open>The reported numbers are those of the stored documents.\<close>

lemma insert_many_stored:
  assumes "driver_insert_many c db coll docs ord s = (Inr b, s')"
  shows "mset (held db coll s') = mset (held db coll s) + mset (stored_of docs ord (map fst (bi_failures b)))
    \<and> length (stored_of docs ord (map fst (bi_failures b))) = bi_inserted b"
  using assms
proof (cases rule: insert_many_cases)
  case empty
  then show ?thesis by (simp add: stored_of_def empty_batch_def)
next
  case stored
  then show ?thesis by (simp add: stored_of_def)
next
  case (errors wes)
  have "length (stored_of docs ord (map we_index wes)) = bi_inserted b"
  proof (cases ord)
    case True
    with errors show ?thesis
      by (cases wes) (auto simp: length_stored batch_of_errors_simps)
  next
    case False
    with errors few_errors [of wes "length docs"] show ?thesis
      by (auto simp: length_stored batch_of_errors_simps)
  qed
  with errors show ?thesis by (simp add: batch_of_errors_simps)
qed

end

sublocale document_server \<subseteq> many: batch_sink "sk_insert_many (driver_sink c) db coll" for db coll
proof unfold_locales
  fix docs ord s b s'
  assume "sk_insert_many (driver_sink c) db coll docs ord s = (Inr b, s')"
  then have i: "driver_insert_many c db coll docs ord s = (Inr b, s')" by (simp add: driver_sink_def)
  show "bi_inserted b + length (bi_failures b) \<le> length docs"
    using i
  proof (cases rule: insert_many_cases)
    case (errors wes)
    with few_errors [of wes "length docs"] show ?thesis
      by (cases ord; cases wes) (auto simp: batch_of_errors_simps)
  qed (auto simp: empty_batch_def)
  fix k e
  assume "(k, e) \<in> set (bi_failures b)"
  with i show "k < length docs"
    by (cases rule: insert_many_cases) (auto simp: empty_batch_def batch_of_errors_simps write_failure_def)
next
  fix docs s b s'
  assume "sk_insert_many (driver_sink c) db coll docs False s = (Inr b, s')"
  then have i: "driver_insert_many c db coll docs False s = (Inr b, s')" by (simp add: driver_sink_def)
  then show "bi_inserted b + length (bi_failures b) = length docs"
  proof (cases rule: insert_many_cases)
    case (errors wes)
    with few_errors [of wes "length docs"] show ?thesis by (auto simp: batch_of_errors_simps)
  qed (auto simp: empty_batch_def)
next
  fix docs s b s'
  assume "sk_insert_many (driver_sink c) db coll docs True s = (Inr b, s')"
  then have i: "driver_insert_many c db coll docs True s = (Inr b, s')" by (simp add: driver_sink_def)
  then show "bi_failures b = [] \<and> bi_inserted b = length docs
      \<or> (\<exists>k e. bi_failures b = [(k, e)] \<and> bi_inserted b = k \<and> k < length docs)"
    by (cases rule: insert_many_cases)
       (auto simp: empty_batch_def batch_of_errors_simps length_Suc_conv write_failure_def)
qed

section \<open>A deployment in memory as a client\<close>

text \<open>
  A client whose server is the in-memory deployment: requests answer with the codes MongoDB documents,
  48 for a collection that exists, 26 for one that does not, 11000 for a duplicate identifier.
\<close>

definition server_error :: "error_kind \<Rightarrow> driver_error" where
  "server_error k = \<lparr>de_kind = k, de_kind_text = ''rejected'', de_text = ''rejected''\<rparr>"

definition duplicate_message :: "string \<Rightarrow> string" where
  "duplicate_message name = ''E11000 duplicate key error index: '' @ name @ '' dup key''"

definition rejection :: "nat \<times> insert_error \<Rightarrow> indexed_write_error" where
  "rejection f = \<lparr>we_index = fst f, we_code = or_else (ie_code (snd f)) 0,
                  we_message = duplicate_message (or_else (ie_index (snd f)) [])\<rparr>"

definition listing_reply :: "collection_data option \<Rightarrow> document" where
  "listing_reply entry =
     [(''cursor'', BDocument [(''firstBatch'', BArray (case entry of
         None \<Rightarrow> []
       | Some cd \<Rightarrow> [BDocument [(''name'', BString (d_collection cd)), (''options'',
           BDocument ((case d_validator cd of None \<Rightarrow> [] | Some v \<Rightarrow> [(''validator'', v)]) @ d_options cd))]]))])]"

definition mem_command :: "string \<Rightarrow> document \<Rightarrow> mem \<Rightarrow> (driver_error + document) \<times> mem" where
  "mem_command db cmd m =
     (case cmd of
        (k, BString coll) # args \<Rightarrow>
          if k = ''create'' then
            (case kv_get (db, coll) m of
               Some cd \<Rightarrow> (Inl (server_error (CommandKind 48)), m)
             | None \<Rightarrow> (Inr [], snd (mem_ensure db coll (kv_get ''validator'' args)
                 (foldl (\<lambda>o' p. bt_insert (fst p) (snd p) o') [] (filter (\<lambda>p. fst p \<noteq> ''validator'') args)) m)))
          else (Inl (server_error (CommandKind 59)), m)
      | (k, v) # args \<Rightarrow>
          if k = ''listCollections'' then
            (case kv_get ''filter'' args of
               Some (BDocument [(n, BString coll)]) \<Rightarrow> (Inr (listing_reply (kv_get (db, coll) m)), m)
             | _ \<Rightarrow> (Inl (server_error (CommandKind 59)), m))
          else (Inl (server_error (CommandKind 59)), m)
      | [] \<Rightarrow> (Inl (server_error (CommandKind 59)), m))"

definition mem_client :: "mem client" where
  "mem_client =
     \<lparr>cl_list_databases = (\<lambda>m. Inr (mem_databases m)),
      cl_list_collections = (\<lambda>db m. Inr (mem_collections db m)),
      cl_run_command = mem_command,
      cl_list_indexes = (\<lambda>db coll m. case kv_get (db, coll) m of
          None \<Rightarrow> Inl (server_error (CommandKind 26))
        | Some cd \<Rightarrow> Inr (map model_of_spec (d_indexes cd), None)),
      cl_find = (\<lambda>db coll flt pr lim m.
          let found = filter (\<lambda>d. matches_filter d flt) (mem_documents db coll m);
              some = (case lim of None \<Rightarrow> found | Some n \<Rightarrow> if n = 0 then found else take (unat n) found);
              shown = (case pr of None \<Rightarrow> some
                | Some p \<Rightarrow> map (filter (\<lambda>f. fst f = ''_id'' \<or> kv_get (fst f) p \<noteq> None)) some)
          in Inr (shown, None)),
      cl_insert_one = (\<lambda>db coll d m. case mem_insert db coll d m of
          (Inr u, m') \<Rightarrow> (Inr (), m')
        | (Inl e, m') \<Rightarrow> (Inl (server_error (WriteErrorKind (or_else (ie_code e) 0)
            (duplicate_message (or_else (ie_index e) [])))), m')),
      cl_insert_many = (\<lambda>db coll docs ord m. case insert_loop (mem_insert db coll) docs 0 ord empty_batch m of
          (b, m') \<Rightarrow> (if bi_failures b = [] then Inr (bi_inserted b)
            else Inl (server_error (InsertManyKind (Some (map rejection (bi_failures b))))), m')),
      cl_create_index = (\<lambda>db coll ix m. (Inr (), snd (mem_create_index db coll (index_spec_of ix) m))),
      cl_drop_collection = (\<lambda>db coll m. case kv_get (db, coll) m of
          None \<Rightarrow> (Inl (server_error (CommandKind 26)), m)
        | Some cd \<Rightarrow> (Inr (), snd (mem_drop db coll m))),
      cl_drop_database = (\<lambda>db m. (Inr (), filter (\<lambda>p. fst (fst p) \<noteq> db) m))\<rparr>"

text \<open>Which documents the loop of single inserts leaves in the collection.\<close>

lemma insert_loop_stored:
  assumes "insert_loop (mem_insert db coll) docs i ord out m = (b, m')"
  shows "\<exists>new. bi_failures b = bi_failures out @ new
    \<and> mem_documents db coll m' = mem_documents db coll m @
        (if ord \<and> new \<noteq> [] then take (fst (hd new) - i) docs else nths docs {j. i + j \<notin> fst ` set new})
    \<and> (\<forall>k \<in> fst ` set new. i \<le> k)"
  using assms
proof (induction docs arbitrary: i out m)
  case (Cons d ds)
  obtain r m1 where r: "mem_insert db coll d m = (r, m1)" by (cases "mem_insert db coll d m")
  note docs1 = mem_insert_documents [OF r, of db coll]
  have shift: "nths ds {j. Suc j \<in> {j. i + j \<notin> K}} = nths ds {j. Suc i + j \<notin> K}" for K
    by simp
  show ?case
  proof (cases r)
    case (Inr u)
    then have "insert_loop (mem_insert db coll) ds (Suc i) ord (out\<lparr>bi_inserted := bi_inserted out + 1\<rparr>) m1 = (b, m')"
      using Cons.prems r by simp
    from Cons.IH [OF this] obtain new where new: "bi_failures b = bi_failures out @ new"
        "mem_documents db coll m' = mem_documents db coll m1 @
          (if ord \<and> new \<noteq> [] then take (fst (hd new) - Suc i) ds else nths ds {j. Suc i + j \<notin> fst ` set new})"
        "\<forall>k \<in> fst ` set new. Suc i \<le> k"
      by auto
    have "i \<notin> fst ` set new" using new(3) by auto
    moreover have "ord \<Longrightarrow> new \<noteq> [] \<Longrightarrow> take (fst (hd new) - i) (d # ds) = d # take (fst (hd new) - Suc i) ds"
      using new(3) by (cases new) (auto simp: take_Cons' Suc_diff_le)
    ultimately show ?thesis
      using new docs1 Inr by (intro exI [of _ new]) (auto simp: nths_Cons)
  next
    case (Inl e)
    show ?thesis
    proof (cases ord)
      case True
      with Inl Cons.prems r have "b = out\<lparr>bi_failures := bi_failures out @ [(i, e)]\<rparr>" "m' = m1"
        by (simp_all add: Let_def)
      then show ?thesis using True docs1 Inl by (intro exI [of _ "[(i, e)]"]) simp
    next
      case False
      with Inl Cons.prems r have
        "insert_loop (mem_insert db coll) ds (Suc i) ord (out\<lparr>bi_failures := bi_failures out @ [(i, e)]\<rparr>) m1 = (b, m')"
        by (simp add: Let_def)
      from Cons.IH [OF this] False obtain new where new: "bi_failures b = bi_failures out @ (i, e) # new"
          "mem_documents db coll m' = mem_documents db coll m1 @ nths ds {j. Suc i + j \<notin> fst ` set new}"
          "\<forall>k \<in> fst ` set new. Suc i \<le> k"
        by auto
      have "{j. Suc j \<in> {j. i + j \<noteq> i \<and> i + j \<notin> fst ` set new}} = {j. Suc i + j \<notin> fst ` set new}" by auto
      then show ?thesis
        using new docs1 Inl False by (intro exI [of _ "(i, e) # new"]) (auto simp: nths_Cons)
    qed
  qed
qed (auto intro: exI [of _ "[]"])

lemma rejection_index [simp]: "we_index \<circ> rejection = fst" "we_index (rejection f) = fst f"
  by (auto simp: rejection_def)

interpretation mem_server: document_server mem_client mem_documents
proof unfold_locales
  fix docs :: "document list" and db coll ord s n s'
  assume "docs \<noteq> []" "cl_insert_many mem_client db coll docs ord s = (Inr n, s')"
  then obtain b where l: "insert_loop (mem_insert db coll) docs 0 ord empty_batch s = (b, s')"
      and none: "bi_failures b = []" "n = bi_inserted b"
    by (auto simp: mem_client_def split: prod.splits if_splits)
  have "bi_inserted b = length docs"
    using none insert_loop_counts [OF l] insert_loop_ordered [of "mem_insert db coll" docs 0 empty_batch s b s'] l
    by (cases ord) (auto simp: empty_batch_def)
  moreover obtain new where "bi_failures b = bi_failures empty_batch @ new"
      "mem_documents db coll s' = mem_documents db coll s @
        (if ord \<and> new \<noteq> [] then take (fst (hd new) - 0) docs else nths docs {j. 0 + j \<notin> fst ` set new})"
    using insert_loop_stored [OF l] by auto
  ultimately show "n = length docs \<and> mset (mem_documents db coll s') = mset (mem_documents db coll s) + mset docs"
    using none by (simp add: empty_batch_def nths_all)
next
  fix docs :: "document list" and db coll ord s e s' wes
  assume a: "docs \<noteq> []" "cl_insert_many mem_client db coll docs ord s = (Inl e, s')"
    "de_kind e = InsertManyKind (Some wes)"
  then obtain b where l: "insert_loop (mem_insert db coll) docs 0 ord empty_batch s = (b, s')"
      and some: "bi_failures b \<noteq> []" "wes = map rejection (bi_failures b)"
    by (auto simp: mem_client_def server_error_def split: prod.splits if_splits)
  have idx: "sorted_wrt (<) (map fst (bi_failures b))" "\<forall>j \<in> fst ` set (bi_failures b). j < length docs"
      "ord \<longrightarrow> length (bi_failures b) \<le> 1"
    using insert_loop_indices [OF l] by (auto simp: empty_batch_def)
  obtain new where "bi_failures b = bi_failures empty_batch @ new"
      and docs: "mem_documents db coll s' = mem_documents db coll s @
        (if ord \<and> new \<noteq> [] then take (fst (hd new) - 0) docs else nths docs {j. 0 + j \<notin> fst ` set new})"
    using insert_loop_stored [OF l] by auto
  then have "new = bi_failures b" by (simp add: empty_batch_def)
  moreover have "- fst ` set (bi_failures b) = {j. j \<notin> fst ` set (bi_failures b)}" by auto
  ultimately have "mem_documents db coll s' = mem_documents db coll s @ stored_of docs ord (map we_index wes)"
    using docs some by (simp add: stored_of_def hd_map)
  moreover have "distinct (map we_index wes)" using idx(1) some by (simp add: strict_sorted_iff)
  moreover have "length wes = 1" if ord
    using idx(3) that some by (cases "bi_failures b") auto
  ultimately show "wes \<noteq> [] \<and> distinct (map we_index wes) \<and> (\<forall>w \<in> set wes. we_index w < length docs)
      \<and> (ord \<longrightarrow> length wes = 1)
      \<and> mset (mem_documents db coll s') =
          mset (mem_documents db coll s) + mset (stored_of docs ord (map we_index wes))"
    using idx(2) some by (auto simp: rejection_def)
qed

section \<open>The adapter over a deployment in memory\<close>

lemma duplicate_message_name: "index_name_from_message (duplicate_message ''_id_'') = Some ''_id_''"
  by code_simp

lemma mem_insert_error: "mem_insert db coll d m = (Inl e, m') \<Longrightarrow> e = duplicate_key ''_id_''"
  by (auto simp: mem_insert_def Let_def split: if_splits)

lemma insert_loop_duplicates:
  assumes "insert_loop (mem_insert db coll) docs i ord out m = (b, m')"
    and "\<forall>f \<in> set (bi_failures out). snd f = duplicate_key ''_id_''"
  shows "\<forall>f \<in> set (bi_failures b). snd f = duplicate_key ''_id_''"
  using assms
proof (induction docs arbitrary: i out m)
  case (Cons d ds)
  obtain r m1 where r: "mem_insert db coll d m = (r, m1)" by (cases "mem_insert db coll d m")
  show ?case
  proof (cases r)
    case (Inl e)
    then have e: "e = duplicate_key ''_id_''" using mem_insert_error r by blast
    let ?out = "out\<lparr>bi_failures := bi_failures out @ [(i, e)]\<rparr>"
    have out: "\<forall>f \<in> set (bi_failures ?out). snd f = duplicate_key ''_id_''" using Cons.prems(2) e by simp
    show ?thesis
    proof (cases ord)
      case True
      with Cons.prems(1) r Inl have "b = ?out" by (simp add: Let_def)
      with out show ?thesis by blast
    next
      case False
      with Cons.prems(1) r Inl have "insert_loop (mem_insert db coll) ds (Suc i) ord ?out m1 = (b, m')"
        by (simp add: Let_def)
      then show ?thesis using out by (rule Cons.IH)
    qed
  next
    case (Inr u)
    with Cons.prems(1) r have
      "insert_loop (mem_insert db coll) ds (Suc i) ord (out\<lparr>bi_inserted := bi_inserted out + 1\<rparr>) m1 = (b, m')"
      by simp
    from Cons.IH [OF this] Cons.prems(2) show ?thesis by simp
  qed
qed simp

lemma write_failure_rejection:
  "\<forall>f \<in> set fs. snd f = duplicate_key ''_id_'' \<Longrightarrow> map write_failure (map rejection fs) = fs"
  by (induction fs) (auto simp: write_failure_def rejection_def duplicate_key_def duplicate_message_name)

text \<open>With identical books the two ways of inserting a batch are the same function.\<close>

lemma driver_insert_many_mem:
  "driver_insert_many mem_client db coll docs ord m = insert_many_default mem_insert db coll docs ord m"
proof (cases "docs = []")
  case True
  then show ?thesis by (simp add: driver_insert_many_def insert_many_default_def)
next
  case False
  obtain b m' where l: "insert_loop (mem_insert db coll) docs 0 ord empty_batch m = (b, m')"
    by (cases "insert_loop (mem_insert db coll) docs 0 ord empty_batch m")
  have dup: "\<forall>f \<in> set (bi_failures b). snd f = duplicate_key ''_id_''"
    using insert_loop_duplicates [OF l] by (simp add: empty_batch_def)
  have count: "bi_failures b \<noteq> [] \<Longrightarrow> bi_inserted (batch_of_errors (length docs) ord (map rejection (bi_failures b))) = bi_inserted b"
    using insert_loop_counts [OF l] insert_loop_ordered [of "mem_insert db coll" docs 0 empty_batch m b m'] l
    by (cases ord) (auto simp: batch_of_errors_simps empty_batch_def)
  have "bi_failures b \<noteq> [] \<Longrightarrow> batch_of_errors (length docs) ord (map rejection (bi_failures b)) = b"
    using count write_failure_rejection [OF dup] by (simp add: batch_of_errors_simps)
  moreover have "bi_failures b = [] \<Longrightarrow> \<lparr>bi_inserted = bi_inserted b, bi_failures = []\<rparr> = b"
    by (cases b) simp
  ultimately show ?thesis
    using l False by (auto simp: driver_insert_many_def insert_many_default_def mem_client_def server_error_def)
qed

lemma driver_insert_mem: "driver_insert mem_client db coll d m = mem_insert db coll d m"
  by (auto simp: driver_insert_def mem_client_def map_insert_error_def server_error_def duplicate_key_def
      duplicate_message_name split: prod.splits sum.splits dest!: mem_insert_error)

lemma each_doc_push: "each_doc (\<lambda>d acc. Inr (acc @ [d])) ds acc = Inr (acc @ ds)"
  by (induction ds arbitrary: acc) auto

lemma collect_stream_eq:
  "collect_stream (ds, None) = Inr ds" "collect_stream (ds, Some e) = Inl e"
  by (simp_all add: collect_stream_def stream_each_def each_doc_push)

lemma matches_all: "matches_filter d []"
  by (simp add: matches_filter_def)

section \<open>Structure that is not dumped\<close>

text \<open>A deployment that refuses to list the indexes of a collection yields a structure without any.\<close>

lemma index_listing_failure_ignored:
  "cl_list_indexes c db coll s = Inl e \<Longrightarrow> driver_structure c s db coll = Inr st \<Longrightarrow> st_indexes st = []"
  by (cases "read_options c s db coll") (auto simp: driver_structure_def driver_indexes_def)

text \<open>The kind of a special index and the sign of a direction stored as a double are lost.\<close>

lemma index_kind_lost:
  "ix_keys (index_spec_of \<lparr>im_keys = [(''bio'', BString ''text''), (''at'', BDouble (f64_of_int (-1)))],
     im_name = None, im_unique = None\<rparr>) = [(''bio'', 1), (''at'', 1)]"
  by (simp add: index_spec_of_def Let_def)

text \<open>A limit of 0 is handed on, and MongoDB documents it as no limit; the default method takes nothing.\<close>

lemma sample_zero_differs:
  "driver_sample mem_client [((''d'', ''c''), (empty_collection ''d'' ''c'')\<lparr>d_documents := [[]]\<rparr>)] ''d'' ''c'' 0 = Inr [[]]"
  "ms_sample (mem_source [((''d'', ''c''), (empty_collection ''d'' ''c'')\<lparr>d_documents := [[]]\<rparr>)]) ''d'' ''c'' 0 = Inr []"
  by (code_simp, code_simp)

section \<open>Versions and names\<close>

lemma parse_server_version_examples:
  "parse_server_version ''7.0.14'' = Some (7, 0, 14)" "parse_server_version ''8.0.0-rc1'' = Some (8, 0, 0)"
  "parse_server_version ''6.0'' = Some (6, 0, 0)" "parse_server_version ''not-a-version'' = None"
  by code_simp+

end
