(* ===== verification/Deployment.thy ===== *)
theory Deployment
  imports RoundTrip Driver
begin

text \<open>
  A restore through the adapter of src/mongo.rs into a deployment that behaves as MongoDB documents
  (locale \<open>restore_server\<close>): what a restored collection holds afterwards.
\<close>

section \<open>The deployment\<close>

text \<open>
  Besides the inserts: creating a collection or an index changes no document, and a collection that was
  dropped, or was not there, is empty.
\<close>

locale restore_server = document_server +
  assumes create_keeps: "cl_run_command c db (create_command coll v opts) s = (r, s') \<Longrightarrow>
      held db coll s' = held db coll s"
    and index_keeps: "cl_create_index c db coll ix s = (r2, s') \<Longrightarrow> held db coll s' = held db coll s"
    and drop_empties: "cl_drop_collection c db coll s = (r2, s') \<Longrightarrow>
      (case r2 of Inr u \<Rightarrow> True | Inl e \<Rightarrow> error_code e = Some 26) \<Longrightarrow> held db coll s' = []"

lemma mset_nths_sub: "mset (nths xs A) \<subseteq># mset xs"
proof (induction xs arbitrary: A)
  case (Cons x xs)
  have "mset xs \<subseteq># add_mset x (mset xs)" by simp
  with Cons [of "{j. Suc j \<in> A}"] show ?case by (auto simp: nths_Cons intro: subset_mset.order_trans)
qed simp

lemma mset_take_sub: "mset (take n xs) \<subseteq># mset xs"
  by (metis append_take_drop_id mset_append mset_subset_eq_add_left)

lemma stored_of_sub: "mset (stored_of docs ord failed) \<subseteq># mset docs"
  by (simp add: stored_of_def mset_nths_sub mset_take_sub)

lemma take_drop_sub:
  assumes "A \<subseteq># mset (take n xs)" "B \<subseteq># mset (drop (Suc n) xs)"
  shows "A + B \<subseteq># mset xs"
proof -
  have "mset (drop (Suc n) xs) \<subseteq># mset (drop n xs)"
    by (metis drop_drop mset_append mset_subset_eq_add_right append_take_drop_id plus_1_eq_Suc)
  with assms(2) have "B \<subseteq># mset (drop n xs)" by (rule subset_mset.order_trans)
  with assms(1) have "A + B \<subseteq># mset (take n xs) + mset (drop n xs)" by (rule subset_mset.add_mono)
  then show ?thesis by (metis append_take_drop_id mset_append)
qed

context document_server begin

lemma insert_batch_arrives:
  assumes sink: "rs_sink env = driver_sink c"
    and "insert_batch env db coll docs out t = (out', Inr (), t')"
  shows "\<exists>new. mset (held db coll t') = mset (held db coll t) + new \<and> new \<subseteq># mset docs
    \<and> io_inserted out' = io_inserted out + size new"
  using assms(2)
proof (induction docs arbitrary: out t rule: length_induct)
  case (1 docs)
  let ?ord = "ro_ordered (rs_options env)"
  have many: "sk_insert_many (rs_sink env) db coll = driver_insert_many c db coll"
    by (simp add: sink driver_sink_def)
  show ?case
  proof (cases "docs = []")
    case True
    with "1.prems" show ?thesis by (simp add: insert_batch.simps)
  next
    case False
    show ?thesis
      using "1.prems" False
    proof (cases rule: insert_batch_step)
      case (all b)
      let ?new = "stored_of docs ?ord (map fst (bi_failures b))"
      from all(1) have "driver_insert_many c db coll docs ?ord t = (Inr b, t')" by (simp add: many)
      from insert_many_stored [OF this] all(3) stored_of_sub [of docs ?ord "map fst (bi_failures b)"]
      show ?thesis by (intro exI [of _ "mset ?new"]) simp
    next
      case (unordered b)
      let ?new = "stored_of docs ?ord (map fst (bi_failures b))"
      from unordered(1) have "driver_insert_many c db coll docs ?ord t = (Inr b, t')" by (simp add: many)
      from insert_many_stored [OF this] tolerate_cases [OF unordered(4)]
        stored_of_sub [of docs ?ord "map fst (bi_failures b)"]
      show ?thesis by (intro exI [of _ "mset ?new"]) simp
    next
      case (ordered b out1 t1)
      from ordered(1,2) have m: "driver_insert_many c db coll docs True t = (Inr b, t1)" by (simp add: many)
      obtain i e where i: "bi_failures b = [(i, e)]" "bi_inserted b = i" "i < length docs"
        using many.ordered_stop [of db coll docs t b t1] m ordered(3) by (auto simp: driver_sink_def)
      have arrived: "mset (held db coll t1) = mset (held db coll t) + mset (take i docs)"
        using insert_many_stored [OF m] i by (simp add: stored_of_def)
      have l: "length (drop (Suc i) docs) < length docs" using i(3) by simp
      from ordered(5) i have rest: "insert_batch env db coll (drop (Suc i) docs) out1 t1 = (out', Inr (), t')" by simp
      from "1.IH" [rule_format, OF l rest] obtain new where new:
          "mset (held db coll t') = mset (held db coll t1) + new" "new \<subseteq># mset (drop (Suc i) docs)"
          "io_inserted out' = io_inserted out1 + size new"
        by blast
      show ?thesis
        using new arrived tolerate_cases [OF ordered(4)] i take_drop_sub [of "mset (take i docs)" i docs new]
        by (intro exI [of _ "mset (take i docs) + new"]) (simp add: add.assoc)
    qed
  qed
qed

lemma insert_loop_batches_arrives:
  assumes sink: "rs_sink env = driver_sink c"
    and "\<forall>d \<in> set docs. framed (rs_codec env) d"
    and "insert_loop_batches env db coll \<lparr>rd_bytes = blob_of (rs_codec env) docs, rd_end = None\<rparr> out t =
      (out', Inr (), t')"
  shows "\<exists>new. mset (held db coll t') = mset (held db coll t) + new \<and> new \<subseteq># mset docs
    \<and> io_inserted out' = io_inserted out + size new
    \<and> io_inserted out' + io_skipped out' = io_inserted out + io_skipped out + length docs"
  using assms(2,3)
proof (induction docs arbitrary: out t rule: length_induct)
  case (1 docs)
  let ?C = "rs_codec env" and ?n = "max (max (ro_batch_size (rs_options env)) 1) 1"
  have next_eq: "next_batch ?C (max (ro_batch_size (rs_options env)) 1) \<lparr>rd_bytes = blob_of ?C docs, rd_end = None\<rparr> =
      Inr (take ?n docs, \<lparr>rd_bytes = blob_of ?C (drop ?n docs), rd_end = None\<rparr>)"
    unfolding next_batch_def using next_batch_loop_blob [OF "1.prems"(1)] by simp
  from "1.prems"(2) show ?case
  proof (cases rule: insert_loop_batches_step)
    case (stop rd')
    then have "docs = []" using next_eq by auto
    with stop show ?thesis by simp
  next
    case (more batch rd' out1 t1)
    have b: "batch = take ?n docs" "rd' = \<lparr>rd_bytes = blob_of ?C (drop ?n docs), rd_end = None\<rparr>"
      using more(1) next_eq by simp_all
    have ne: "docs \<noteq> []" using more(2) b(1) by auto
    from insert_batch_arrives [OF sink more(3)] obtain new where new:
        "mset (held db coll t1) = mset (held db coll t) + new" "new \<subseteq># mset batch"
        "io_inserted out1 = io_inserted out + size new"
      by auto
    have sum: "io_inserted out1 + io_skipped out1 = io_inserted out + io_skipped out + length batch"
      using many.insert_batch_conserves [OF _ more(3)] sink by simp
    have "length (drop ?n docs) < length docs" using ne by simp
    moreover have "\<forall>d \<in> set (drop ?n docs). framed ?C d" using "1.prems"(1) by (meson in_set_dropD)
    ultimately obtain new2 where new2: "mset (held db coll t') = mset (held db coll t1) + new2"
        "new2 \<subseteq># mset (drop ?n docs)" "io_inserted out' = io_inserted out1 + size new2"
        "io_inserted out' + io_skipped out' = io_inserted out1 + io_skipped out1 + length (drop ?n docs)"
      using "1.IH" [rule_format, of "drop ?n docs"] more(4) b(2) by blast
    have "new + new2 \<subseteq># mset (take ?n docs) + mset (drop ?n docs)"
      using new(2) new2(2) b(1) by (auto intro: subset_mset.add_mono)
    then have "new + new2 \<subseteq># mset docs" by (metis append_take_drop_id mset_append)
    moreover have "length batch + length (drop ?n docs) = length docs" using b(1) by simp
    ultimately show ?thesis
      using new new2 sum by (intro exI [of _ "new + new2"]) (simp add: add.assoc)
  qed
qed

end

lemma restore_item_stages:
  assumes "restore_item env did it t = (rep, t')" "ir_failed rep = None" "ir_fatal rep = None"
  obtains m t1 t2 out t3 where
    "read_collection_meta (rs_codec env) (rs_storage env) did (ri_db it) (ri_coll it) (rs_store env) = Inr m"
    "clean_step env (ri_db it) (ri_coll it) t = (Inr (), t1)"
    "sk_ensure (rs_sink env) (ri_db it) (ri_coll it) (cm_validator m) (cm_options m) t1 = (Inr (), t2)"
    "insert_documents env did (ri_db it) (ri_coll it) t2 = (out, Inr (), t3)"
    "ir_inserted rep = io_inserted out" "ir_skipped rep = io_skipped out"
    "t' = t3 \<or> (\<exists>n. create_indexes env (ri_db it) (ri_coll it) (cm_indexes m) 0 t3 = (Inr n, t'))"
  using assms
  by (auto simp: restore_item_def Let_def check_complete_def default_report_def
      split: sum.splits prod.splits if_splits)

context restore_server begin

lemma ensure_held:
  "driver_ensure c db coll v opts s = (r, s') \<Longrightarrow> held db coll s' = held db coll s"
  by (auto simp: driver_ensure_def accept_code_def split: prod.splits sum.splits dest: create_keeps)

lemma drop_held:
  "driver_drop c db coll s = (Inr u, s') \<Longrightarrow> held db coll s' = []"
  by (cases "cl_drop_collection c db coll s")
    (auto simp: driver_drop_def accept_code_def split: sum.splits if_splits dest!: drop_empties)

lemma create_indexes_held:
  assumes "rs_sink env = driver_sink c"
  shows "create_indexes env db coll ixs n s = (r, s') \<Longrightarrow> held db coll s' = held db coll s"
proof (induction ixs arbitrary: n s)
  case (Cons ix ixs)
  have one: "driver_create_index c db coll ix s = (q, s1) \<Longrightarrow> held db coll s1 = held db coll s" for q s1
    by (cases "cl_create_index c db coll (model_of_spec ix) s")
      (auto simp: driver_create_index_def split: sum.splits dest: index_keeps)
  show ?case
    using Cons assms by (auto simp: driver_sink_def split: prod.splits sum.splits if_splits dest!: one)
qed simp

lemma clean_step_held:
  assumes "rs_sink env = driver_sink c" "clean_step env db coll t = (Inr (), t1)"
  shows "held db coll t1 = (if ro_clean (rs_options env) then [] else held db coll t)"
  using assms drop_held [of db coll t "()" t1] by (auto simp: clean_step_def driver_sink_def split: if_splits)

lemma restore_item_arrives:
  assumes sink: "rs_sink env = driver_sink c"
    and "restore_item env did it t = (rep, t')" "ir_failed rep = None" "ir_fatal rep = None"
    and rd: "open_document_reader (rs_codec env) (rs_storage env) did (ri_db it) (ri_coll it) (rs_store env) =
      Inr \<lparr>rd_bytes = blob_of (rs_codec env) docs, rd_end = None\<rparr>"
    and framed: "\<forall>d \<in> set docs. framed (rs_codec env) d"
  shows "\<exists>new. mset (held (ri_db it) (ri_coll it) t') =
        (if ro_clean (rs_options env) then {#} else mset (held (ri_db it) (ri_coll it) t)) + new
    \<and> new \<subseteq># mset docs \<and> size new = ir_inserted rep
    \<and> ir_inserted rep + ir_skipped rep = length docs"
  using assms(2-4)
proof (cases rule: restore_item_stages)
  case (1 m t1 t2 out t3)
  let ?db = "ri_db it" and ?coll = "ri_coll it"
  have "insert_loop_batches env ?db ?coll \<lparr>rd_bytes = blob_of (rs_codec env) docs, rd_end = None\<rparr> no_outcome t2
      = (out, Inr (), t3)"
    using 1(4) rd by (simp add: insert_documents_def)
  from insert_loop_batches_arrives [OF sink framed this] obtain new where new:
      "mset (held ?db ?coll t3) = mset (held ?db ?coll t2) + new" "new \<subseteq># mset docs"
      "io_inserted out = size new" "io_inserted out + io_skipped out = length docs"
    by (auto simp: no_outcome_def)
  have "held ?db ?coll t2 = held ?db ?coll t1"
    using 1(3) ensure_held [of ?db ?coll "cm_validator m" "cm_options m" t1] by (simp add: sink driver_sink_def)
  moreover have "held ?db ?coll t' = held ?db ?coll t3"
    using 1(7) create_indexes_held [OF sink] by auto
  ultimately show ?thesis
    using new 1(5,6) clean_step_held [OF sink 1(2)] by (intro exI [of _ new]) auto
qed

end

section \<open>The deployment in memory\<close>

lemma mem_command_documents:
  "mem_command db cmd m = (r, m') \<Longrightarrow> mem_documents db' coll' m' = mem_documents db' coll' m"
  using mem_ensure_documents [of db _ _ _ m "Inr ()"]
  by (auto simp: mem_command_def mem_ensure_def Let_def
      split: list.splits prod.splits bson.splits if_splits option.splits)

interpretation mem_restores: restore_server mem_client mem_documents
proof unfold_locales
  fix db coll s r2 s'
  assume "cl_drop_collection mem_client db coll s = (r2, s')"
    "case r2 of Inr u \<Rightarrow> True | Inl e \<Rightarrow> error_code e = Some 26"
  then show "mem_documents db coll s' = []"
    using mem_drop_documents [of db coll s "Inr ()" s' db coll]
    by (auto simp: mem_client_def mem_documents_def mem_drop_def split: option.splits)
next
  fix db coll v opts s r s'
  assume "cl_run_command mem_client db (create_command coll v opts) s = (r, s')"
  then show "mem_documents db coll s' = mem_documents db coll s"
    using mem_command_documents by (simp add: mem_client_def)
next
  fix db coll ix s r2 s'
  assume "cl_create_index mem_client db coll ix s = (r2, s')"
  then show "mem_documents db coll s' = mem_documents db coll s"
    by (cases "mem_create_index db coll (index_spec_of ix) s")
      (auto simp: mem_client_def mem_create_index_documents)
qed

lemma same_size_sub: "A \<subseteq># B \<Longrightarrow> size A = size B \<Longrightarrow> A = B"
  using mset_subset_size [of A B] by (auto simp: subset_mset.le_less)

lemma driver_drop_mem: "driver_drop mem_client db coll m = mem_drop db coll m"
proof (cases "kv_get (db, coll) m")
  case None
  then have "\<forall>p \<in> set m. fst p \<noteq> (db, coll)" by (force simp: kv_get_None)
  then have "filter (\<lambda>p. fst p \<noteq> (db, coll)) m = m" by (simp add: filter_id_conv)
  with None show ?thesis
    by (simp add: driver_drop_def accept_code_def mem_client_def mem_drop_def server_error_def error_code_def)
next
  case (Some cd)
  then show ?thesis by (simp add: driver_drop_def accept_code_def mem_client_def mem_drop_def)
qed

section \<open>Properties\<close>

text \<open>
  C3. Dump, restore and the deployment agree: after a collection is restored without a failure through
  the driver, the target holds what it held before (nothing, if cleaned) and a part of the dumped
  documents of exactly the reported size, none of them invented or twice; what is missing was skipped as
  an excluded error, and if nothing was skipped every dumped document is there.
\<close>

theorem driver_round_trip:
  assumes "restore_server c held"
    and "fs_ok fs" "clean_name did" "clean_item it"
    and "dumped_docs E src (wi_coll it) (fst (item_stream src it)) = Inr outs"
    and "\<forall>d \<in> set outs. framed C d"
    and "gunzip C (gz C (blob_of C outs)) = (blob_of C outs, None)"
    and "\<And>st raw. item_structure src (wi_db it) (wi_coll it) = Inr st \<Longrightarrow>
          enc_cmeta C (meta_of_data (item_data it outs st)) = Some raw \<Longrightarrow>
          dec_cmeta C raw = Some (meta_of_data (item_data it outs st))"
    and "\<not> do_gzip (du_options src) \<Longrightarrow>
          dir_exists (in_dump did (data_path (wi_db it) (wi_coll it) True)) fs = Inr False"
    and "dump_item E C dir_storage src did it fs = (Inr (sz, toc), fs')"
    and "rs_codec env = C" "rs_storage env = dir_storage" "rs_store env = fs'" "rs_sink env = driver_sink c"
    and "restore_item env did \<lparr>ri_db = wi_db it, ri_coll = wi_coll it\<rparr> t = (rep, t')"
    and "ir_failed rep = None" "ir_fatal rep = None"
  shows "\<exists>new. mset (held (wi_db it) (wi_coll it) t') =
        (if ro_clean (rs_options env) then {#} else mset (held (wi_db it) (wi_coll it) t)) + new
    \<and> new \<subseteq># mset outs \<and> size new = ir_inserted rep \<and> ir_inserted rep + ir_skipped rep = length outs
    \<and> (ir_skipped rep = 0 \<longrightarrow> new = mset outs)"
proof -
  obtain st where "open_document_reader C dir_storage did (wi_db it) (wi_coll it) fs' =
      Inr \<lparr>rd_bytes = blob_of C outs, rd_end = None\<rparr>"
    using dump_item_parts [OF assms(2-10)] by blast
  then have "open_document_reader (rs_codec env) (rs_storage env) did (wi_db it) (wi_coll it) (rs_store env) =
      Inr \<lparr>rd_bytes = blob_of (rs_codec env) outs, rd_end = None\<rparr>"
    by (simp add: assms(11-13))
  from restore_server.restore_item_arrives [OF assms(1,14-17), unfolded restore_target.simps, OF this] assms(6,11)
  obtain new where new: "mset (held (wi_db it) (wi_coll it) t') =
        (if ro_clean (rs_options env) then {#} else mset (held (wi_db it) (wi_coll it) t)) + new"
      "new \<subseteq># mset outs" "size new = ir_inserted rep" "ir_inserted rep + ir_skipped rep = length outs"
    by blast
  moreover have "ir_skipped rep = 0 \<Longrightarrow> new = mset outs"
    using new(2-4) by (intro same_size_sub) simp_all
  ultimately show ?thesis by (intro exI [of _ new] conjI impI)
qed

text \<open>
  C22. The driver reports a batch exactly: without \<open>ordered\<close> the stored documents are those of the batch that
  are not named by a failure, with it those before the one that failed, and their number is the reported
  one.
\<close>

theorem driver_batch_exact:
  assumes "document_server c held" "sk_insert_many (driver_sink c) db coll docs ord s = (Inr b, s')"
  shows "mset (held db coll s') = mset (held db coll s) + mset (stored_of docs ord (map fst (bi_failures b)))
    \<and> length (stored_of docs ord (map fst (bi_failures b))) = bi_inserted b
    \<and> (bi_failures b = [] \<longrightarrow> bi_inserted b = length docs)"
proof -
  have "driver_insert_many c db coll docs ord s = (Inr b, s')" using assms(2) by (simp add: driver_sink_def)
  from document_server.insert_many_stored [OF assms(1) this] show ?thesis by (auto simp: stored_of_def)
qed


section \<open>An example\<close>

definition driver_arrival :: "(fsys, mem) restore_env" where
  "driver_arrival = arrival\<lparr>rs_sink := driver_sink mem_client\<rparr>"

lemma driver_arrived:
  "case restore_item driver_arrival ''x'' \<lparr>ri_db = ''d'', ri_coll = ''c''\<rparr> [] of (rep, m) \<Rightarrow>
     ir_failed rep = None \<and> ir_fatal rep = None \<and> ir_skipped rep = 0"
  by code_simp

theorem driver_round_trip_witness:
  "\<exists>rep m. restore_item driver_arrival ''x'' \<lparr>ri_db = ''d'', ri_coll = ''c''\<rparr> [] = (rep, m)
     \<and> mset (mem_documents ''d'' ''c'' m) = {#[(''_id'', BInt32 7)]#}"
proof -
  let ?outs = "[[(''_id'', BInt32 7)]]"
  have wi: "wi_db sample_item = ''d''" "wi_coll sample_item = ''c''" by (simp_all add: sample_item_def)
  have outs: "dumped_docs sample_ext sample_env (wi_coll sample_item) (fst (item_stream sample_env sample_item)) =
      Inr ?outs" by code_simp
  have framed: "\<forall>d \<in> set ?outs. framed sample_codec d"
    using sample_framed by (simp add: sample_docs_def)
  have zip: "gunzip sample_codec (gz sample_codec (blob_of sample_codec ?outs)) = (blob_of sample_codec ?outs, None)"
    by (simp add: sample_codec_def)
  have gone: "dir_exists (in_dump ''x'' (data_path (wi_db sample_item) (wi_coll sample_item) True)) [] = Inr False"
    by code_simp
  have env: "rs_codec driver_arrival = sample_codec" "rs_storage driver_arrival = dir_storage"
    "rs_store driver_arrival = snd (dump_item sample_ext sample_codec dir_storage sample_env ''x'' sample_item [])"
    "rs_sink driver_arrival = driver_sink mem_client"
    by (simp_all add: driver_arrival_def arrival_def sample_restore_def)
  obtain rep m where r: "restore_item driver_arrival ''x'' \<lparr>ri_db = ''d'', ri_coll = ''c''\<rparr> [] = (rep, m)"
    by (rule prod.exhaust)
  with driver_arrived have ok: "ir_failed rep = None" "ir_fatal rep = None" "ir_skipped rep = 0" by auto
  have r': "restore_item driver_arrival ''x'' \<lparr>ri_db = wi_db sample_item, ri_coll = wi_coll sample_item\<rparr> [] = (rep, m)"
    using r by (simp only: wi)
  have "mem_documents ''d'' ''c'' [] = []" by (simp add: mem_documents_def)
  then have nil: "(if ro_clean (rs_options driver_arrival) then {#} else mset (mem_documents ''d'' ''c'' [])) = {#}"
    by simp
  have "mset (mem_documents ''d'' ''c'' m) = mset ?outs"
    using driver_round_trip [OF mem_restores.restore_server_axioms fs_ok_Nil clean_examples(1,2) outs framed zip
        sample_law gone sample_dumped env r' ok(1,2), unfolded wi nil] ok(3)
    by (metis add_0)
  with r show ?thesis by (simp only: mset.simps) blast
qed

theorem driver_batch_exact_witness:
  "\<exists>b m. sk_insert_many (driver_sink mem_client) ''d'' ''c''
       [[(''_id'', BInt32 1)], [(''_id'', BInt32 1)], [(''_id'', BInt32 2)]] False [] = (Inr b, m)
     \<and> size (mset (mem_documents ''d'' ''c'' m)) = bi_inserted b"
proof -
  let ?docs = "[[(''_id'', BInt32 1)], [(''_id'', BInt32 1)], [(''_id'', BInt32 2)]]"
  obtain b m where l: "insert_loop (mem_insert ''d'' ''c'') ?docs 0 False empty_batch [] = (b, m)"
    by (rule prod.exhaust)
  then have "sk_insert_many (driver_sink mem_client) ''d'' ''c'' ?docs False [] = (Inr b, m)"
    by (simp add: driver_sink_def driver_insert_many_mem insert_many_default_cases del: insert_loop.simps)
  moreover note exact = driver_batch_exact [OF mem_server.document_server_axioms this]
  have "mem_documents ''d'' ''c'' [] = []" by (simp add: mem_documents_def)
  with exact have "size (mset (mem_documents ''d'' ''c'' m)) = bi_inserted b"
    by (metis add_0 mset.simps(1) size_mset)
  ultimately show ?thesis by blast
qed

end
