(* ===== verification/SpoolWriter.thy ===== *)
theory SpoolWriter
  imports DumpFormat
begin

text \<open>
  The streaming writer of a data blob in detail (\<open>CollectionDataWriter\<close> of src/dump/mod.rs): the local
  spool file behind a buffered writer or the backend's multipart upload, optionally behind a gzip encoder,
  and what it leaves behind when it is finished, fails or is dropped. DumpFormat has the same writer
  without the spool; here the two are shown to agree. Also the \<open>put_file\<close> of src/storage/mod.rs and of
  the directory backend, and the spool of a download.
  The local disk maps paths to contents. Whether the operating system refuses an operation, and how much
  of a refused write it has carried out, is a parameter (\<open>os\<close>); so are the gzip encoder (crate flate2)
  and the multipart writer of a backend.
\<close>

section \<open>The local disk\<close>

type_synonym disk = "string \<rightharpoonup> bytes"

datatype disk_op =
    MakeDirs string
  | CreateFile string
  | WriteFile string bytes
  | StatFile string
  | ReadFile string
  | RemoveFile string
  | MoveFile string

record os =
  os_refuse :: "disk_op \<Rightarrow> disk \<Rightarrow> string option"
  os_torn :: "disk \<Rightarrow> nat"

definition contents :: "disk \<Rightarrow> string \<Rightarrow> bytes" where
  "contents d p = (case d p of None \<Rightarrow> [] | Some bs \<Rightarrow> bs)"

definition disk_create :: "os \<Rightarrow> string \<Rightarrow> disk \<Rightarrow> (string + unit) \<times> disk" where
  "disk_create os p d =
     (case os_refuse os (CreateFile p) d of Some e \<Rightarrow> (Inl e, d) | None \<Rightarrow> (Inr (), d(p \<mapsto> [])))"

definition disk_write :: "os \<Rightarrow> string \<Rightarrow> bytes \<Rightarrow> disk \<Rightarrow> (string + unit) \<times> disk" where
  "disk_write os p bs d =
     (case os_refuse os (WriteFile p bs) d of
        Some e \<Rightarrow> (Inl e, d(p \<mapsto> contents d p @ take (os_torn os d) bs))
      | None \<Rightarrow> (Inr (), d(p \<mapsto> contents d p @ bs)))"

definition disk_remove :: "os \<Rightarrow> string \<Rightarrow> disk \<Rightarrow> disk" where
  "disk_remove os p d = (case os_refuse os (RemoveFile p) d of Some e \<Rightarrow> d | None \<Rightarrow> d(p := None))"

section \<open>Uploading a local file\<close>

text \<open>The default \<open>put_file\<close> reads the file and puts its contents.\<close>

definition put_file_default ::
    "os \<Rightarrow> 's storage \<Rightarrow> string \<Rightarrow> string \<Rightarrow> disk \<times> 's \<Rightarrow> unit res \<times> disk \<times> 's" where
  "put_file_default os S path loc st =
     (case st of (d, s) \<Rightarrow>
        (case os_refuse os (ReadFile loc) d of
           Some e \<Rightarrow> (Inl (StorageError (''cannot read '' @ loc @ '': '' @ e)), d, s)
         | None \<Rightarrow> (case sg_put S path (contents d loc) s of (r, s') \<Rightarrow> (r, d, s'))))"

text \<open>The directory backend moves the file where the system allows it, and copies it otherwise.\<close>

definition dir_put_file ::
    "os \<Rightarrow> string \<Rightarrow> string \<Rightarrow> disk \<times> fsys \<Rightarrow> unit res \<times> disk \<times> fsys" where
  "dir_put_file os path loc st =
     (case st of (d, s) \<Rightarrow>
        (case dir_put path (contents d loc) s of
           (Inl e, s') \<Rightarrow> (Inl e, d, s')
         | (Inr u, s') \<Rightarrow>
             (Inr (), if os_refuse os (MoveFile loc) d = None then d(loc := None) else d, s')))"

section \<open>The sinks\<close>

text \<open>A streaming upload of a backend, as the writer uses it.\<close>

record 's multipart_writer =
  mw_write :: "bytes \<Rightarrow> 's \<Rightarrow> (string + unit) \<times> 's"
  mw_finish :: "'s \<Rightarrow> nat res \<times> 's"
  mw_abort :: "'s \<Rightarrow> 's"

text \<open>A spool file with the bytes its buffered writer still holds, or an upload.\<close>

datatype 's raw_sink =
    Spool string bytes
  | Multi "'s multipart_writer"

definition buffer_capacity :: nat where
  "buffer_capacity = 8192"

text \<open>\<open>BufWriter\<close>: what fits is kept, otherwise the buffer is flushed first; a write of at least the
  capacity goes past it.\<close>

definition flush_buffer :: "os \<Rightarrow> string \<Rightarrow> bytes \<Rightarrow> disk \<Rightarrow> (string + unit) \<times> bytes \<times> disk" where
  "flush_buffer os p pend d =
     (if pend = [] then (Inr (), [], d)
      else (case disk_write os p pend d of
              (Inl e, d') \<Rightarrow> (Inl e, drop (os_torn os d) pend, d')
            | (Inr u, d') \<Rightarrow> (Inr (), [], d')))"

definition buffer_write ::
    "os \<Rightarrow> string \<Rightarrow> bytes \<Rightarrow> bytes \<Rightarrow> disk \<Rightarrow> (string + unit) \<times> bytes \<times> disk" where
  "buffer_write os p pend bs d =
     (if length pend + length bs < buffer_capacity then (Inr (), pend @ bs, d)
      else (case (if buffer_capacity < length pend + length bs then flush_buffer os p pend d else (Inr (), pend, d)) of
              (Inl e, pend', d') \<Rightarrow> (Inl e, pend', d')
            | (Inr u, pend', d') \<Rightarrow>
                if length bs < buffer_capacity then (Inr (), pend' @ bs, d')
                else (case disk_write os p bs d' of (r, d'') \<Rightarrow> (r, pend', d''))))"

definition sink_write ::
    "os \<Rightarrow> 's raw_sink \<Rightarrow> bytes \<Rightarrow> disk \<times> 's \<Rightarrow> (string + unit) \<times> 's raw_sink \<times> disk \<times> 's" where
  "sink_write os sink bs st =
     (case (sink, st) of
        (Spool p pend, d, s) \<Rightarrow>
          (case buffer_write os p pend bs d of (r, pend', d') \<Rightarrow> (r, Spool p pend', d', s))
      | (Multi w, d, s) \<Rightarrow> (case mw_write w bs s of (r, s') \<Rightarrow> (r, Multi w, d, s')))"

section \<open>The writer\<close>

text \<open>The gzip encoder: what it passes on for a chunk, and at its end.\<close>

record 'z gzip_encoder =
  ge_new :: 'z
  ge_write :: "bytes \<Rightarrow> 'z \<Rightarrow> bytes \<times> 'z"
  ge_end :: "'z \<Rightarrow> bytes"

record ('s, 'z) blob_writer =
  bw_encoder :: "'z option"
  bw_sink :: "'s raw_sink"
  bw_count :: nat
  bw_target :: string

definition spool_name :: "nat \<Rightarrow> nat \<Rightarrow> string \<Rightarrow> string \<Rightarrow> string" where
  "spool_name pid seq db coll =
     ''leafmask-'' @ show_nat pid @ ''-'' @ show_nat seq @ ''-'' @ db @ ''-'' @ coll @ ''.spool''"

definition spool_path :: "string \<Rightarrow> nat \<Rightarrow> nat \<Rightarrow> string \<Rightarrow> string \<Rightarrow> string" where
  "spool_path tmp pid seq db coll = tmp @ [slash] @ spool_name pid seq db coll"

definition open_writer :: "'z gzip_encoder \<Rightarrow> bool \<Rightarrow> string \<Rightarrow> 's raw_sink \<Rightarrow> ('s, 'z) blob_writer" where
  "open_writer G gzip path sink =
     \<lparr>bw_encoder = (if gzip then Some (ge_new G) else None), bw_sink = sink, bw_count = 0, bw_target = path\<rparr>"

text \<open>\<open>mp\<close> is the backend's \<open>multipart_writer\<close>, \<open>spool\<close> the path of the spool file.\<close>

definition bw_create ::
    "os \<Rightarrow> 'z gzip_encoder \<Rightarrow> (string \<Rightarrow> 's \<Rightarrow> 's multipart_writer option res \<times> 's) \<Rightarrow> string \<Rightarrow> string
       \<Rightarrow> string \<Rightarrow> bool \<Rightarrow> disk \<times> 's \<Rightarrow> ('s, 'z) blob_writer res \<times> disk \<times> 's" where
  "bw_create os G mp tmp spool path gzip st =
     (case st of (d, s) \<Rightarrow>
        (case mp path s of
           (Inl e, s') \<Rightarrow> (Inl e, d, s')
         | (Inr (Some w), s') \<Rightarrow> (Inr (open_writer G gzip path (Multi w)), d, s')
         | (Inr None, s') \<Rightarrow>
             (case os_refuse os (MakeDirs tmp) d of
                Some e \<Rightarrow> (Inl (StorageError (''cannot create tmp_dir '' @ tmp @ '': '' @ e)), d, s')
              | None \<Rightarrow>
                  (case disk_create os spool d of
                     (Inl e, d') \<Rightarrow> (Inl (StorageError (''cannot create spool file: '' @ e)), d', s')
                   | (Inr u, d') \<Rightarrow> (Inr (open_writer G gzip path (Spool spool [])), d', s')))))"

text \<open>Bytes for the blob: through the encoder, if there is one.\<close>

definition bw_bytes ::
    "os \<Rightarrow> 'z gzip_encoder \<Rightarrow> bytes \<Rightarrow> ('s, 'z) blob_writer \<Rightarrow> disk \<times> 's
       \<Rightarrow> (string + unit) \<times> ('s, 'z) blob_writer \<times> disk \<times> 's" where
  "bw_bytes os G bs w st =
     (case (case bw_encoder w of
              None \<Rightarrow> (bs, None)
            | Some z \<Rightarrow> (case ge_write G bs z of (out, z') \<Rightarrow> (out, Some z'))) of
        (out, enc') \<Rightarrow>
          if out = [] then (Inr (), w\<lparr>bw_encoder := enc'\<rparr>, st)
          else (case sink_write os (bw_sink w) out st of
                  (r, sink', st') \<Rightarrow> (r, w\<lparr>bw_encoder := enc', bw_sink := sink'\<rparr>, st')))"

definition bw_write ::
    "codec \<Rightarrow> os \<Rightarrow> 'z gzip_encoder \<Rightarrow> document \<Rightarrow> ('s, 'z) blob_writer \<Rightarrow> disk \<times> 's
       \<Rightarrow> unit res \<times> ('s, 'z) blob_writer \<times> disk \<times> 's" where
  "bw_write C os G doc w st =
     (case enc_doc C doc of
        None \<Rightarrow> (Inl (StorageError ''cannot serialize document''), w, st)
      | Some bs \<Rightarrow>
          (case bw_bytes os G bs w st of
             (Inl e, w', st') \<Rightarrow> (Inl (StorageError e), w', st')
           | (Inr u, w', st') \<Rightarrow> (Inr (), w'\<lparr>bw_count := bw_count w' + 1\<rparr>, st')))"

text \<open>The trailer of the encoder, written when it is finished or dropped.\<close>

definition bw_trailer ::
    "os \<Rightarrow> 'z gzip_encoder \<Rightarrow> ('s, 'z) blob_writer \<Rightarrow> disk \<times> 's \<Rightarrow> (string + unit) \<times> 's raw_sink \<times> disk \<times> 's" where
  "bw_trailer os G w st =
     (case bw_encoder w of
        None \<Rightarrow> (Inr (), bw_sink w, st)
      | Some z \<Rightarrow> (if ge_end G z = [] then (Inr (), bw_sink w, st) else sink_write os (bw_sink w) (ge_end G z) st))"

definition bw_finish ::
    "os \<Rightarrow> 'z gzip_encoder \<Rightarrow> (string \<Rightarrow> string \<Rightarrow> disk \<times> 's \<Rightarrow> unit res \<times> disk \<times> 's)
       \<Rightarrow> ('s, 'z) blob_writer \<Rightarrow> disk \<times> 's \<Rightarrow> nat res \<times> disk \<times> 's" where
  "bw_finish os G put_file w st =
     (case bw_trailer os G w st of
        (Inl e, sink, st1) \<Rightarrow> (Inl (StorageError e), st1)
      | (Inr u, Multi m, d, s) \<Rightarrow> (case mw_finish m s of (r, s') \<Rightarrow> (r, d, s'))
      | (Inr u, Spool p pend, d, s) \<Rightarrow>
          (case flush_buffer os p pend d of
             (Inl e, pend', d') \<Rightarrow> (Inl (StorageError e), d', s)
           | (Inr u, pend', d') \<Rightarrow>
               (case os_refuse os (StatFile p) d' of
                  Some e \<Rightarrow> (Inl (StorageError e), d', s)
                | None \<Rightarrow>
                    (case put_file (bw_target w) p (d', s) of
                       (Inl e, d'', s') \<Rightarrow> (Inl e, d'', s')
                     | (Inr u, d'', s') \<Rightarrow> (Inr (length (contents d' p)), disk_remove os p d'', s')))))"

text \<open>A writer that is dropped before it is finished.\<close>

definition bw_drop :: "os \<Rightarrow> 'z gzip_encoder \<Rightarrow> ('s, 'z) blob_writer \<Rightarrow> disk \<times> 's \<Rightarrow> disk \<times> 's" where
  "bw_drop os G w st =
     (case bw_trailer os G w st of
        (r, Spool p pend, d, s) \<Rightarrow> (disk_remove os p d, s)
      | (Inr u, Multi m, d, s) \<Rightarrow> (d, mw_abort m s)
      | (Inl e, Multi m, d, s) \<Rightarrow> (d, s))"

text \<open>A collection: every document is written, the writer is finished, and dropped at the first error.\<close>

fun bw_run ::
    "codec \<Rightarrow> os \<Rightarrow> 'z gzip_encoder \<Rightarrow> (string \<Rightarrow> string \<Rightarrow> disk \<times> 's \<Rightarrow> unit res \<times> disk \<times> 's)
       \<Rightarrow> document list \<Rightarrow> ('s, 'z) blob_writer \<Rightarrow> disk \<times> 's \<Rightarrow> nat res \<times> disk \<times> 's" where
  "bw_run C os G put_file [] w st = bw_finish os G put_file w st"
| "bw_run C os G put_file (doc # docs) w st =
     (case bw_write C os G doc w st of
        (Inl e, w', st') \<Rightarrow> (Inl e, bw_drop os G w' st')
      | (Inr u, w', st') \<Rightarrow> bw_run C os G put_file docs w' st')"

section \<open>Spooling a download\<close>

definition download_name :: "nat \<Rightarrow> nat \<Rightarrow> string" where
  "download_name pid seq = ''leafmask-dl-'' @ show_nat pid @ ''-'' @ show_nat seq"

definition download_spool :: "os \<Rightarrow> string \<Rightarrow> nat \<Rightarrow> nat \<Rightarrow> disk \<Rightarrow> string res \<times> disk" where
  "download_spool os tmp pid seq d =
     (let p = tmp @ [slash] @ download_name pid seq
      in case disk_create os p d of
           (Inl e, d') \<Rightarrow> (Inl (StorageError (''cannot create download spool: '' @ e)), d')
         | (Inr u, d') \<Rightarrow> (Inr p, d'))"

definition open_and_remove_spool :: "os \<Rightarrow> string \<Rightarrow> disk \<Rightarrow> bytes res \<times> disk" where
  "open_and_remove_spool os p d =
     (case os_refuse os (ReadFile p) d of
        Some e \<Rightarrow> (Inl (StorageError (''cannot reopen download spool: '' @ e)), d)
      | None \<Rightarrow> (Inr (contents d p), disk_remove os p d))"

text \<open>Copying a stream of chunks, which may end with an error, into an open file.\<close>

fun copy_chunks :: "os \<Rightarrow> string \<Rightarrow> bytes list \<Rightarrow> string option \<Rightarrow> disk \<Rightarrow> unit res \<times> disk" where
  "copy_chunks os p [] end d = (case end of None \<Rightarrow> (Inr (), d) | Some e \<Rightarrow> (Inl (StorageError e), d))"
| "copy_chunks os p (c # cs) end d =
     (case disk_write os p c d of
        (Inl e, d') \<Rightarrow> (Inl (StorageError e), d')
      | (Inr u, d') \<Rightarrow> copy_chunks os p cs end d')"

section \<open>A disk without faults\<close>

definition quiet :: "os \<Rightarrow> bool" where
  "quiet os = (\<forall>op d. os_refuse os op d = None)"

lemma quiet_ops:
  assumes "quiet os"
  shows "disk_create os p d = (Inr (), d(p \<mapsto> []))"
    and "disk_write os p bs d = (Inr (), d(p \<mapsto> contents d p @ bs))"
    and "disk_remove os p d = d(p := None)"
    and "os_refuse os op d = None"
  using assms by (simp_all add: quiet_def disk_create_def disk_write_def disk_remove_def)

lemma contents_upd [simp]: "contents (d(p \<mapsto> x)) p = x"
  by (simp add: contents_def)

lemma flush_buffer_quiet:
  "quiet os \<Longrightarrow> flush_buffer os p pend (d(p \<mapsto> x)) = (Inr (), [], d(p \<mapsto> x @ pend))"
  by (simp add: flush_buffer_def quiet_ops)

lemma buffer_write_quiet:
  assumes "quiet os"
  shows "\<exists>x' pend'. buffer_write os p pend bs (d(p \<mapsto> x)) = (Inr (), pend', d(p \<mapsto> x')) \<and> x' @ pend' = x @ pend @ bs"
  by (cases pend) (auto simp: buffer_write_def flush_buffer_quiet [OF assms] quiet_ops [OF assms] buffer_capacity_def)

lemma sink_write_quiet:
  assumes "quiet os"
  shows "\<exists>x' pend'. sink_write os (Spool p pend) bs (d(p \<mapsto> x), s) = (Inr (), Spool p pend', d(p \<mapsto> x'), s)
    \<and> x' @ pend' = x @ pend @ bs"
  using buffer_write_quiet [OF assms, of p pend bs d x] by (auto simp: sink_write_def)

text \<open>What an encoder in a state makes of the chunks still to come.\<close>

fun gz_emits :: "'z gzip_encoder \<Rightarrow> bytes list \<Rightarrow> 'z \<Rightarrow> bytes" where
  "gz_emits G [] z = ge_end G z"
| "gz_emits G (b # bs) z = (case ge_write G b z of (out, z') \<Rightarrow> out @ gz_emits G bs z')"

definition rest_of_blob :: "codec \<Rightarrow> 'z gzip_encoder \<Rightarrow> document list \<Rightarrow> 'z option \<Rightarrow> bytes" where
  "rest_of_blob C G docs enc =
     (case enc of None \<Rightarrow> blob_of C docs | Some z \<Rightarrow> gz_emits G (map (encoding C) docs) z)"

text \<open>One document: what the spool file and the buffer hold afterwards.\<close>

lemma bw_write_quiet:
  assumes "quiet os" "enc_doc C doc \<noteq> None" "bw_sink w = Spool p pend"
  obtains x' pend' w' where "bw_write C os G doc w (d(p \<mapsto> x), s) = (Inr (), w', d(p \<mapsto> x'), s)"
    "bw_sink w' = Spool p pend'" "bw_target w' = bw_target w" "bw_count w' = bw_count w + 1"
    "\<forall>docs. x' @ pend' @ rest_of_blob C G docs (bw_encoder w') = x @ pend @ rest_of_blob C G (doc # docs) (bw_encoder w)"
proof -
  obtain bs where bs: "enc_doc C doc = Some bs" "encoding C doc = bs"
    using assms(2) by (auto simp: encoding_def)
  obtain out enc' where out: "(case bw_encoder w of None \<Rightarrow> (bs, None)
      | Some z \<Rightarrow> (case ge_write G bs z of (out, z') \<Rightarrow> (out, Some z'))) = (out, enc')"
    by (rule prod.exhaust)
  have rest: "rest_of_blob C G (doc # docs) (bw_encoder w) = out @ rest_of_blob C G docs enc'" for docs
    using out bs(2) by (auto simp: rest_of_blob_def split: option.splits prod.splits)
  show thesis
  proof (cases "out = []")
    case True
    then show thesis
      using that [of "w\<lparr>bw_encoder := enc', bw_count := bw_count w + 1\<rparr>" x pend] out bs rest assms(3)
      by (simp add: bw_write_def bw_bytes_def)
  next
    case False
    from sink_write_quiet [OF assms(1), of p pend out d x s] obtain x' pend' where w:
      "sink_write os (Spool p pend) out (d(p \<mapsto> x), s) = (Inr (), Spool p pend', d(p \<mapsto> x'), s)"
      "x' @ pend' = x @ pend @ out" by blast
    have "x' @ pend' @ r = x @ pend @ out @ r" for r using w(2) by (metis append.assoc)
    then show thesis
      using that [of "w\<lparr>bw_encoder := enc', bw_sink := Spool p pend', bw_count := bw_count w + 1\<rparr>" x' pend']
        w(1) out bs rest assms(3) False
      by (simp add: bw_write_def bw_bytes_def)
  qed
qed

text \<open>The contract of an upload: it puts the contents of the local file and leaves other files alone.\<close>

locale file_upload =
  fixes put_file :: "string \<Rightarrow> string \<Rightarrow> disk \<times> 's \<Rightarrow> unit res \<times> disk \<times> 's" and S :: "'s storage"
  assumes puts: "sg_put S path (contents d loc) s = (r, s') \<Longrightarrow>
      \<exists>d'. put_file path loc (d, s) = (r, d', s') \<and> d'(loc := None) = d(loc := None)
        \<and> (\<forall>e. r = Inl e \<longrightarrow> d' = d)"
begin

lemma finish_spooled:
  assumes "quiet os" "bw_sink w = Spool p pend"
  shows "bw_finish os G put_file w (d(p \<mapsto> x), s) =
    (let blob = x @ pend @ rest_of_blob C G [] (bw_encoder w)
     in case sg_put S (bw_target w) blob s of
          (Inl e, s') \<Rightarrow> (Inl e, d(p \<mapsto> blob), s')
        | (Inr u, s') \<Rightarrow> (Inr (length blob), d(p := None), s'))"
proof -
  let ?rest = "rest_of_blob C G [] (bw_encoder w)"
  obtain y q where y: "bw_trailer os G w (d(p \<mapsto> x), s) = (Inr (), Spool p q, d(p \<mapsto> y), s)"
      "x @ pend @ ?rest = y @ q"
  proof (cases "?rest = []")
    case True
    then show thesis
      by (intro that [of pend x]) (auto simp: bw_trailer_def assms(2) rest_of_blob_def split: option.splits)
  next
    case False
    then obtain z where "bw_encoder w = Some z" "?rest = ge_end G z" "ge_end G z \<noteq> []"
      by (auto simp: rest_of_blob_def split: option.splits)
    moreover obtain x' pend' where
      "sink_write os (Spool p pend) (ge_end G z) (d(p \<mapsto> x), s) = (Inr (), Spool p pend', d(p \<mapsto> x'), s)"
      "x' @ pend' = x @ pend @ ge_end G z"
      using sink_write_quiet [OF assms(1), of p pend "ge_end G z" d x s] by blast
    ultimately show thesis by (intro that [of pend' x']) (auto simp: bw_trailer_def assms(2))
  qed
  let ?x = "y @ q"
  obtain r s' where r: "sg_put S (bw_target w) ?x s = (r, s')" by (rule prod.exhaust)
  obtain d' where d': "put_file (bw_target w) p (d(p \<mapsto> ?x), s) = (r, d', s')"
      "d'(p := None) = (d(p \<mapsto> ?x))(p := None)" "\<forall>e. r = Inl e \<longrightarrow> d' = d(p \<mapsto> ?x)"
    using puts [of "bw_target w" "d(p \<mapsto> ?x)" p s r s'] r by auto
  show ?thesis
    using y r d' by (cases r) (auto simp: bw_finish_def flush_buffer_quiet [OF assms(1)] quiet_ops [OF assms(1)])
qed

lemma run_spooled:
  assumes "quiet os" "\<forall>doc \<in> set docs. enc_doc C doc \<noteq> None" "bw_sink w = Spool p pend"
  shows "bw_run C os G put_file docs w (d(p \<mapsto> x), s) =
    (let blob = x @ pend @ rest_of_blob C G docs (bw_encoder w)
     in case sg_put S (bw_target w) blob s of
          (Inl e, s') \<Rightarrow> (Inl e, d(p \<mapsto> blob), s')
        | (Inr u, s') \<Rightarrow> (Inr (length blob), d(p := None), s'))"
  using assms(2,3)
proof (induction docs arbitrary: w pend x)
  case Nil
  then show ?case using finish_spooled [OF assms(1), of w p pend G d x s C] by (simp only: bw_run.simps)
next
  case (Cons doc docs)
  from Cons.prems(1) have enc: "enc_doc C doc \<noteq> None" and docs: "\<forall>doc \<in> set docs. enc_doc C doc \<noteq> None" by simp_all
  obtain x' pend' w' where w':
    "bw_write C os G doc w (d(p \<mapsto> x), s) = (Inr (), w', d(p \<mapsto> x'), s)" "bw_sink w' = Spool p pend'"
    "bw_target w' = bw_target w" "bw_count w' = bw_count w + 1"
    "\<forall>docs. x' @ pend' @ rest_of_blob C G docs (bw_encoder w') = x @ pend @ rest_of_blob C G (doc # docs) (bw_encoder w)"
    by (rule bw_write_quiet [OF assms(1) enc Cons.prems(2), of G d x s]) (rule that)
  show ?case
    using Cons.IH [OF docs w'(2), of x'] by (simp only: bw_run.simps w'(1,3) w'(5) [rule_format] prod.case sum.case)
qed

end

section \<open>The uploads\<close>

definition quiet_os :: os where
  "quiet_os = \<lparr>os_refuse = (\<lambda>op d. None), os_torn = (\<lambda>d. 0)\<rparr>"

lemma quiet_os [simp]: "quiet quiet_os"
  by (simp add: quiet_def quiet_os_def)

lemma put_file_default_uploads: "quiet os \<Longrightarrow> file_upload (put_file_default os S) S"
  by unfold_locales (auto simp: put_file_default_def quiet_ops)

lemma dir_put_file_uploads: "file_upload (dir_put_file os) dir_storage"
  by unfold_locales (auto simp: dir_put_file_def dir_storage_def split: sum.splits)

interpretation default_upload: file_upload "put_file_default quiet_os S" S for S
  by (rule put_file_default_uploads) simp

interpretation dir_upload: file_upload "dir_put_file os" dir_storage for os
  by (rule dir_put_file_uploads)

section \<open>A writer that fails\<close>

text \<open>Whatever goes wrong, a writer with a spool file touches no other file.\<close>

lemma disk_write_frame: "disk_write os p bs d = (r, d') \<Longrightarrow> d'(p := None) = d(p := None)"
  by (auto simp: disk_write_def split: option.splits)

lemma flush_buffer_frame: "flush_buffer os p pend d = (r, q, d') \<Longrightarrow> d'(p := None) = d(p := None)"
  by (auto simp: flush_buffer_def split: if_splits sum.splits prod.splits dest: disk_write_frame)

lemma buffer_write_frame: "buffer_write os p pend bs d = (r, q, d') \<Longrightarrow> d'(p := None) = d(p := None)"
  by (auto simp: buffer_write_def split: if_splits sum.splits prod.splits
      dest!: disk_write_frame flush_buffer_frame)

lemma sink_write_frame:
  "sink_write os (Spool p pend) bs (d, s) = (r, sink', d', s') \<Longrightarrow>
     s' = s \<and> d'(p := None) = d(p := None) \<and> (\<exists>q. sink' = Spool p q)"
  by (auto simp: sink_write_def split: prod.splits dest: buffer_write_frame)

lemma bw_write_frame:
  assumes "bw_write C os G doc w (d, s) = (r, w', d', s')" "bw_sink w = Spool p pend"
  shows "s' = s \<and> d'(p := None) = d(p := None) \<and> (\<exists>q. bw_sink w' = Spool p q)"
  using assms
  by (auto simp: bw_write_def bw_bytes_def split: option.splits prod.splits sum.splits if_splits
      dest!: sink_write_frame)

lemma bw_trailer_frame:
  assumes "bw_trailer os G w (d, s) = (r, sink', d', s')" "bw_sink w = Spool p pend"
  shows "s' = s \<and> d'(p := None) = d(p := None) \<and> (\<exists>q. sink' = Spool p q)"
proof (cases "\<exists>z. bw_encoder w = Some z \<and> ge_end G z \<noteq> []")
  case True
  with assms obtain z where "sink_write os (Spool p pend) (ge_end G z) (d, s) = (r, sink', d', s')"
    by (auto simp: bw_trailer_def)
  then show ?thesis by (rule sink_write_frame)
next
  case False
  then have "bw_trailer os G w (d, s) = (Inr (), bw_sink w, d, s)"
    by (auto simp: bw_trailer_def split: option.splits)
  with assms have "sink' = Spool p pend \<and> d' = d \<and> s' = s" by simp
  then show ?thesis by blast
qed

lemma bw_drop_spool:
  assumes "bw_sink w = Spool p pend" "\<forall>d. os_refuse os (RemoveFile p) d = None"
  shows "bw_drop os G w (d, s) = (d(p := None), s)"
proof -
  obtain r sink d' s' where t: "bw_trailer os G w (d, s) = (r, sink, d', s')" by (rule prod_cases4)
  from bw_trailer_frame [OF t assms(1)] obtain q where
    "sink = Spool p q" "s' = s" "d'(p := None) = d(p := None)" by blast
  with t assms(2) show ?thesis by (cases r) (simp_all add: bw_drop_def disk_remove_def)
qed

text \<open>Writing the documents without finishing.\<close>

fun bw_writes ::
    "codec \<Rightarrow> os \<Rightarrow> 'z gzip_encoder \<Rightarrow> document list \<Rightarrow> ('s, 'z) blob_writer \<Rightarrow> disk \<times> 's
       \<Rightarrow> unit res \<times> ('s, 'z) blob_writer \<times> disk \<times> 's" where
  "bw_writes C os G [] w st = (Inr (), w, st)"
| "bw_writes C os G (doc # docs) w st =
     (case bw_write C os G doc w st of
        (Inl e, w', st') \<Rightarrow> (Inl e, w', st')
      | (Inr u, w', st') \<Rightarrow> bw_writes C os G docs w' st')"

lemma bw_run_writes:
  "bw_run C os G put_file docs w st =
     (case bw_writes C os G docs w st of
        (Inl e, w', st') \<Rightarrow> (Inl e, bw_drop os G w' st')
      | (Inr u, w', st') \<Rightarrow> bw_finish os G put_file w' st')"
  by (induction docs arbitrary: w st) (auto split: prod.splits sum.splits)

lemma bw_writes_frame:
  "bw_writes C os G docs w (d, s) = (r, w', d', s') \<Longrightarrow> bw_sink w = Spool p pend \<Longrightarrow>
     s' = s \<and> d'(p := None) = d(p := None) \<and> (\<exists>q. bw_sink w' = Spool p q)"
proof (induction docs arbitrary: w d pend)
  case (Cons doc docs)
  obtain r1 w1 d1 s1 where one: "bw_write C os G doc w (d, s) = (r1, w1, d1, s1)" by (rule prod_cases4)
  from bw_write_frame [OF one Cons.prems(2)] obtain q where
    f: "s1 = s" "d1(p := None) = d(p := None)" "bw_sink w1 = Spool p q" by blast
  show ?case
  proof (cases r1)
    case (Inl e)
    with one f Cons.prems(1) show ?thesis by auto
  next
    case (Inr u)
    with one f Cons.prems(1) have "bw_writes C os G docs w1 (d1, s) = (r, w', d', s')" by simp
    from Cons.IH [OF this f(3)] f(2) show ?thesis by simp
  qed
qed simp

section \<open>Names of spool files\<close>

lemma takeWhile_digits: "takeWhile is_digit (show_nat n @ CHR ''-'' # rest) = show_nat n"
proof -
  have "\<forall>c \<in> set (show_nat n). is_digit c"
    using show_uint_digits [of "int n"] by (simp add: show_nat_def list_all_iff)
  moreover have "\<not> is_digit (CHR ''-'')" by (simp add: is_digit_def)
  ultimately show ?thesis by (simp add: takeWhile_append2)
qed

text \<open>\<open>seq\<close> comes from a counter of the process, so no two writers of a process share a spool file.\<close>

lemma spool_path_inject:
  assumes "spool_path tmp pid seq db coll = spool_path tmp pid seq' db' coll'"
  shows "seq = seq'"
proof -
  have "show_nat seq @ CHR ''-'' # db @ ''-'' @ coll @ ''.spool'' =
      show_nat seq' @ CHR ''-'' # db' @ ''-'' @ coll' @ ''.spool''"
    using assms by (simp add: spool_path_def spool_name_def)
  then have "show_nat seq = show_nat seq'" by (metis takeWhile_digits)
  then show ?thesis by simp
qed

text \<open>The name of a collection goes into the path as it is, slashes included.\<close>

lemma spool_path_slash:
  "spool_path ''/tmp'' 1 0 ''d'' ''a/b'' = ''/tmp/leafmask-1-0-d-a'' @ ''/b.spool''"
  by code_simp

section \<open>Properties\<close>

text \<open>
  The spooling writer implements the writer of the dump format: on a disk without faults a collection
  written through the spool file, compressed or not, puts exactly the blob of its documents with one
  request and reports its size. On success the spool file is gone and no other file was touched; when the
  backend refuses the blob the error is returned and the spool file stays.
\<close>

theorem spool_writer_refines:
  assumes "quiet os" "file_upload put_file S" "\<forall>doc \<in> set docs. enc_doc C doc \<noteq> None"
    and "gzip \<Longrightarrow> gz_emits G (map (encoding C) docs) (ge_new G) = gz C (blob_of C docs)"
    and "d spool = None" "mp path s = (Inr None, s)"
    and "bw_create os G mp tmp spool path gzip (d, s) = (Inr w, st)"
    and "writer_finish C S \<lparr>dw_raw = blob_of C docs, dw_count = length docs, dw_path = path, dw_gzip = gzip\<rparr> s =
      (r, s')"
  shows "bw_run C os G put_file docs w st =
    (r, (case r of Inr n \<Rightarrow> d
         | Inl e \<Rightarrow> d(spool \<mapsto> (if gzip then gz C (blob_of C docs) else blob_of C docs))), s')"
proof -
  let ?blob = "if gzip then gz C (blob_of C docs) else blob_of C docs"
  have w: "w = open_writer G gzip path (Spool spool [])" "st = (d(spool \<mapsto> []), s)"
    using assms(6,7) by (auto simp: bw_create_def quiet_ops [OF assms(1)])
  have blob: "[] @ [] @ rest_of_blob C G docs (bw_encoder w) = ?blob"
    using assms(4) by (simp add: w(1) open_writer_def rest_of_blob_def)
  have "d(spool := None) = d" using assms(5) by auto
  moreover have "bw_sink w = Spool spool []" "bw_target w = path" by (simp_all add: w(1) open_writer_def)
  moreover obtain q s1 where "sg_put S path ?blob s = (q, s1)" by (rule prod.exhaust)
  ultimately show ?thesis
    using file_upload.run_spooled [OF assms(2,1,3), of w spool "[]" G d "[]" s] assms(8)
    unfolding w(2) blob by (cases q) (auto simp: writer_finish_def Let_def)
qed


section \<open>An example\<close>

text \<open>A disk that refuses every write to a file, behind the buffer of the writer.\<close>

definition full_os :: os where
  "full_os = \<lparr>os_refuse = (\<lambda>op d. case op of WriteFile p bs \<Rightarrow> Some ''no space left'' | _ \<Rightarrow> None), os_torn = (\<lambda>d. 1)\<rparr>"

text \<open>An encoder that passes everything on, a fresh writer, and one whose buffer is full.\<close>

definition pass_encoder :: "unit gzip_encoder" where
  "pass_encoder = \<lparr>ge_new = (), ge_write = (\<lambda>bs z. (bs, ())), ge_end = (\<lambda>z. [])\<rparr>"

definition plain_writer :: "(fsys, unit) blob_writer" where
  "plain_writer = open_writer pass_encoder False ''x/data/d/c.bson'' (Spool ''/tmp/s'' [])"

theorem spool_writer_refines_witness:
  "\<exists>s'. bw_run sample_codec quiet_os pass_encoder (dir_put_file quiet_os) sample_docs plain_writer
      ([''/tmp/s'' \<mapsto> []], []) = (Inr (length (blob_of sample_codec sample_docs)), Map.empty, s')"
proof -
  have enc: "\<forall>doc \<in> set sample_docs. enc_doc sample_codec doc \<noteq> None"
    using sample_framed by (auto simp: framed_def split: option.splits)
  have made: "bw_create quiet_os pass_encoder (\<lambda>path s. (Inr None, s)) ''/tmp'' ''/tmp/s'' ''x/data/d/c.bson'' False
      (Map.empty, []) = (Inr plain_writer, [''/tmp/s'' \<mapsto> []], [])"
    by (simp add: bw_create_def plain_writer_def disk_create_def quiet_os_def)
  let ?w = "\<lparr>dw_raw = blob_of sample_codec sample_docs, dw_count = length sample_docs,
    dw_path = ''x/data/d/c.bson'', dw_gzip = False\<rparr>"
  have ok: "fst (writer_finish sample_codec dir_storage ?w []) = Inr (length (blob_of sample_codec sample_docs))"
    by code_simp
  then obtain s' where "writer_finish sample_codec dir_storage ?w [] =
      (Inr (length (blob_of sample_codec sample_docs)), s')" by (metis prod.collapse)
  from spool_writer_refines [OF quiet_os dir_upload.file_upload_axioms enc _ _ _ made this] show ?thesis
    by auto
qed

definition full_writer :: "(fsys, unit) blob_writer" where
  "full_writer = plain_writer\<lparr>bw_sink := Spool ''/tmp/s'' (replicate 8192 0)\<rparr>"

lemma full_writer_fails:
  "\<exists>w' st'. bw_writes sample_codec full_os pass_encoder sample_docs full_writer ([''/tmp/s'' \<mapsto> []], []) =
     (Inl (StorageError ''no space left''), w', st')"
proof -
  obtain doc docs where docs: "sample_docs = doc # docs" by (simp add: sample_docs_def)
  then have "framed sample_codec doc" using sample_framed by (metis list.set_intros(1))
  then obtain bs where some: "enc_doc sample_codec doc = Some bs" "5 \<le> length bs"
    by (cases "enc_doc sample_codec doc") (auto simp: framed_def)
  then have bs: "enc_doc sample_codec doc = Some bs" "bs \<noteq> []" by auto
  have "os_refuse full_os (WriteFile p x) d = Some ''no space left''" for p x d by (simp add: full_os_def)
  then have "\<exists>w' st'. bw_write sample_codec full_os pass_encoder doc full_writer ([''/tmp/s'' \<mapsto> []], []) =
      (Inl (StorageError ''no space left''), w', st')"
    using bs by (simp add: bw_write_def bw_bytes_def full_writer_def plain_writer_def open_writer_def
        sink_write_def buffer_write_def buffer_capacity_def flush_buffer_def disk_write_def)
  then show ?thesis unfolding docs by auto
qed


text \<open>An upload that fails leaves the spool file behind, here a backend that accepts nothing.\<close>

lemma failed_upload_leaves_spool:
  "bw_finish quiet_os pass_encoder (\<lambda>path loc st. (Inl (StorageError ''refused''), st)) plain_writer
     ([''/tmp/s'' \<mapsto> [1]], []) = (Inl (StorageError ''refused''), [''/tmp/s'' \<mapsto> [1]], [])"
  by (simp add: bw_finish_def bw_trailer_def plain_writer_def open_writer_def flush_buffer_def quiet_os_def)

end
