(* ===== verification/Sftp.thy ===== *)
theory Sftp
  imports Cloud SpoolWriter "HOL-Library.Multiset"
begin

text \<open>
  The operations of the SFTP backend (src/storage/ssh.rs) over a client of crate ssh2, which is a
  parameter: the session that is opened on first use, blobs below the configured directory, and the
  listing by a stack of directories. Also the transfers of S3 (src/storage/s3.rs) between objects and
  local files. What SFTP documents is the hypothesis \<open>sftp_service\<close>; that the directories of a server
  form a finite tree is the locale \<open>remote_tree\<close>.
\<close>

section \<open>Paths\<close>

text \<open>
  \<open>std::path\<close>: the components of a path (\<open>/\<close> for the root, a leading \<open>.\<close>, then the names), appending,
  and what follows the first components of a path.
\<close>

definition junk :: "string \<Rightarrow> bool" where
  "junk seg = (seg = [] \<or> seg = ''.'')"

definition path_head :: "string \<Rightarrow> string list" where
  "path_head p =
     (if starts_with p [slash] then [[slash]] else if hd (split_on slash p) = ''.'' then [''.''] else [])"

definition path_parts :: "string \<Rightarrow> string list" where
  "path_parts p = path_head p @ filter (\<lambda>seg. \<not> junk seg) (split_on slash p)"

definition push_path :: "string \<Rightarrow> string \<Rightarrow> string" where
  "push_path a b =
     (if starts_with b [slash] then b
      else if a = [] then b
      else if last a = slash then a @ b
      else a @ [slash] @ b)"

fun drop_parts :: "nat \<Rightarrow> string list \<Rightarrow> string list" where
  "drop_parts 0 segs = segs"
| "drop_parts (Suc n) segs = drop_parts n (tl (dropWhile junk segs))"

text \<open>\<open>path.strip_prefix(base)\<close>: what is left of the text, junk trimmed at its ends.\<close>

definition strip_base :: "string \<Rightarrow> string \<Rightarrow> string option" where
  "strip_base base p =
     (let n = length (path_parts base); h = length (path_head p); segs = split_on slash p;
          left = (if n = 0 then segs else dropWhile junk (drop_parts (n - h) (if h = 0 then segs else tl segs)))
      in if prefix (path_parts base) (path_parts p)
         then Some (join_with [slash] (rev (dropWhile junk (rev left))))
         else None)"

text \<open>\<open>to_string_lossy().replace('\\', "/")\<close>; the names are UTF-8.\<close>

definition forward_slashes :: "string \<Rightarrow> string" where
  "forward_slashes s = map (\<lambda>c. if c = CHR 0x5C then slash else c) s"

section \<open>The client\<close>

record 's sftp_client =
  sf_tcp :: "string \<Rightarrow> 16 word \<Rightarrow> 's \<Rightarrow> string + unit"
  sf_session :: "'s \<Rightarrow> string + unit"
  sf_handshake :: "'s \<Rightarrow> string + unit"
  sf_auth_key :: "string \<Rightarrow> string \<Rightarrow> 's \<Rightarrow> string + unit"
  sf_auth_password :: "string \<Rightarrow> string \<Rightarrow> 's \<Rightarrow> string + unit"
  sf_channel :: "'s \<Rightarrow> string + unit"
  sf_open :: "string \<Rightarrow> 's \<Rightarrow> (string + bytes) option"
  sf_mkdir :: "string \<Rightarrow> 's \<Rightarrow> 's"
  sf_create :: "string \<Rightarrow> 's \<Rightarrow> (string + unit) \<times> 's"
  sf_write :: "string \<Rightarrow> bytes \<Rightarrow> 's \<Rightarrow> (string + unit) \<times> 's"
  sf_stat :: "string \<Rightarrow> 's \<Rightarrow> string + nat option"
  sf_unlink :: "string \<Rightarrow> 's \<Rightarrow> 's"
  sf_readdir :: "string \<Rightarrow> 's \<Rightarrow> (string \<times> bool) list option"

text \<open>The state: whether the session is open, and the server.\<close>

type_synonym 's ssh = "bool \<times> 's"

text \<open>The steps of connecting in their order; the first that fails ends it.\<close>

definition first_error :: "(string + unit) list \<Rightarrow> string + unit" where
  "first_error rs = (case find isl rs of None \<Rightarrow> Inr () | Some r \<Rightarrow> r)"

definition ssh_connect :: "'s sftp_client \<Rightarrow> ssh_config \<Rightarrow> 's \<Rightarrow> unit res" where
  "ssh_connect c cfg s =
     (let user = default_str (sh_username cfg) ''root'' in
      case sf_tcp c (sh_host cfg) (sh_port cfg) s of
        Inl e \<Rightarrow> Inl (StorageError (''ssh connect: '' @ e))
      | Inr u \<Rightarrow>
          stored [] (first_error
            [sf_session c s, sf_handshake c s,
             case sh_private_key cfg of
               Some key \<Rightarrow> sf_auth_key c user key s
             | None \<Rightarrow> (case sh_password cfg of
                          Some pw \<Rightarrow> sf_auth_password c user pw s
                        | None \<Rightarrow> Inr ())]))"

definition with_session ::
    "'s sftp_client \<Rightarrow> ssh_config \<Rightarrow> ('s \<Rightarrow> 'a res \<times> 's) \<Rightarrow> 's ssh \<Rightarrow> 'a res \<times> 's ssh" where
  "with_session c cfg f st =
     (case st of (up, s) \<Rightarrow>
        (case (if up then Inr () else ssh_connect c cfg s) of
           Inl e \<Rightarrow> (Inl e, False, s)
         | Inr u \<Rightarrow> (case f s of (r, s') \<Rightarrow> (r, True, s'))))"

text \<open>The body of every operation starts with \<open>sess.sftp()\<close>.\<close>

definition on_channel :: "'s sftp_client \<Rightarrow> ('s \<Rightarrow> 'a res \<times> 's) \<Rightarrow> 's \<Rightarrow> 'a res \<times> 's" where
  "on_channel c f s = (case sf_channel c s of Inl e \<Rightarrow> (Inl (StorageError e), s) | Inr u \<Rightarrow> f s)"

definition with_sftp ::
    "'s sftp_client \<Rightarrow> ssh_config \<Rightarrow> ('s \<Rightarrow> 'a res \<times> 's) \<Rightarrow> 's ssh \<Rightarrow> 'a res \<times> 's ssh" where
  "with_sftp c cfg f st = with_session c cfg (on_channel c f) st"

section \<open>The operations\<close>

definition opened :: "'s sftp_client \<Rightarrow> string \<Rightarrow> string \<Rightarrow> 's \<Rightarrow> bytes res" where
  "opened c path remote s =
     (case sf_open c remote s of
        None \<Rightarrow> Inl (NotFound (''blob '' @ quoted path @ '' not found''))
      | Some body \<Rightarrow> stored [] body)"

definition ssh_get :: "'s sftp_client \<Rightarrow> ssh_config \<Rightarrow> string \<Rightarrow> 's ssh \<Rightarrow> bytes res \<times> 's ssh" where
  "ssh_get c cfg path st = with_sftp c cfg (\<lambda>s. (opened c path (remote_path cfg path) s, s)) st"

text \<open>The directories above a path are created one by one, whatever the server answers.\<close>

definition parent_dirs :: "string \<Rightarrow> string list" where
  "parent_dirs remote =
     rev (snd (foldl (\<lambda>(acc, dirs) seg. (push_path acc seg, push_path acc seg # dirs)) ([], [])
       (butlast (path_parts remote))))"

definition make_parents :: "'s sftp_client \<Rightarrow> string \<Rightarrow> 's \<Rightarrow> 's" where
  "make_parents c remote s = fold (sf_mkdir c) (parent_dirs remote) s"

definition store_bytes :: "'s sftp_client \<Rightarrow> string \<Rightarrow> bytes \<Rightarrow> 's \<Rightarrow> unit res \<times> 's" where
  "store_bytes c remote data s =
     (case sf_create c remote s of
        (Inl e, s1) \<Rightarrow> (Inl (StorageError e), s1)
      | (Inr u, s1) \<Rightarrow> map_prod (stored []) id (sf_write c remote data s1))"

definition ssh_put :: "'s sftp_client \<Rightarrow> ssh_config \<Rightarrow> string \<Rightarrow> bytes \<Rightarrow> 's ssh \<Rightarrow> unit res \<times> 's ssh" where
  "ssh_put c cfg path data st =
     with_sftp c cfg
       (\<lambda>s. store_bytes c (remote_path cfg path) data (make_parents c (remote_path cfg path) s)) st"

definition ssh_exists :: "'s sftp_client \<Rightarrow> ssh_config \<Rightarrow> string \<Rightarrow> 's ssh \<Rightarrow> bool res \<times> 's ssh" where
  "ssh_exists c cfg path st =
     with_sftp c cfg (\<lambda>s. (Inr (\<not> isl (sf_stat c (remote_path cfg path) s)), s)) st"

definition ssh_put_file ::
    "os \<Rightarrow> 's sftp_client \<Rightarrow> ssh_config \<Rightarrow> string \<Rightarrow> string \<Rightarrow> disk \<times> 's ssh \<Rightarrow> unit res \<times> disk \<times> 's ssh" where
  "ssh_put_file os c cfg path loc dst =
     (case dst of (d, st) \<Rightarrow>
        (case with_sftp c cfg
                (\<lambda>s. let s1 = make_parents c (remote_path cfg path) s
                     in case os_refuse os (ReadFile loc) d of
                          Some e \<Rightarrow> (Inl (StorageError e), s1)
                        | None \<Rightarrow> store_bytes c (remote_path cfg path) (contents d loc) s1) st of
           (r, st') \<Rightarrow> (r, d, st')))"

definition ssh_get_reader ::
    "os \<Rightarrow> string \<Rightarrow> nat \<Rightarrow> nat \<Rightarrow> 's sftp_client \<Rightarrow> ssh_config \<Rightarrow> string \<Rightarrow> disk \<times> 's ssh
       \<Rightarrow> bytes res \<times> disk \<times> 's ssh" where
  "ssh_get_reader os tmp pid seq c cfg path dst =
     (case dst of (d, st) \<Rightarrow>
        (case download_spool os tmp pid seq d of
           (Inl e, d1) \<Rightarrow> (Inl e, d1, st)
         | (Inr p, d1) \<Rightarrow>
             (case ssh_get c cfg path st of
                (Inl e, st1) \<Rightarrow> (Inl e, d1, st1)
              | (Inr bs, st1) \<Rightarrow>
                  (case copy_chunks os p [bs] None d1 of
                     (Inl e, d2) \<Rightarrow> (Inl e, d2, st1)
                   | (Inr u, d2) \<Rightarrow> (case open_and_remove_spool os p d2 of (r, d3) \<Rightarrow> (r, d3, st1))))))"

section \<open>Listing\<close>

text \<open>
  The loop over a stack of directories, whose top is the head of the list. A directory that cannot be
  read is passed over. On a server whose directories have no end the loop has none either: its value is
  then \<open>None\<close>.
\<close>

definition subdirs :: "(string \<times> bool) list \<Rightarrow> string list" where
  "subdirs es = map fst (filter snd es)"

definition plain_files :: "(string \<times> bool) list \<Rightarrow> string list" where
  "plain_files es = map fst (filter (\<lambda>e. \<not> snd e) es)"

partial_function (option) list_loop ::
    "(string \<Rightarrow> (string \<times> bool) list option) \<Rightarrow> string list \<Rightarrow> string list \<Rightarrow> string list option" where
  "list_loop readdir stack out =
     (case stack of
        [] \<Rightarrow> Some out
      | dir # stack' \<Rightarrow>
          (case readdir dir of
             None \<Rightarrow> list_loop readdir stack' out
           | Some es \<Rightarrow> list_loop readdir (rev (subdirs es) @ stack') (out @ plain_files es)))"

definition listed_files :: "ssh_config \<Rightarrow> string list \<Rightarrow> string list" where
  "listed_files cfg files =
     sort (map forward_slashes (List.map_filter (strip_base (remote_path cfg [])) files))"

definition ssh_list :: "'s sftp_client \<Rightarrow> ssh_config \<Rightarrow> string \<Rightarrow> 's ssh \<Rightarrow> (string list res \<times> 's ssh) option" where
  "ssh_list c cfg pre st =
     (case st of (up, s) \<Rightarrow>
        (case list_loop (\<lambda>d. sf_readdir c d s) [remote_path cfg pre] [] of
           None \<Rightarrow>
             (case with_sftp c cfg (\<lambda>s. (Inr (), s)) st of
                (Inl e, st') \<Rightarrow> Some (Inl e, st')
              | (Inr u, st') \<Rightarrow> None)
         | Some files \<Rightarrow> Some (with_sftp c cfg (\<lambda>s. (Inr (listed_files cfg files), s)) st)))"

definition ssh_list_dumps :: "'s sftp_client \<Rightarrow> ssh_config \<Rightarrow> 's ssh \<Rightarrow> (string list res \<times> 's ssh) option" where
  "ssh_list_dumps c cfg st =
     map_option (\<lambda>(r, st'). (map_sum id (\<lambda>all. remdups_adj (sort (map (\<lambda>p. hd (split_on slash p)) all))) r, st'))
       (ssh_list c cfg [] st)"

fun unlink_all :: "'s sftp_client \<Rightarrow> ssh_config \<Rightarrow> string list \<Rightarrow> 's ssh \<Rightarrow> unit res \<times> 's ssh" where
  "unlink_all c cfg [] st = (Inr (), st)"
| "unlink_all c cfg (rel # rels) st =
     (case with_sftp c cfg (\<lambda>s. (Inr (), sf_unlink c (remote_path cfg rel) s)) st of
        (Inl e, st') \<Rightarrow> (Inl e, st')
      | (Inr u, st') \<Rightarrow> unlink_all c cfg rels st')"

definition ssh_delete :: "'s sftp_client \<Rightarrow> ssh_config \<Rightarrow> string \<Rightarrow> 's ssh \<Rightarrow> (unit res \<times> 's ssh) option" where
  "ssh_delete c cfg pre st =
     map_option (\<lambda>(r, st'). case r of Inl e \<Rightarrow> (Inl e, st') | Inr rels \<Rightarrow> unlink_all c cfg rels st')
       (ssh_list c cfg pre st)"

fun sum_sizes :: "'s sftp_client \<Rightarrow> ssh_config \<Rightarrow> string list \<Rightarrow> nat \<Rightarrow> 's ssh \<Rightarrow> nat res \<times> 's ssh" where
  "sum_sizes c cfg [] n st = (Inr n, st)"
| "sum_sizes c cfg (rel # rels) n st =
     (case with_sftp c cfg
             (\<lambda>s. (map_sum id (\<lambda>sz. or_else sz 0) (stored [] (sf_stat c (remote_path cfg rel) s)), s)) st of
        (Inl e, st') \<Rightarrow> (Inl e, st')
      | (Inr k, st') \<Rightarrow> sum_sizes c cfg rels (n + k) st')"

definition ssh_size :: "'s sftp_client \<Rightarrow> ssh_config \<Rightarrow> string \<Rightarrow> 's ssh \<Rightarrow> (nat res \<times> 's ssh) option" where
  "ssh_size c cfg pre st =
     map_option (\<lambda>(r, st'). case r of Inl e \<Rightarrow> (Inl e, st') | Inr rels \<Rightarrow> sum_sizes c cfg rels 0 st')
       (ssh_list c cfg pre st)"

section \<open>The listing\<close>

text \<open>A file below a directory, through directories the server can read.\<close>

inductive file_below :: "(string \<Rightarrow> (string \<times> bool) list option) \<Rightarrow> string \<Rightarrow> string \<Rightarrow> bool"
  for readdir :: "string \<Rightarrow> (string \<times> bool) list option" where
  here: "readdir dir = Some es \<Longrightarrow> f \<in> set (plain_files es) \<Longrightarrow> file_below readdir dir f"
| deeper: "readdir dir = Some es \<Longrightarrow> sub \<in> set (subdirs es) \<Longrightarrow> file_below readdir sub f \<Longrightarrow>
    file_below readdir dir f"

inductive_simps file_below_iff: "file_below readdir dir f"

lemma file_below_entries:
  "readdir dir = Some es \<Longrightarrow>
     file_below readdir dir f \<longleftrightarrow> f \<in> set (plain_files es) \<or> (\<exists>sub \<in> set (subdirs es). file_below readdir sub f)"
  by (subst file_below_iff) auto

lemma file_below_unreadable: "readdir dir = None \<Longrightarrow> \<not> file_below readdir dir f"
  by (subst file_below_iff) simp

text \<open>The directories of the server form a finite tree: going down decreases a rank.\<close>

locale remote_tree =
  fixes readdir :: "string \<Rightarrow> (string \<times> bool) list option" and rank :: "string \<Rightarrow> nat"
  assumes down: "readdir dir = Some es \<Longrightarrow> sub \<in> set (subdirs es) \<Longrightarrow> rank sub < rank dir"
begin

definition smaller :: "(string list \<times> string list) set" where
  "smaller = inv_image (mult less_than) (\<lambda>stack. image_mset rank (mset stack))"

lemma smaller_wf: "wf smaller"
  by (simp add: smaller_def wf_mult)

lemma smaller_pop: "(stack, dir # stack) \<in> smaller"
  using one_step_implies_mult [of "{#rank dir#}" "{#}" less_than "image_mset rank (mset stack)"]
  by (simp add: smaller_def)

lemma smaller_expand:
  assumes "readdir dir = Some es"
  shows "(rev (subdirs es) @ stack, dir # stack) \<in> smaller"
  using one_step_implies_mult [of "{#rank dir#}" "image_mset rank (mset (subdirs es))" less_than
      "image_mset rank (mset stack)"] down [OF assms]
  by (simp add: smaller_def ac_simps)

lemma list_loop_exact:
  "\<exists>files. list_loop readdir stack out = Some files
     \<and> set files = set out \<union> {f. \<exists>dir \<in> set stack. file_below readdir dir f}"
proof (induction stack arbitrary: out rule: wf_induct_rule [OF smaller_wf])
  case (1 stack)
  show ?case
  proof (cases stack)
    case Nil
    then show ?thesis by (simp add: list_loop.simps)
  next
    case (Cons dir rest)
    show ?thesis
    proof (cases "readdir dir")
      case None
      obtain files where "list_loop readdir rest out = Some files"
          "set files = set out \<union> {f. \<exists>dir \<in> set rest. file_below readdir dir f}"
        using 1 smaller_pop [of rest dir] Cons by blast
      then show ?thesis
        using None Cons file_below_unreadable [of readdir dir, OF None] by (auto simp: list_loop.simps [of readdir "dir # rest"])
    next
      case (Some es)
      obtain files where "list_loop readdir (rev (subdirs es) @ rest) (out @ plain_files es) = Some files"
          "set files = set (out @ plain_files es) \<union>
            {f. \<exists>dir \<in> set (rev (subdirs es) @ rest). file_below readdir dir f}"
        using 1 smaller_expand [OF Some, of rest] Cons by blast
      then show ?thesis
        using Some Cons file_below_entries [of readdir dir es, OF Some] by (auto simp: list_loop.simps [of readdir "dir # rest"])
    qed
  qed
qed

end

section \<open>Sessions\<close>

text \<open>A server that can be reached: connecting works and every operation gets its channel.\<close>

definition reachable :: "'s sftp_client \<Rightarrow> ssh_config \<Rightarrow> bool" where
  "reachable c cfg = (\<forall>s. ssh_connect c cfg s = Inr () \<and> sf_channel c s = Inr ())"

lemma with_sftp_reachable:
  "reachable c cfg \<Longrightarrow> with_sftp c cfg f (up, s) = (case f s of (r, s') \<Rightarrow> (r, True, s'))"
  by (simp add: reachable_def with_sftp_def with_session_def on_channel_def)

section \<open>Where the default settings lead\<close>

text \<open>
  With the default \<open>base_path\<close> the directory listed is the one with the empty name; a server that does not
  know it yields an empty list of dumps, not an error. The root as \<open>base_path\<close> is no base at all.
\<close>

lemma default_base_lists_nothing:
  assumes "reachable c cfg" "sh_base_path cfg = ''.''" "sf_readdir c [] s = None"
  shows "ssh_list_dumps c cfg (up, s) = Some (Inr [], True, s)"
proof -
  have "remote_path cfg [] = []"
    using assms(2) by (simp add: remote_path_def Let_def trim_end_slash_def trim_start_slash_def slash_def)
  then show ?thesis
    using assms(1,3)
    by (simp add: ssh_list_dumps_def ssh_list_def list_loop.simps with_sftp_reachable listed_files_def
        List.map_filter_def)
qed

lemma root_base_is_relative:
  "sh_base_path cfg = ''/'' \<Longrightarrow> remote_path cfg ''d/metadata.json'' = ''d/metadata.json''"
  by (simp add: remote_path_def Let_def trim_end_slash_def trim_start_slash_def slash_def)

section \<open>Lemmas on paths\<close>

lemma split_on_append: "split_on c (a @ c # b) = split_on c a @ split_on c b"
  by (induction a) (auto split: list.splits)

definition plain_name :: "string \<Rightarrow> bool" where
  "plain_name n = (\<not> junk n \<and> slash \<notin> set n)"

lemma path_head_append: "p \<noteq> [] \<Longrightarrow> path_head (p @ slash # q) = path_head p"
proof -
  assume p: "p \<noteq> []"
  then have "starts_with (p @ slash # q) [slash] = starts_with p [slash]" by (cases p) simp_all
  moreover have "hd (split_on slash (p @ slash # q)) = hd (split_on slash p)" by (simp add: split_on_append)
  ultimately show ?thesis by (simp add: path_head_def)
qed

lemma path_parts_simps:
  "path_parts [] = []" "path_parts [slash] = [[slash]]" "path_parts ''.'' = [''.'']"
  "plain_name n \<Longrightarrow> path_parts n = [n]"
proof -
  show "path_parts n = [n]" if "plain_name n"
  proof -
    have "split_on slash n = [n]" "n \<noteq> []"
      using that by (auto simp: plain_name_def junk_def split_on_no_sep)
    moreover have "hd n \<noteq> slash"
      using that by (cases n) (auto simp: plain_name_def junk_def)
    ultimately have "path_head n = []"
      using that by (cases n) (auto simp: path_head_def plain_name_def junk_def)
    then show ?thesis
      using that \<open>split_on slash n = [n]\<close> by (simp add: path_parts_def plain_name_def)
  qed
qed (simp_all add: path_parts_def path_head_def junk_def slash_def)

lemma path_parts_append:
  "p \<noteq> [] \<Longrightarrow> path_parts (p @ slash # q) = path_parts p @ filter (\<lambda>seg. \<not> junk seg) (split_on slash q)"
  by (simp add: path_parts_def path_head_append split_on_append)

lemma path_parts_push:
  assumes "plain_name n"
  shows "path_parts (push_path acc n) = path_parts acc @ [n]"
proof -
  have n: "split_on slash n = [n]" "\<not> junk n" "\<not> starts_with n [slash]"
    using assms by (cases n; auto simp: plain_name_def split_on_no_sep junk_def)+
  consider "acc = []" | b where "acc = b @ [slash]" | "acc \<noteq> []" "last acc \<noteq> slash"
    by (metis append_butlast_last_id)
  then show ?thesis
  proof cases
    case 1
    with n assms show ?thesis by (simp add: push_path_def path_parts_simps)
  next
    case (2 b)
    have acc: "push_path acc n = b @ slash # n" using 2 n by (simp add: push_path_def)
    show ?thesis
    proof (cases "b = []")
      case True
      have "path_parts (slash # n) = [[slash], n]"
        using n by (simp add: path_parts_def path_head_def junk_def)
      with True 2 acc show ?thesis by (simp add: path_parts_simps)
    next
      case False
      with acc 2 n path_parts_append [of b "[]"] path_parts_append [of b n] show ?thesis by (simp add: junk_def)
    qed
  next
    case 3
    with n path_parts_append [of acc n] show ?thesis by (simp add: push_path_def)
  qed
qed

lemma path_parts_valid:
  "\<exists>h ns. path_parts p = h @ ns \<and> h \<in> {[], [[slash]], [''.'']} \<and> (\<forall>n \<in> set ns. plain_name n)"
proof -
  have "path_head p \<in> {[], [[slash]], [''.'']}" by (simp add: path_head_def)
  moreover have "\<forall>n \<in> set (filter (\<lambda>seg. \<not> junk seg) (split_on slash p)). plain_name n"
    by (auto simp: plain_name_def dest: split_on_no_sep_inside)
  ultimately show ?thesis unfolding path_parts_def by blast
qed

lemma path_parts_render:
  "h \<in> {[], [[slash]], [''.'']} \<Longrightarrow> \<forall>n \<in> set ns. plain_name n \<Longrightarrow>
     path_parts (foldl push_path [] (h @ ns)) = h @ ns"
proof (induction ns rule: rev_induct)
  case Nil
  then show ?case by (auto simp: push_path_def path_parts_simps)
qed (simp add: path_parts_push)

lemma parent_dirs_prefix:
  assumes "x \<in> set (parent_dirs remote)"
  shows "prefix (path_parts x) (path_parts remote)"
proof -
  have fold: "set (snd (foldl (\<lambda>(acc, dirs) seg. (push_path acc seg, push_path acc seg # dirs)) (a, ds) xs))
      \<subseteq> set ds \<union> {foldl push_path a ys | ys. prefix ys xs}" for a ds xs
  proof (induction xs arbitrary: a ds)
    case (Cons x xs)
    let ?reach = "{foldl push_path a ys | ys. prefix ys (x # xs)}"
    have "foldl push_path (push_path a x) ys \<in> ?reach" if "prefix ys xs" for ys
      using that by (intro CollectI exI [of _ "x # ys"]) simp
    then have "{foldl push_path (push_path a x) ys | ys. prefix ys xs} \<subseteq> ?reach" by blast
    moreover have "push_path a x \<in> ?reach" by (intro CollectI exI [of _ "[x]"]) simp
    moreover have widen: "A \<subseteq> set (p # ds) \<union> R \<Longrightarrow> R \<subseteq> R' \<Longrightarrow> p \<in> R' \<Longrightarrow> A \<subseteq> set ds \<union> R'" for A p R R'
      by auto
    ultimately show ?case
      by (simp only: foldl.simps prod.case) (rule widen [OF Cons [of "push_path a x" "push_path a x # ds"]])
  qed auto
  obtain ys where ys: "prefix ys (butlast (path_parts remote))" "x = foldl push_path [] ys"
    using assms fold [of "[]" "[]" "butlast (path_parts remote)"] by (auto simp: parent_dirs_def)
  then have pre: "prefix ys (path_parts remote)" by (metis append_butlast_last_id butlast.simps(1) prefix_append)
  obtain h ns where parts: "path_parts remote = h @ ns" "h \<in> {[], [[slash]], [''.'']}" "\<forall>n \<in> set ns. plain_name n"
    using path_parts_valid by blast
  obtain h' ns' where "ys = h' @ ns'" "h' \<in> {[], [[slash]], [''.'']}" "\<forall>n \<in> set ns'. plain_name n"
  proof (cases "length ys < length h")
    case True
    with parts(2) have "ys = []" by auto
    then show thesis using that [of "[]" "[]"] by simp
  next
    case False
    obtain zs where "h @ ns = ys @ zs" using pre parts(1) by (auto simp: prefix_def)
    then have "take (length ys) (h @ ns) = ys" by (metis append_eq_conv_conj)
    then have "ys = take (length ys) h @ take (length ys - length h) ns" by simp
    with False have "ys = h @ take (length ys - length h) ns" by simp
    with parts(2,3) show thesis using that [of h "take (length ys - length h) ns"] by (meson in_set_takeD)
  qed
  with ys(2) pre show ?thesis using path_parts_render [of h' ns'] by simp
qed

section \<open>What SFTP documents\<close>

text \<open>
  The files and directories of the server under their components. Opening and \<open>stat\<close> answer what is there;
  \<open>mkdir\<close> adds at most its directory; creating may truncate, writing stores the bytes or fails.
\<close>

definition sftp_service ::
    "'s sftp_client \<Rightarrow> ('s \<Rightarrow> string list \<Rightarrow> bytes option) \<Rightarrow> ('s \<Rightarrow> string list set) \<Rightarrow> bool" where
  "sftp_service c files dirs =
     ((\<forall>p s. sf_open c p s = map_option Inr (files s (path_parts p)))
      \<and> (\<forall>p s. isl (sf_stat c p s) \<longleftrightarrow> files s (path_parts p) = None \<and> path_parts p \<notin> dirs s)
      \<and> (\<forall>p s. files (sf_mkdir c p s) = files s \<and> dirs (sf_mkdir c p s) \<subseteq> insert (path_parts p) (dirs s))
      \<and> (\<forall>p s r s'. sf_create c p s = (r, s') \<longrightarrow>
           (\<exists>f. files s' = (files s)(path_parts p := f)) \<and> dirs s' = dirs s)
      \<and> (\<forall>p b s r s'. sf_write c p b s = (r, s') \<longrightarrow> dirs s' = dirs s \<and>
           (files s' = (files s)(path_parts p \<mapsto> b) \<or> isl r \<and> (\<exists>f. files s' = (files s)(path_parts p := f)))))"

lemma make_dirs_effect:
  assumes "sftp_service c files dirs"
  shows "files (fold (sf_mkdir c) ps s) = files s \<and> dirs (fold (sf_mkdir c) ps s) \<subseteq> path_parts ` set ps \<union> dirs s"
proof (induction ps arbitrary: s)
  case (Cons p ps)
  have "files (sf_mkdir c p s) = files s \<and> dirs (sf_mkdir c p s) \<subseteq> insert (path_parts p) (dirs s)"
    using assms by (simp add: sftp_service_def)
  with Cons [of "sf_mkdir c p s"] show ?case by auto
qed simp

lemma store_bytes_effect:
  assumes "sftp_service c files dirs" "store_bytes c p b s = (r, s')"
  shows "dirs s' = dirs s \<and> (files s' = (files s)(path_parts p \<mapsto> b) \<or> isl r \<and> (\<exists>f. files s' = (files s)(path_parts p := f)))"
proof -
  obtain q s1 where q: "sf_create c p s = (q, s1)" by (rule prod.exhaust)
  obtain w s2 where w: "sf_write c p b s1 = (w, s2)" by (rule prod.exhaust)
  have "\<exists>f. files s1 = (files s)(path_parts p := f)" "dirs s1 = dirs s"
    using assms(1) q unfolding sftp_service_def by blast+
  moreover have "dirs s2 = dirs s1"
      "files s2 = (files s1)(path_parts p \<mapsto> b) \<or> isl w \<and> (\<exists>f. files s2 = (files s1)(path_parts p := f))"
    using assms(1) w unfolding sftp_service_def by blast+
  ultimately show ?thesis
    using assms(2) q w by (cases q; cases w) (auto simp: store_bytes_def stored_def)
qed

lemma ssh_put_effect:
  assumes "sftp_service c files dirs" "reachable c cfg" "ssh_put c cfg p b st = (r, st')"
  shows "dirs (snd st') \<subseteq> dirs (snd st) \<union> {q. prefix q (path_parts (remote_path cfg p))}
    \<and> (files (snd st') = (files (snd st))(path_parts (remote_path cfg p) \<mapsto> b)
       \<or> isl r \<and> (\<exists>f. files (snd st') = (files (snd st))(path_parts (remote_path cfg p) := f)))"
proof -
  obtain up s where st: "st = (up, s)" by (cases st)
  let ?p = "remote_path cfg p"
  let ?s = "make_parents c ?p s"
  obtain q s1 where q: "store_bytes c ?p b ?s = (q, s1)" by (rule prod.exhaust)
  have "files ?s = files s" "dirs ?s \<subseteq> path_parts ` set (parent_dirs ?p) \<union> dirs s"
    using make_dirs_effect [OF assms(1)] by (auto simp: make_parents_def)
  moreover have "path_parts ` set (parent_dirs ?p) \<subseteq> {q. prefix q (path_parts ?p)}"
    using parent_dirs_prefix by blast
  moreover have "r = q" "snd st' = s1"
    using assms(3) q by (auto simp: st ssh_put_def with_sftp_reachable [OF assms(2)])
  ultimately show ?thesis using store_bytes_effect [OF assms(1) q] st by auto
qed

text \<open>Such a server is a blob store; a path is its components below the configured directory.\<close>

lemma ssh_blob_store:
  assumes "sftp_service c files dirs" "reachable c cfg"
  shows "blob_store (\<lambda>p st. fst (ssh_get c cfg p st)) (ssh_put c cfg) (\<lambda>p st. fst (ssh_exists c cfg p st))
    (\<lambda>p. path_parts (remote_path cfg p)) (\<lambda>st. True)"
proof -
  let ?k = "\<lambda>p. path_parts (remote_path cfg p)"
  have get: "fst (ssh_get c cfg p st) = Inr b \<longleftrightarrow> files (snd st) (?k p) = Some b" for p st b
    using assms(1) by (cases st) (auto simp: ssh_get_def with_sftp_reachable [OF assms(2)] opened_def stored_def
        sftp_service_def split: option.splits)
  have ex: "fst (ssh_exists c cfg p st) = Inr (\<not> (files (snd st) (?k p) = None \<and> ?k p \<notin> dirs (snd st)))" for p st
    using assms(1) by (cases st) (simp add: ssh_exists_def with_sftp_reachable [OF assms(2)] sftp_service_def)
  show ?thesis
  proof
    fix s p d s' assume "ssh_put c cfg p d s = (Inr (), s')"
    from ssh_put_effect [OF assms this] have s': "files (snd s') = (files (snd s))(?k p \<mapsto> d)" by simp
    then show "fst (ssh_get c cfg p s') = Inr d" by (simp add: get)
    show "fst (ssh_get c cfg q s') = Inr b" if "?k q \<noteq> ?k p" "fst (ssh_get c cfg q s) = Inr b" for q b
      using that s' by (simp add: get)
  next
    fix s p d r s' q
    assume "ssh_put c cfg p d s = (r, s')" and q: "fst (ssh_exists c cfg q s') = Inr True"
    from ssh_put_effect [OF assms this(1)] q
    show "fst (ssh_exists c cfg q s) = Inr True \<or> prefix (?k q) (?k p)"
      by (auto simp: ex split: if_splits)
  qed (auto simp: get ex)
qed

text \<open>
  The backend as a \<open>storage\<close>. A listing that never ends has no result; here it is the panic of a caller
  that waits for it.
\<close>

definition ended :: "('a res \<times> 's ssh) option \<Rightarrow> 'a res" where
  "ended r = (case r of None \<Rightarrow> Inl (Panicked ''the listing does not end'') | Some (x, st) \<Rightarrow> x)"

definition ssh_storage :: "'s sftp_client \<Rightarrow> ssh_config \<Rightarrow> 's ssh storage" where
  "ssh_storage c cfg =
     \<lparr>sg_list_dumps = (\<lambda>st. ended (ssh_list_dumps c cfg st)),
      sg_get = (\<lambda>p st. fst (ssh_get c cfg p st)), sg_put = ssh_put c cfg,
      sg_exists = (\<lambda>p st. fst (ssh_exists c cfg p st)),
      sg_delete = (\<lambda>p st. case ssh_delete c cfg p st of
          None \<Rightarrow> (ended (None :: (unit res \<times> 's ssh) option), st) | Some r \<Rightarrow> r),
      sg_list = (\<lambda>p st. ended (ssh_list c cfg p st)), sg_size = (\<lambda>p st. ended (ssh_size c cfg p st))\<rparr>"

lemma clean_plain: "clean_name n \<Longrightarrow> plain_name n"
  by (auto simp: clean_name_def plain_name_def junk_def)

text \<open>The components of the configured directory, and of a path below it.\<close>

definition base_parts :: "ssh_config \<Rightarrow> string list" where
  "base_parts cfg =
     (let base = trim_end_slash (sh_base_path cfg) in if base = [] \<or> base = ''.'' then [] else path_parts base)"

lemma remote_path_parts:
  assumes "xs \<noteq> []" "\<forall>x \<in> set xs. clean_name x"
  shows "path_parts (remote_path cfg (join_with [slash] xs)) = base_parts cfg @ xs"
proof -
  let ?q = "join_with [slash] xs"
  have split: "split_on slash ?q = xs"
    using assms by (intro split_on_join) (auto simp: clean_name_def)
  have names: "filter (\<lambda>seg. \<not> junk seg) xs = xs"
    using assms(2) clean_plain by (auto simp: filter_id_conv plain_name_def)
  obtain x ys where xs: "xs = x # ys" "clean_name x" using assms by (cases xs) auto
  have start: "hd ?q \<noteq> slash" "?q \<noteq> []"
    using xs by (cases x; cases ys; auto simp: clean_name_def)+
  then have trim: "trim_start_slash ?q = ?q" by (cases ?q) (auto simp: trim_start_slash_def)
  have head: "path_head ?q = []"
    using start xs split by (cases ?q) (auto simp: path_head_def clean_name_def)
  show ?thesis
    using path_parts_append [of "trim_end_slash (sh_base_path cfg)" ?q] head split names trim
    by (auto simp: remote_path_def base_parts_def Let_def path_parts_def)
qed

lemma blob_paths:
  "in_dump did (data_path db coll gzip) =
     join_with [slash] (blob_segs did db (coll @ (if gzip then ''.bson.gz'' else ''.bson'')))"
  "in_dump did (meta_path db coll) = join_with [slash] (blob_segs did db (coll @ ''.meta.bson''))"
  by (simp_all add: in_dump_def data_path_def meta_path_def blob_segs_def slash_def)

lemma blob_path_parts:
  assumes "clean_name did" "clean_name db" "slash \<notin> set coll"
  shows "path_parts (remote_path cfg (in_dump did (data_path db coll gzip))) =
      base_parts cfg @ blob_segs did db (coll @ (if gzip then ''.bson.gz'' else ''.bson''))"
    and "path_parts (remote_path cfg (in_dump did (meta_path db coll))) =
      base_parts cfg @ blob_segs did db (coll @ ''.meta.bson'')"
proof -
  have "clean_name (coll @ ''.bson.gz'')" "clean_name (coll @ ''.bson'')" "clean_name (coll @ ''.meta.bson'')"
    using clean_file [OF assms(3)] by (simp_all add: slash_def)
  moreover have "clean_name ''data''" by (simp add: clean_name_def slash_def)
  ultimately have names:
    "\<forall>x \<in> set (blob_segs did db (coll @ (if gzip then ''.bson.gz'' else ''.bson''))). clean_name x"
    "\<forall>x \<in> set (blob_segs did db (coll @ ''.meta.bson'')). clean_name x"
    using assms by (auto simp: blob_segs_def)
  have "blob_segs did db f \<noteq> []" for f by (simp add: blob_segs_def)
  note parts = this [THEN remote_path_parts]
  show "path_parts (remote_path cfg (in_dump did (data_path db coll gzip))) =
      base_parts cfg @ blob_segs did db (coll @ (if gzip then ''.bson.gz'' else ''.bson''))"
    unfolding blob_paths by (rule parts [OF names(1)])
  show "path_parts (remote_path cfg (in_dump did (meta_path db coll))) =
      base_parts cfg @ blob_segs did db (coll @ ''.meta.bson'')"
    unfolding blob_paths by (rule parts [OF names(2)])
qed

text \<open>Unlike the directory backend this one follows \<open>..\<close> out of its directory.\<close>

lemma remote_path_escapes:
  "remote_path \<lparr>sh_host = ''h'', sh_port = 22, sh_username = None, sh_password = None, sh_private_key = None,
     sh_base_path = ''/srv/dumps''\<rparr> ''../../etc/passwd'' = ''/srv/dumps/../../etc/passwd''"
  by (simp add: remote_path_def trim_end_slash_def trim_start_slash_def slash_def)

section \<open>Properties\<close>


text \<open>
  C28. A listing over SFTP ends and is complete: when the directories of the server form a finite tree, the loop
  over the stack of directories returns, in order, exactly the files below the prefix that lie under the
  configured directory, relative to it.
\<close>

theorem sftp_list_exact:
  assumes "reachable c cfg" "remote_tree (\<lambda>dir. sf_readdir c dir s) rank"
  shows "\<exists>rels. ssh_list c cfg pre (up, s) = Some (Inr rels, True, s) \<and> sorted rels
    \<and> set rels = {forward_slashes rel | rel. \<exists>f. file_below (\<lambda>dir. sf_readdir c dir s) (remote_path cfg pre) f
        \<and> strip_base (remote_path cfg []) f = Some rel}"
proof -
  let ?rd = "\<lambda>dir. sf_readdir c dir s"
  obtain files where files: "list_loop ?rd [remote_path cfg pre] [] = Some files"
      "set files = {f. file_below ?rd (remote_path cfg pre) f}"
    using remote_tree.list_loop_exact [OF assms(2), of "[remote_path cfg pre]" "[]"] by auto
  have "set (List.map_filter (strip_base (remote_path cfg [])) files) =
      {rel. \<exists>f. file_below ?rd (remote_path cfg pre) f \<and> strip_base (remote_path cfg []) f = Some rel}"
    using files(2) by (force simp: List.map_filter_def)
  then have "set (listed_files cfg files) = {forward_slashes rel | rel. \<exists>f. file_below ?rd (remote_path cfg pre) f
        \<and> strip_base (remote_path cfg []) f = Some rel}"
    by (auto simp: listed_files_def)
  moreover have "sorted (listed_files cfg files)" by (simp add: listed_files_def)
  ultimately show ?thesis
    using files(1) by (auto simp: ssh_list_def with_sftp_reachable [OF assms(1)])
qed

section \<open>Transfers through local files\<close>

text \<open>
  S3 sends a local file as one object, and downloads an object into a local file. \<open>body\<close> is the answer to
  \<open>get_object\<close> as the SDK streams it: nothing when the request fails, else the chunks and how they end.
\<close>

definition s3_put_file ::
    "os \<Rightarrow> 's s3_client \<Rightarrow> s3_config \<Rightarrow> string \<Rightarrow> string \<Rightarrow> disk \<times> 's \<Rightarrow> unit res \<times> disk \<times> 's" where
  "s3_put_file os c cfg path loc dst =
     (case dst of (d, s) \<Rightarrow>
        (case os_refuse os (ReadFile loc) d of
           Some e \<Rightarrow> (Inl (StorageError e), d, s)
         | None \<Rightarrow> (case s3_put c cfg path (contents d loc) s of (r, s') \<Rightarrow> (r, d, s'))))"

definition s3_get_reader ::
    "os \<Rightarrow> string \<Rightarrow> nat \<Rightarrow> nat \<Rightarrow> (string \<Rightarrow> 's \<Rightarrow> (bytes list \<times> string option) option) \<Rightarrow> s3_config \<Rightarrow> string
       \<Rightarrow> disk \<times> 's \<Rightarrow> bytes res \<times> disk \<times> 's" where
  "s3_get_reader os tmp pid seq body cfg path dst =
     (case dst of (d, s) \<Rightarrow>
        (case body (object_key cfg path) s of
           None \<Rightarrow> (Inl (NotFound (''blob '' @ quoted path @ '' not found'')), d, s)
         | Some (chunks, end) \<Rightarrow>
             (case download_spool os tmp pid seq d of
                (Inl e, d1) \<Rightarrow> (Inl e, d1, s)
              | (Inr p, d1) \<Rightarrow>
                  (case copy_chunks os p chunks end d1 of
                     (Inl e, d2) \<Rightarrow> (Inl e, d2, s)
                   | (Inr u, d2) \<Rightarrow> (case open_and_remove_spool os p d2 of (r, d3) \<Rightarrow> (r, d3, s))))))"

lemma copy_chunks_quiet:
  "quiet os \<Longrightarrow> d p = Some b \<Longrightarrow> copy_chunks os p cs None d = (Inr (), d(p \<mapsto> b @ concat cs))"
proof (induction cs arbitrary: d b)
  case Nil
  then show ?case by (simp add: fun_upd_idem)
next
  case (Cons c cs)
  then have wr: "disk_write os p c d = (Inr (), d(p \<mapsto> b @ c))" by (simp add: quiet_ops contents_def)
  have rest: "copy_chunks os p cs None (d(p \<mapsto> b @ c)) = (Inr (), d(p \<mapsto> b @ c, p \<mapsto> (b @ c) @ concat cs))"
    by (rule Cons.IH [OF Cons.prems(1)]) simp
  show ?case by (simp only: copy_chunks.simps wr prod.case sum.case rest fun_upd_upd concat.simps append_assoc)
qed

text \<open>What a download that ends well leaves on the disk, and what a failed one leaves.\<close>

abbreviation spool_of :: "string \<Rightarrow> nat \<Rightarrow> nat \<Rightarrow> string" where
  "spool_of tmp pid seq \<equiv> tmp @ [slash] @ download_name pid seq"

lemma spooled_download:
  assumes "quiet os" "d (spool_of tmp pid seq) = None"
  shows "(case download_spool os tmp pid seq d of
      (Inl e, d1) \<Rightarrow> (Inl e, d1)
    | (Inr p, d1) \<Rightarrow> (case copy_chunks os p cs None d1 of
        (Inl e, d2) \<Rightarrow> (Inl e, d2) | (Inr u, d2) \<Rightarrow> open_and_remove_spool os p d2)) = (Inr (concat cs), d)"
proof -
  let ?p = "spool_of tmp pid seq"
  have "download_spool os tmp pid seq d = (Inr ?p, d(?p \<mapsto> []))"
    using assms(1) by (simp add: download_spool_def Let_def quiet_ops)
  moreover have "copy_chunks os ?p cs None (d(?p \<mapsto> [])) = (Inr (), d(?p \<mapsto> [], ?p \<mapsto> [] @ concat cs))"
    by (rule copy_chunks_quiet [OF assms(1)]) simp
  moreover have "open_and_remove_spool os ?p (d(?p \<mapsto> concat cs)) = (Inr (concat cs), d)"
    using assms by (simp add: open_and_remove_spool_def quiet_ops contents_def fun_upd_idem)
  ultimately show ?thesis by (simp only: prod.case sum.case fun_upd_upd append_Nil)
qed

lemma s3_download_exact:
  assumes "quiet os" "d (spool_of tmp pid seq) = None" "body (object_key cfg path) s = Some (chunks, None)"
  shows "s3_get_reader os tmp pid seq body cfg path (d, s) = (Inr (concat chunks), d, s)"
  using spooled_download [of os d tmp pid seq chunks] assms
  by (auto simp: s3_get_reader_def split: prod.splits sum.splits)

lemma sftp_download_leaves_spool:
  assumes "quiet os" "ssh_get c cfg path st = (Inl e, st')"
  shows "ssh_get_reader os tmp pid seq c cfg path (d, st) = (Inl e, d(spool_of tmp pid seq \<mapsto> []), st')"
  using assms by (simp add: ssh_get_reader_def download_spool_def Let_def quiet_ops)

lemma s3_download_leaves_spool:
  assumes "quiet os" "body (object_key cfg path) s = Some ([], Some e)"
  shows "s3_get_reader os tmp pid seq body cfg path (d, s) =
    (Inl (StorageError e), d(spool_of tmp pid seq \<mapsto> []), s)"
  using assms by (simp add: s3_get_reader_def download_spool_def Let_def quiet_ops)

section \<open>A server in memory\<close>

text \<open>A server that keeps its files and directories under their components, as a client sees it.\<close>

definition tree_files :: "fsys \<Rightarrow> string list \<Rightarrow> bytes option" where
  "tree_files s q = (case kv_get q s of Some (Some b) \<Rightarrow> Some b | _ \<Rightarrow> None)"

definition tree_dirs :: "fsys \<Rightarrow> string list set" where
  "tree_dirs s = {q. kv_get q s = Some None}"

definition children :: "fsys \<Rightarrow> string \<Rightarrow> (string \<times> bool) list" where
  "children s dir =
     map (\<lambda>(q, n). (push_path dir (last q), n = None))
       (filter (\<lambda>(q, n). q \<noteq> [] \<and> butlast q = path_parts dir \<and> plain_name (last q)) s)"

definition mem_sftp :: "fsys sftp_client" where
  "mem_sftp =
     \<lparr>sf_tcp = (\<lambda>h p s. Inr ()), sf_session = (\<lambda>s. Inr ()), sf_handshake = (\<lambda>s. Inr ()),
      sf_auth_key = (\<lambda>u k s. Inr ()), sf_auth_password = (\<lambda>u p s. Inr ()), sf_channel = (\<lambda>s. Inr ()),
      sf_open = (\<lambda>p s. map_option Inr (tree_files s (path_parts p))),
      sf_mkdir = (\<lambda>p s. if kv_get (path_parts p) s = None then ix_insert (path_parts p) None s else s),
      sf_create = (\<lambda>p s. if kv_get (path_parts p) s = Some None then (Inl ''failure'', s)
                         else (Inr (), ix_insert (path_parts p) (Some []) s)),
      sf_write = (\<lambda>p b s. if kv_get (path_parts p) s = Some None then (Inl ''failure'', s)
                         else (Inr (), ix_insert (path_parts p) (Some b) s)),
      sf_stat = (\<lambda>p s. case kv_get (path_parts p) s of
                   None \<Rightarrow> Inl ''no such file'' | Some n \<Rightarrow> Inr (map_option length n)),
      sf_unlink = (\<lambda>p s. if tree_files s (path_parts p) = None then s
                        else filter (\<lambda>e. fst e \<noteq> path_parts p) s),
      sf_readdir = (\<lambda>dir s. if kv_get (path_parts dir) s = Some None then Some (children s dir) else None)\<rparr>"

lemma mem_sftp_service: "sftp_service mem_sftp tree_files tree_dirs"
proof -
  have ins: "tree_files (ix_insert q (Some b) s) = (tree_files s)(q \<mapsto> b)"
    "kv_get q s \<noteq> Some None \<Longrightarrow> tree_dirs (ix_insert q (Some b) s) = tree_dirs s" for q b s
    by (auto simp: tree_files_def tree_dirs_def ix_get_insert fun_eq_iff)
  moreover have "kv_get q s = None \<Longrightarrow> tree_files (ix_insert q None s) = tree_files s"
    "tree_dirs (ix_insert q None s) = insert q (tree_dirs s)" for q s
    by (auto simp: tree_files_def tree_dirs_def ix_get_insert fun_eq_iff)
  moreover have "\<exists>f. tree_files s = (tree_files s)(q := f)" for q s
    by (metis fun_upd_triv)
  moreover have "isl (case kv_get q s of None \<Rightarrow> Inl ''no such file'' | Some n \<Rightarrow> Inr (map_option length n))
      \<longleftrightarrow> tree_files s q = None \<and> q \<notin> tree_dirs s" for q s
    by (auto simp: tree_files_def tree_dirs_def split: option.splits)
  ultimately show ?thesis
    unfolding sftp_service_def mem_sftp_def by (auto split: if_splits)
qed

lemma mem_sftp_reachable: "reachable mem_sftp cfg"
  by (auto simp: reachable_def ssh_connect_def Let_def first_error_def mem_sftp_def stored_def split: option.splits)

text \<open>Its directories form a finite tree: what a directory lists lies one component deeper.\<close>

definition depth_left :: "fsys \<Rightarrow> string \<Rightarrow> nat" where
  "depth_left s dir = foldr max (map (\<lambda>e. length (fst e)) s) 0 - length (path_parts dir)"

lemma member_below_max: "x \<in> set xs \<Longrightarrow> (x :: nat) \<le> foldr max xs 0"
  by (induction xs) auto

interpretation mem_tree: remote_tree "\<lambda>dir. sf_readdir mem_sftp dir s" "depth_left s" for s
proof
  fix dir es sub
  assume "sf_readdir mem_sftp dir s = Some es" "sub \<in> set (subdirs es)"
  then obtain q n where q: "(q, n) \<in> set s" "q \<noteq> []" "butlast q = path_parts dir" "plain_name (last q)"
      "sub = push_path dir (last q)"
    by (auto simp: mem_sftp_def subdirs_def children_def split: if_splits)
  then have sub: "path_parts sub = q" by (simp add: path_parts_push) (metis append_butlast_last_id)
  have "length q \<le> foldr max (map (\<lambda>e. length (fst e)) s) 0"
    using q(1) by (intro member_below_max) force
  moreover have "length (path_parts dir) < length q" using q(2,3) by (cases q rule: rev_cases) auto
  ultimately show "depth_left s sub < depth_left s dir" by (simp add: depth_left_def sub)
qed

text \<open>A server with one dump on it.\<close>

definition dump_server :: ssh_config where
  "dump_server = \<lparr>sh_host = ''h'', sh_port = 22, sh_username = None, sh_password = None, sh_private_key = None,
     sh_base_path = ''/srv''\<rparr>"

definition one_dump :: fsys where
  "one_dump = [([[slash]], None), ([[slash], ''srv''], None), ([[slash], ''srv'', ''x''], None),
     ([[slash], ''srv'', ''x'', ''f''], Some [1, 2]), ([[slash], ''srv'', ''x'', ''data''], None),
     ([[slash], ''srv'', ''x'', ''data'', ''g''], Some [3])]"

theorem sftp_list_exact_witness:
  "\<exists>rels. ssh_list mem_sftp dump_server ''x'' (False, one_dump) = Some (Inr rels, True, one_dump) \<and> sorted rels
    \<and> set rels = {forward_slashes rel | rel. \<exists>f. file_below (\<lambda>dir. sf_readdir mem_sftp dir one_dump)
          (remote_path dump_server ''x'') f \<and> strip_base (remote_path dump_server []) f = Some rel}"
  by (rule sftp_list_exact [OF mem_sftp_reachable mem_tree.remote_tree_axioms])


end
