(* ===== verification/CommandTransformer.thy ===== *)
theory CommandTransformer
  imports Transform
begin

text \<open>
  The command driver of the custom transformers (src/transform/custom.rs, \<open>CommandTransformer\<close>): a process
  that stays alive and exchanges one JSON value per line, and the conversions between BSON and JSON.

  The process is a parameter (\<open>child\<close>) with its own state, so a call of the transformer is a state
  transition; reading a line from a process that neither answers nor exits waits forever, which is the
  value \<open>None\<close>. The text of a JSON value (crate serde_json) is a parameter too (\<open>json_text\<close>). The locale
  \<open>line_process\<close> is what a process of this protocol promises: one line of output for a line of input.
  Under it the calls of one transformer are the pure transformer that the rest of the development uses.
\<close>

section \<open>JSON values\<close>

text \<open>\<open>serde_json::Number\<close> and \<open>serde_json::Value\<close>; objects keep the order of insertion.\<close>

datatype jnumber = JPosInt "64 word" | JNegInt i64 | JFloat f64

datatype jvalue =
    VNull
  | VBool bool
  | VNumber jnumber
  | VString string
  | VArray "jvalue list"
  | VObject "(string \<times> jvalue) list"

definition jnumber_of_i64 :: "i64 \<Rightarrow> jnumber" where
  "jnumber_of_i64 v = (if 0 \<le>s v then JPosInt v else JNegInt v)"

definition jnumber_from_f64 :: "f64 \<Rightarrow> jnumber option" where
  "jnumber_from_f64 x = (if is_nan x \<or> is_inf x then None else Some (JFloat x))"

fun jnumber_as_i64 :: "jnumber \<Rightarrow> i64 option" where
  "jnumber_as_i64 (JPosInt u) = (if int (unat u) \<le> i64_max then Some u else None)"
| "jnumber_as_i64 (JNegInt v) = Some v"
| "jnumber_as_i64 (JFloat x) = None"

fun jnumber_as_f64 :: "jnumber \<Rightarrow> f64" where
  "jnumber_as_f64 (JPosInt u) = f64_of_int (uint u)"
| "jnumber_as_f64 (JNegInt v) = f64_of_int (sint v)"
| "jnumber_as_f64 (JFloat x) = x"

section \<open>Conversions\<close>

fun bson_to_json :: "ext \<Rightarrow> bson \<Rightarrow> jvalue"
  and list_to_json :: "ext \<Rightarrow> bson list \<Rightarrow> jvalue list"
  and fields_to_json :: "ext \<Rightarrow> document \<Rightarrow> (string \<times> jvalue) list \<Rightarrow> (string \<times> jvalue) list" where
  "bson_to_json E BNull = VNull"
| "bson_to_json E (BBoolean b) = VBool b"
| "bson_to_json E (BInt32 v) = VNumber (jnumber_of_i64 (scast v))"
| "bson_to_json E (BInt64 v) = VNumber (jnumber_of_i64 v)"
| "bson_to_json E (BDouble x) = (case jnumber_from_f64 x of Some n \<Rightarrow> VNumber n | None \<Rightarrow> VNull)"
| "bson_to_json E (BString s) = VString s"
| "bson_to_json E (BArray xs) = VArray (list_to_json E xs)"
| "bson_to_json E (BDocument d) = VObject (fields_to_json E d [])"
| "bson_to_json E b = VString (bson_to_string E b)"
| "list_to_json E [] = []"
| "list_to_json E (x # xs) = bson_to_json E x # list_to_json E xs"
| "fields_to_json E [] m = m"
| "fields_to_json E ((k, v) # d) m = fields_to_json E d (ix_insert k (bson_to_json E v) m)"

fun json_to_bson :: "jvalue \<Rightarrow> bson"
  and list_to_bson :: "jvalue list \<Rightarrow> bson list"
  and fields_to_bson :: "(string \<times> jvalue) list \<Rightarrow> document \<Rightarrow> document" where
  "json_to_bson VNull = BNull"
| "json_to_bson (VBool b) = BBoolean b"
| "json_to_bson (VNumber n) =
     (case jnumber_as_i64 n of Some i \<Rightarrow> BInt64 i | None \<Rightarrow> BDouble (jnumber_as_f64 n))"
| "json_to_bson (VString s) = BString s"
| "json_to_bson (VArray xs) = BArray (list_to_bson xs)"
| "json_to_bson (VObject fs) = BDocument (fields_to_bson fs [])"
| "list_to_bson [] = []"
| "list_to_bson (x # xs) = json_to_bson x # list_to_bson xs"
| "fields_to_bson [] d = d"
| "fields_to_bson ((k, v) # fs) d = fields_to_bson fs (doc_insert k (json_to_bson v) d)"

section \<open>The process\<close>

definition newline :: char where
  "newline = CHR 0x0A"

text \<open>
  Writing a line and flushing it, and reading a line with its end, which is empty at the end of the
  output. \<open>js_show\<close> and \<open>js_parse\<close> are \<open>serde_json::to_string\<close> and \<open>from_str\<close>; a \<open>Value\<close> can always be printed.
\<close>

record 'p child =
  ch_write :: "string \<Rightarrow> 'p \<Rightarrow> (string + unit) \<times> 'p"
  ch_read_line :: "'p \<Rightarrow> ((string + string) \<times> 'p) option"

record json_text =
  js_show :: "jvalue \<Rightarrow> string"
  js_parse :: "string \<Rightarrow> string + jvalue"

definition command_spawn :: "(string \<Rightarrow> string list \<Rightarrow> string + 'p) \<Rightarrow> string list \<Rightarrow> (string list \<times> 'p) res" where
  "command_spawn start argv =
     (case argv of
        [] \<Rightarrow> Inl (TransformError ''empty custom command'')
      | bin # args \<Rightarrow>
          (case start bin args of
             Inl e \<Rightarrow> Inl (TransformError (''cannot spawn '' @ quoted bin @ '': '' @ e))
           | Inr p \<Rightarrow> Inr (argv, p)))"

definition parse_answer :: "json_text \<Rightarrow> string \<Rightarrow> bson res" where
  "parse_answer J line =
     (case js_parse J (trim_end line) of
        Inl e \<Rightarrow> Inl (TransformError (''custom transformer bad output: '' @ e))
      | Inr j \<Rightarrow> Inr (json_to_bson j))"

definition command_transform ::
    "ext \<Rightarrow> json_text \<Rightarrow> 'p child \<Rightarrow> string list \<Rightarrow> bson \<Rightarrow> 'p \<Rightarrow> (bson res \<times> 'p) option" where
  "command_transform E J c argv v p =
     (let who = ''custom transformer '' @ quoted (hd argv) in
      case ch_write c (js_show J (bson_to_json E v) @ [newline]) p of
        (Inl e, p1) \<Rightarrow> Some (Inl (TransformError (who @ '' write failed: '' @ e)), p1)
      | (Inr u, p1) \<Rightarrow>
          (case ch_read_line c p1 of
             None \<Rightarrow> None
           | Some (Inl e, p2) \<Rightarrow> Some (Inl (TransformError (''custom transformer read failed: '' @ e)), p2)
           | Some (Inr line, p2) \<Rightarrow>
               if line = [] then Some (Inl (TransformError (who @ '' produced no output (process exited)'')), p2)
               else Some (parse_answer J line, p2)))"

text \<open>The calls for a sequence of values, one record after the other, on the same process.\<close>

fun command_calls ::
    "ext \<Rightarrow> json_text \<Rightarrow> 'p child \<Rightarrow> string list \<Rightarrow> bson list \<Rightarrow> 'p \<Rightarrow> (bson res list \<times> 'p) option" where
  "command_calls E J c argv [] p = Some ([], p)"
| "command_calls E J c argv (v # vs) p =
     (case command_transform E J c argv v p of
        None \<Rightarrow> None
      | Some (r, p1) \<Rightarrow> map_option (\<lambda>(rs, p2). (r # rs, p2)) (command_calls E J c argv vs p1))"

section \<open>The protocol\<close>

text \<open>
  A process that answers every line it is sent with one line: \<open>pending\<close> are the answers it has written
  that nobody has read.
\<close>

locale line_process =
  fixes put_line :: "string \<Rightarrow> 'p \<Rightarrow> (string + unit) \<times> 'p"
    and get_line :: "'p \<Rightarrow> ((string + string) \<times> 'p) option"
    and pending :: "'p \<Rightarrow> string list" and reply :: "string \<Rightarrow> string"
  assumes put: "newline \<notin> set line \<Longrightarrow>
      \<exists>p'. put_line (line @ [newline]) p = (Inr (), p') \<and> pending p' = pending p @ [reply line]"
    and got: "pending p = line # rest \<Longrightarrow> \<exists>p'. get_line p = Some (Inr (line @ [newline]), p') \<and> pending p' = rest"
begin

text \<open>A call sends its line and takes the oldest answer there is.\<close>

lemma call:
  assumes "newline \<notin> set line"
  obtains p1 p2 first where "put_line (line @ [newline]) p = (Inr (), p1)"
    and "get_line p1 = Some (Inr (first @ [newline]), p2)"
    and "first # pending p2 = pending p @ [reply line]"
proof -
  obtain p1 where p1: "put_line (line @ [newline]) p = (Inr (), p1)" "pending p1 = pending p @ [reply line]"
    using put [OF assms] by blast
  obtain first rest where f: "pending p1 = first # rest" using p1(2) by (metis append_is_Nil_conv list.exhaust not_Cons_self2)
  with p1 got [OF f] that show thesis by metis
qed

end

definition one_line :: "json_text \<Rightarrow> bool" where
  "one_line J = (\<forall>j. newline \<notin> set (js_show J j))"

definition pure_command :: "ext \<Rightarrow> json_text \<Rightarrow> (string \<Rightarrow> string) \<Rightarrow> bson \<Rightarrow> bson res" where
  "pure_command E J reply v = parse_answer J (reply (js_show J (bson_to_json E v)) @ [newline])"

text \<open>What the calls return: the oldest lines there are, whatever they answer.\<close>

definition sent_line :: "ext \<Rightarrow> json_text \<Rightarrow> bson \<Rightarrow> string" where
  "sent_line E J v = js_show J (bson_to_json E v)"

lemma command_calls_queue:
  assumes "line_process (ch_write c) (ch_read_line c) pending reply" "one_line J"
  shows "\<exists>p'. command_calls E J c argv vs p =
      Some (map (\<lambda>line. parse_answer J (line @ [newline]))
              (take (length vs) (pending p @ map (\<lambda>v. reply (sent_line E J v)) vs)), p')
    \<and> pending p' = drop (length vs) (pending p @ map (\<lambda>v. reply (sent_line E J v)) vs)"
proof (induction vs arbitrary: p)
  case (Cons v vs)
  have "newline \<notin> set (sent_line E J v)" using assms(2) by (simp add: one_line_def sent_line_def)
  from line_process.call [OF assms(1) this, of p] obtain p1 p2 first where
    wrote: "ch_write c (sent_line E J v @ [newline]) p = (Inr (), p1)" and
    got: "ch_read_line c p1 = Some (Inr (first @ [newline]), p2)" and
    queue: "first # pending p2 = pending p @ [reply (sent_line E J v)]" .
  have one: "command_transform E J c argv v p = Some (parse_answer J (first @ [newline]), p2)"
    using wrote got by (simp add: command_transform_def sent_line_def)
  have all: "pending p @ map (\<lambda>v. reply (sent_line E J v)) (v # vs) =
      first # pending p2 @ map (\<lambda>v. reply (sent_line E J v)) vs"
    using queue by simp
  from Cons.IH [of p2] one show ?case unfolding all by (auto simp del: take_append drop_append)
qed simp

text \<open>A line the process wrote on its own is taken for the first answer, and every later answer is late.\<close>

lemma stale_line_shifts:
  assumes "line_process (ch_write c) (ch_read_line c) pending reply" "one_line J" "pending p = [stale]"
  shows "\<exists>p'. command_calls E J c argv [v, w] p =
    Some ([parse_answer J (stale @ [newline]), pure_command E J reply v], p')"
  using command_calls_queue [OF assms(1,2), of E argv "[v, w]" p] assms(3)
  by (auto simp: pure_command_def sent_line_def)

lemma jnumber_back: "jnumber_as_i64 (jnumber_of_i64 v) = Some v"
proof -
  have "int (unat v) \<le> i64_max" if "0 \<le> sint v"
  proof -
    have "sint v < 2 ^ 63" using sint_lt [of v] by simp
    moreover from this that have "uint v = sint v" by (simp add: uint_sint take_bit_eq_mod)
    ultimately show ?thesis by (simp add: i64_max_def)
  qed
  then show ?thesis by (simp add: jnumber_of_i64_def word_sle_eq)
qed

text \<open>A 32-bit integer that goes through a process comes back with 64 bits, whatever the process does with it.\<close>

lemma answers_widen: "json_to_bson (bson_to_json E (BInt32 v)) = BInt64 (scast v)"
  by (simp add: jnumber_back)

section \<open>Types\<close>

text \<open>The BSON types an answer can have: no 32-bit integer, date, object id, binary or decimal.\<close>

function json_typed :: "bson \<Rightarrow> bool" where
  "json_typed BNull = True"
| "json_typed (BBoolean b) = True"
| "json_typed (BInt64 v) = True"
| "json_typed (BDouble x) = True"
| "json_typed (BString s) = True"
| "json_typed (BArray xs) = (\<forall>x \<in> set xs. json_typed x)"
| "json_typed (BDocument d) = (distinct (map fst d) \<and> (\<forall>v \<in> set (map snd d). json_typed v))"
| "json_typed (BInt32 v) = False"
| "json_typed (BDateTime t) = False"
| "json_typed (BObjectId i) = False"
| "json_typed (BBinary k bs) = False"
| "json_typed (BDecimal128 bs) = False"
| "json_typed (BOther k s) = False"
  by pat_completeness auto
termination
proof (relation "measure size")
  fix xs and x :: bson
  assume "x \<in> set xs"
  from size_list_estimation' [OF this, of "size x" size] show "(x, BArray xs) \<in> measure size" by simp
next
  fix d :: document and v
  assume "v \<in> set (map snd d)"
  then obtain k where "(k, v) \<in> set d" by auto
  from size_list_estimation' [OF this, of "size v" "size_prod (\<lambda>x. 0) size"]
  show "(v, BDocument d) \<in> measure size" by simp
qed simp

fun finite_doubles :: "bson \<Rightarrow> bool"
  and finite_list :: "bson list \<Rightarrow> bool"
  and finite_fields :: "document \<Rightarrow> bool" where
  "finite_doubles (BDouble x) = (\<not> is_nan x \<and> \<not> is_inf x)"
| "finite_doubles (BArray xs) = finite_list xs"
| "finite_doubles (BDocument d) = finite_fields d"
| "finite_doubles b = True"
| "finite_list [] = True"
| "finite_list (x # xs) = (finite_doubles x \<and> finite_list xs)"
| "finite_fields [] = True"
| "finite_fields ((k, v) # d) = (finite_doubles v \<and> finite_fields d)"

lemma typed_insert:
  assumes "json_typed v" "json_typed (BDocument d)"
  shows "json_typed (BDocument (doc_insert k v d))"
proof -
  have "set (map snd (doc_insert k v d)) \<subseteq> insert v (set (map snd d))"
    by (induction k v d rule: ix_insert.induct) auto
  with assms ix_insert_distinct [of d k v] show ?thesis unfolding json_typed.simps by blast
qed

lemma json_to_bson_typed:
  "json_typed (json_to_bson j)"
  "\<forall>x \<in> set (list_to_bson js). json_typed x"
  "json_typed (BDocument d) \<Longrightarrow> json_typed (BDocument (fields_to_bson fs d))"
proof (induction j and js and fs d rule: json_to_bson_list_to_bson_fields_to_bson.induct)
  case (9 d)
  then show ?case by simp
next
  case (10 k v fs d)
  then show ?case using typed_insert [of "json_to_bson v" d k] by simp
qed (auto split: option.splits)

text \<open>Inserting under distinct keys keeps the order.\<close>

lemma ix_insert_new: "k \<notin> fst ` set m \<Longrightarrow> ix_insert k v m = m @ [(k, v)]"
  by (induction k v m rule: ix_insert.induct) auto

lemma fields_to_json_map:
  "distinct (map fst m @ map fst d) \<Longrightarrow> fields_to_json E d m = m @ map (\<lambda>(k, v). (k, bson_to_json E v)) d"
  by (induction d arbitrary: m) (auto simp: ix_insert_new)

lemma fields_to_bson_map:
  "distinct (map fst d @ map fst fs) \<Longrightarrow> fields_to_bson fs d = d @ map (\<lambda>(k, v). (k, json_to_bson v)) fs"
  by (induction fs arbitrary: d) (auto simp: ix_insert_new)

lemma json_round_trip:
  "json_typed b \<Longrightarrow> finite_doubles b \<Longrightarrow> json_to_bson (bson_to_json E b) = b"
  "\<forall>x \<in> set xs. json_typed x \<Longrightarrow> finite_list xs \<Longrightarrow> list_to_bson (list_to_json E xs) = xs"
  "\<forall>v \<in> set (map snd d). json_typed v \<Longrightarrow> finite_fields d \<Longrightarrow>
     map (\<lambda>(k, v). (k, json_to_bson (bson_to_json E v))) d = d"
proof (induction b and xs and d rule: finite_doubles_finite_list_finite_fields.induct)
  case (3 d)
  then show ?case
    by (simp add: fields_to_json_map [of "[]", simplified] fields_to_bson_map [of "[]", simplified]
        comp_def case_prod_beta)
qed (auto simp: jnumber_from_f64_def jnumber_back)

section \<open>Properties\<close>

text \<open>
  C20. The answers stay in step: as long as the process writes one line for each line it reads, and nothing
  is left over from before, every call returns the answer to its own value, so that the stateful
  transformer is the pure one the transformation plan works with, and nothing is left over afterwards.
\<close>

theorem command_in_step:
  assumes "line_process (ch_write c) (ch_read_line c) pending reply" "one_line J" "pending p = []"
  shows "\<exists>p'. command_calls E J c argv vs p = Some (map (pure_command E J reply) vs, p') \<and> pending p' = []"
  using command_calls_queue [OF assms(1,2), of E argv vs p] assms(3)
  by (auto simp: pure_command_def sent_line_def comp_def)


text \<open>
  C24. Whatever the process answers, the value a command transformer writes has a JSON type, with distinct
  keys in every document: never a 32-bit integer, a date, an object id, binary data or a decimal.
\<close>

theorem command_answer_type:
  assumes "command_transform E J c argv v p = Some (Inr out, p')"
  shows "json_typed out"
  using assms json_to_bson_typed(1)
  by (auto simp: command_transform_def parse_answer_def Let_def split: prod.splits sum.splits option.splits if_splits)

section \<open>A process\<close>

text \<open>A process that computes a line from each line it reads; \<open>cat\<close> is the one that computes nothing.\<close>

definition piped :: "(string \<Rightarrow> string) \<Rightarrow> string list child" where
  "piped g =
     \<lparr>ch_write = (\<lambda>text q. (Inr (), q @ [g (takeWhile (\<lambda>c. c \<noteq> newline) text)])),
      ch_read_line = (\<lambda>q. case q of [] \<Rightarrow> None | line # rest \<Rightarrow> Some (Inr (line @ [newline]), rest))\<rparr>"

lemma takeWhile_line: "newline \<notin> set line \<Longrightarrow> takeWhile (\<lambda>c. c \<noteq> newline) (line @ [newline]) = line"
  by (induction line) auto

interpretation piped: line_process "ch_write (piped g)" "ch_read_line (piped g)" "\<lambda>q. q" g for g
  by unfold_locales (auto simp: piped_def takeWhile_line)

definition small_json :: json_text where
  "small_json =
     \<lparr>js_show = (\<lambda>j. case j of VNull \<Rightarrow> ''null'' | VBool b \<Rightarrow> if b then ''true'' else ''false'' | _ \<Rightarrow> ''0''),
      js_parse = (\<lambda>s. if s = ''null'' then Inr VNull else if s = ''true'' then Inr (VBool True)
                     else if s = ''false'' then Inr (VBool False) else Inl ''not JSON'')\<rparr>"

lemma small_json_one_line: "one_line small_json"
  by (auto simp: one_line_def small_json_def newline_def split: jvalue.splits)

theorem command_in_step_witness:
  "\<exists>p'. command_calls sample_ext small_json (piped (\<lambda>line. ''true'')) [''x''] [BNull, BInt32 1] [] =
     Some (map (pure_command sample_ext small_json (\<lambda>line. ''true'')) [BNull, BInt32 1], p') \<and> p' = []"
  by (rule command_in_step [OF piped.line_process_axioms small_json_one_line refl])


theorem command_answer_type_witness:
  "json_typed (BBoolean True)"
proof -
  have "command_transform sample_ext small_json (piped (\<lambda>line. ''true'')) [''x''] (BInt32 1) [] =
      Some (Inr (BBoolean True), [])"
    by code_simp
  then show ?thesis by (rule command_answer_type)
qed

end
