(* ===== verification/Bench.thy ===== *)
theory Bench
  imports Deployment Cli
begin

text \<open>
  The benchmark (src/bench.rs) and its command (\<open>cmd_bench\<close> of src/cli.rs): synthetic documents, the table
  of the results, and the run, which seeds a database of its own through the driver, dumps it into a
  fresh directory and restores it. The run composes the dump and the restore of the other theories.

  What a run gets from the machine is the record \<open>bench_world\<close>: the working directories, the identifiers
  of the dumps and the measured times. The state is the deployment and the storage directories, one for
  each size. \<open>bench_states\<close> is the locale of what the phases of a run keep of the deployment.
\<close>

section \<open>Formatting\<close>

text \<open>\<open>w as u64\<close>: towards zero, saturating; NaN is 0.\<close>

definition f64_to_u64 :: "f64 \<Rightarrow> nat" where
  "f64_to_u64 w =
     nat (if is_nan w then 0
          else if is_inf w then (if f64_neg w then 0 else 2 ^ 64 - 1)
          else max 0 (min (2 ^ 64 - 1) (f64_trunc w)))"

text \<open>\<open>a % b\<close> on finite values is exact.\<close>

definition f64_rem :: "f64 \<Rightarrow> f64 \<Rightarrow> f64" where
  "f64_rem a b =
     (if is_nan a \<or> is_nan b \<or> is_inf a \<or> is_zero b then f64_nan
      else if is_inf b then a
      else f64_of_ratio (f64_neg a) (\<bar>f64_units a\<bar> mod \<bar>f64_units b\<bar>) (pow2 1074))"

definition pad_zeros :: "nat \<Rightarrow> string \<Rightarrow> string" where
  "pad_zeros w s = replicate (w - length s) (CHR ''0'') @ s"

text \<open>\<open>{:.k}\<close>: the nearest decimal with \<open>k\<close> digits after the point, ties to even.\<close>

definition fmt_fixed :: "nat \<Rightarrow> f64 \<Rightarrow> string" where
  "fmt_fixed k x =
     (if is_nan x then ''NaN''
      else (if f64_neg x then ''-'' else []) @
        (if is_inf x then ''inf''
         else let s = pad_zeros (k + 1) (show_uint (round_even (\<bar>f64_units x\<bar> * 10 ^ k) (pow2 1074)))
              in take (length s - k) s @ (if k = 0 then [] else ''.'' @ drop (length s - k) s)))"

definition group_thousands :: "nat \<Rightarrow> string" where
  "group_thousands n =
     (let s = show_nat n
      in concat (map (\<lambda>(i, c). if 0 < i \<and> (length s - i) mod 3 = 0 then [CHR '','', c] else [c]) (enumerate 0 s)))"

definition sixty :: f64 where
  "sixty = f64_of_int 60"

definition fmt_secs :: "f64 \<Rightarrow> string" where
  "fmt_secs s =
     (if f64_le sixty s
      then show_nat (f64_to_u64 (f64_div s sixty)) @ ''m '' @ pad_zeros 2 (fmt_fixed 0 (f64_rem s sixty)) @ ''s''
      else fmt_fixed 1 s @ ''s'')"

definition mebi :: int where
  "mebi = 1024 * 1024"

definition fmt_bytes :: "nat \<Rightarrow> string" where
  "fmt_bytes b =
     (let x = f64_of_int (int b)
      in if f64_le (f64_of_int (1024 * mebi)) x then fmt_fixed 2 (f64_div x (f64_of_int (1024 * mebi))) @ '' GiB''
         else fmt_fixed 1 (f64_div x (f64_of_int mebi)) @ '' MiB'')"

section \<open>Results\<close>

record bench_run =
  br_docs :: nat
  br_dump_secs :: f64
  br_restore_secs :: f64
  br_dump_bytes :: nat
  br_estimated :: bool

text \<open>The sizes are of type \<open>u64\<close>; the error quotes the part as it was written.\<close>

definition parse_size :: "string \<Rightarrow> nat res" where
  "parse_size part =
     ok_or (ConfigError (''invalid size '' @ quoted part @ '': expected an integer document count''))
       (parse_unsigned 64 (trim part))"

definition parse_sizes :: "string \<Rightarrow> nat list res" where
  "parse_sizes s =
     (case collect_res parse_size (split_on (CHR '','') s) of
        Inl e \<Rightarrow> Inl e
      | Inr sizes \<Rightarrow>
          if sizes = [] \<or> List.member sizes 0 then Inl (ConfigError ''sizes must be positive document counts'')
          else Inr sizes)"

definition extrapolate :: "bench_run \<Rightarrow> nat \<Rightarrow> bench_run" where
  "extrapolate base wanted =
     (let f = f64_div (f64_of_int (int wanted)) (f64_of_int (int (br_docs base)))
      in \<lparr>br_docs = wanted, br_dump_secs = f64_mul (br_dump_secs base) f,
          br_restore_secs = f64_mul (br_restore_secs base) f,
          br_dump_bytes = f64_to_u64 (f64_round (f64_mul (f64_of_int (int (br_dump_bytes base))) f)),
          br_estimated = True\<rparr>)"

text \<open>The table: a row of five cells for each run.\<close>

definition table_row :: "bool \<Rightarrow> bench_run \<Rightarrow> string list" where
  "table_row markdown r =
     [group_thousands (br_docs r) @
        (if br_estimated r then (if markdown then '' *(estimated)*'' else '' (estimated)'') else []),
      fmt_secs (br_dump_secs r), fmt_secs (br_restore_secs r), fmt_bytes (br_dump_bytes r),
      (if f64_le (br_dump_secs r) (f64_zero False) then ''n/a''
       else group_thousands (f64_to_u64 (f64_div (f64_of_int (int (br_docs r))) (br_dump_secs r))))]"

definition table_header :: "string list" where
  "table_header = [''Documents'', ''Dump'', ''Restore'', ''Dump size'', ''Docs/s (dump)'']"

definition markdown_line :: "string list \<Rightarrow> string" where
  "markdown_line cells = ''| '' @ join_with '' | '' cells @ '' |'' @ nl"

definition text_line :: "nat list \<Rightarrow> string list \<Rightarrow> string" where
  "text_line widths cells =
     join_with ''  '' (map (\<lambda>(c, w). c @ replicate (w - length c) (CHR '' '')) (zip cells widths)) @ nl"

definition render_table :: "bench_run list \<Rightarrow> bool \<Rightarrow> string" where
  "render_table runs markdown =
     (let rows = map (table_row markdown) runs
      in if markdown then
           markdown_line table_header @ ''|'' @ concat (replicate (length table_header) ''---|'') @ nl
             @ concat (map markdown_line rows)
         else let widths = foldl (\<lambda>ws r. map (\<lambda>(w, c). max w (length c)) (zip ws r)) (map length table_header) rows
              in concat (map (text_line widths) (table_header # rows)))"

section \<open>Documents\<close>

definition bench_first_names :: "string list" where
  "bench_first_names = [''alice'', ''bruno'', ''chloe'', ''david'', ''emma'', ''farid'', ''gina'', ''hugo'']"

definition bench_last_names :: "string list" where
  "bench_last_names = [''martin'', ''bernard'', ''dubois'', ''thomas'', ''robert'', ''richard'', ''petit'', ''durand'']"

definition cities :: "string list" where
  "cities = [''Paris'', ''Lyon'', ''Marseille'', ''Lille'', ''Nantes'', ''Bordeaux'']"

definition statuses :: "string list" where
  "statuses = [''active'', ''inactive'', ''pending'', ''churned'']"

text \<open>The numbers are those of \<open>u64\<close>; the casts to signed types keep the bits.\<close>

definition client_doc :: "nat \<Rightarrow> document" where
  "client_doc i =
     (let k = int i;
          first = bench_first_names ! nat (k mod 8); family = bench_last_names ! nat ((k div 8) mod 8);
          two = (\<lambda>n. pad_zeros 2 (show_uint (n mod 100)))
      in [(''_id'', BInt64 (word_of_int k)),
          (''first_name'', BString first),
          (''last_name'', BString family),
          (''email'', BString (first @ ''.'' @ family @ ''.'' @ show_uint k @ ''@example.com'')),
          (''phone'', BString (''+33 6 '' @ two k @ '' '' @ two (k div 100) @ '' '' @ two (k div 10000) @ '' ''
             @ two (k div 1000000))),
          (''address'', BDocument
             [(''street'', BString (show_uint (k mod 200 + 1) @ '' rue de la Paix'')),
              (''city'', BString (cities ! nat (k mod 6))),
              (''zip'', BString (pad_zeros 5 (show_uint (10000 + k mod 89999))))]),
          (''status'', BString (statuses ! nat (k mod 4))),
          (''created_at'', BDateTime (1600000000000 + word_of_int k * 1000)),
          (''orders_count'', BInt32 (word_of_int (k mod 50))),
          (''balance'', BDouble (f64_div (f64_of_int (k mod 100000)) (f64_of_int 100)))])"

section \<open>The run\<close>

text \<open>Steps on the deployment in sequence; the first error ends it.\<close>

definition and_then :: "'a res \<times> 's \<Rightarrow> ('a \<Rightarrow> 's \<Rightarrow> 'b res \<times> 's) \<Rightarrow> 'b res \<times> 's" where
  "and_then r f = (case r of (Inl e, s) \<Rightarrow> (Inl e, s) | (Inr x, s) \<Rightarrow> f x s)"

definition bench_db :: string where "bench_db = ''leafmask_bench''"

definition marker :: string where "marker = ''leafmask_bench_marker''"

definition bench_collection :: string where "bench_collection = ''clients''"

definition seed_batch :: nat where "seed_batch = 1000"

record bench_world =
  bx_ext :: ext
  bx_codec :: codec
  bx_dirs :: "nat \<Rightarrow> string + unit"
  bx_open :: "nat \<Rightarrow> unit res"
  bx_tmp :: "nat \<Rightarrow> string"
  bx_stamp :: "nat \<Rightarrow> string \<times> string"
  bx_secs :: "nat \<Rightarrow> f64 \<times> f64"

definition no_scripts :: "'s script_runner" where
  "no_scripts = \<lparr>run_mongosh = (\<lambda>q s. (Inr (), s)), run_mongosh_file = (\<lambda>f s. (Inr (), s)),
     run_command = (\<lambda>argv s. (Inr (), s))\<rparr>"

definition guard_bench_db :: "'s client \<Rightarrow> 's \<Rightarrow> unit res \<times> 's" where
  "guard_bench_db c s =
     (case driver_databases c s of
        Inl e \<Rightarrow> (Inl e, s)
      | Inr dbs \<Rightarrow>
          if list_ex (\<lambda>d. d = bench_db) dbs then
            (case driver_collections c s bench_db of
               Inl e \<Rightarrow> (Inl e, s)
             | Inr colls \<Rightarrow>
                 if colls \<noteq> [] \<and> \<not> list_ex (\<lambda>x. x = marker) colls
                 then (Inl (ConfigError (''database '' @ quoted bench_db @
                        '' exists and was not created by leafmask bench; drop it manually or run the bench against another deployment'')), s)
                 else drop_database c bench_db s)
          else (Inr (), s))"

text \<open>Documents go in by batches; the failures a batch reports are not looked at.\<close>

definition seed_flush :: "'s client \<Rightarrow> document list \<Rightarrow> 's \<Rightarrow> unit res \<times> 's" where
  "seed_flush c batch s = and_then (driver_insert_many c bench_db bench_collection batch False s) (\<lambda>b s'. (Inr (), s'))"

fun seed_loop :: "'s client \<Rightarrow> nat \<Rightarrow> nat \<Rightarrow> document list \<Rightarrow> 's \<Rightarrow> unit res \<times> 's" where
  "seed_loop c 0 i batch s = (if batch = [] then (Inr (), s) else seed_flush c batch s)"
| "seed_loop c (Suc left) i batch s =
     (let batch' = batch @ [client_doc i]
      in if length batch' = seed_batch
         then and_then (seed_flush c batch' s) (\<lambda>u. seed_loop c left (i + 1) [])
         else seed_loop c left (i + 1) batch' s)"

definition bench_fill :: "'s client \<Rightarrow> nat \<Rightarrow> 's \<Rightarrow> unit res \<times> 's" where
  "bench_fill c n s =
     and_then (guard_bench_db c s) (\<lambda>u s1.
     and_then (driver_ensure c bench_db marker None [] s1) (\<lambda>u s2.
     and_then (driver_ensure c bench_db bench_collection None [] s2) (\<lambda>u s3.
     seed_loop c n 0 [] s3)))"

definition bench_dump_env :: "bench_world \<Rightarrow> 's client \<Rightarrow> nat \<Rightarrow> 's \<Rightarrow> dump_env" where
  "bench_dump_env W c n s =
     \<lparr>du_source = driver_source c s, du_registry = with_builtins (bx_ext W),
      du_engine = \<lparr>salt = string_bytes ''bench''\<rparr>, du_plan = None, du_filters = [],
      du_options = \<lparr>do_tmp_dir = Some (bx_tmp W n), do_include_databases = [bench_db],
        do_exclude_databases = [], do_include_collections = [bench_collection],
        do_exclude_collections = [], do_gzip = True, do_parallel_jobs = 0, do_no_indexes = False\<rparr>\<rparr>"

text \<open>Without parallel jobs both runs are sequential, so the workers play no part.\<close>

definition bench_dump ::
    "bench_world \<Rightarrow> 's client \<Rightarrow> nat \<Rightarrow> nat \<Rightarrow> 's \<Rightarrow> fsys \<Rightarrow> dump_metadata res \<times> fsys" where
  "bench_dump W c k n s fs =
     dump_run (bx_ext W) (bx_codec W) dir_storage (bench_dump_env W c n s) (\<lambda>items jobs fs'. ([], fs'))
       (fst (bx_stamp W k)) (snd (bx_stamp W k)) fs"

definition bench_restore_env :: "bench_world \<Rightarrow> 's client \<Rightarrow> fsys \<Rightarrow> (fsys, 's) restore_env" where
  "bench_restore_env W c fs =
     \<lparr>rs_codec = bx_codec W, rs_storage = dir_storage, rs_store = fs, rs_sink = driver_sink c,
      rs_exclusions = \<lparr>global_codes = [], global_indexes = [], ex_collections = []\<rparr>, rs_scripts = [],
      rs_options = \<lparr>ro_include_collections = [], ro_exclude_collections = [], ro_include_indexes = [],
        ro_exclude_indexes = [], ro_batch_size = seed_batch, ro_ordered = False,
        ro_dependency_order = False, ro_exit_on_error = False, ro_clean = False, ro_parallel_jobs = 0\<rparr>\<rparr>"

definition bench_restore ::
    "bench_world \<Rightarrow> 's client \<Rightarrow> dump_metadata \<Rightarrow> fsys \<Rightarrow> 's \<Rightarrow> restore_report res \<times> 's" where
  "bench_restore W c m fs s =
     and_then (drop_database c bench_db s) (\<lambda>u s1.
     and_then (driver_ensure c bench_db marker None [] s1) (\<lambda>u s2.
     restore_run (bench_restore_env W c fs) (\<lambda>items jobs t. ([], t)) no_scripts (dm_id m) s2))"

text \<open>One size, the \<open>k\<close>-th of the run. The working directory goes away only when everything succeeded.\<close>

definition bench_one ::
    "bench_world \<Rightarrow> 's client \<Rightarrow> bool \<Rightarrow> nat \<Rightarrow> nat \<Rightarrow> 's \<times> (nat \<Rightarrow> fsys) \<Rightarrow> bench_run res \<times> 's \<times> (nat \<Rightarrow> fsys)" where
  "bench_one W c keep k n st =
     (case st of (s, work) \<Rightarrow>
      (case bench_fill c n s of
         (Inl e, s1) \<Rightarrow> (Inl e, s1, work)
       | (Inr u, s1) \<Rightarrow>
      (case bx_dirs W n of
         Inl e \<Rightarrow> (Inl (StorageError (''cannot create bench work dir: '' @ e)), s1, work)
       | Inr u \<Rightarrow>
      (case bx_open W n of
         Inl e \<Rightarrow> (Inl e, s1, work)
       | Inr u \<Rightarrow>
      (case bench_dump W c k n s1 (work n) of
         (Inl e, fs) \<Rightarrow> (Inl e, s1, work(n := fs))
       | (Inr m, fs) \<Rightarrow>
      (case bench_restore W c m fs s1 of
         (Inl e, s2) \<Rightarrow> (Inl e, s2, work(n := fs))
       | (Inr rep, s2) \<Rightarrow>
           if rp_inserted rep \<noteq> n
           then (Inl (RestoreError (''bench restore inserted '' @ show_nat (rp_inserted rep) @ '' of ''
                   @ show_nat n @ '' documents'')), s2, work(n := fs))
           else let run = \<lparr>br_docs = n, br_dump_secs = fst (bx_secs W k), br_restore_secs = snd (bx_secs W k),
                           br_dump_bytes = dm_size m, br_estimated = False\<rparr>
                in if keep then (Inr run, s2, work(n := fs))
                   else (case drop_database c bench_db s2 of
                           (Inl e, s3) \<Rightarrow> (Inl e, s3, work(n := fs))
                         | (Inr u, s3) \<Rightarrow> (Inr run, s3, work(n := [])))))))))"

fun run_bench ::
    "bench_world \<Rightarrow> 's client \<Rightarrow> bool \<Rightarrow> nat \<Rightarrow> nat list \<Rightarrow> 's \<times> (nat \<Rightarrow> fsys)
       \<Rightarrow> bench_run list res \<times> 's \<times> (nat \<Rightarrow> fsys)" where
  "run_bench W c keep k [] st = (Inr [], st)"
| "run_bench W c keep k (n # ns) st =
     and_then (bench_one W c keep k n st) (\<lambda>r st1.
     and_then (run_bench W c keep (k + 1) ns st1) (\<lambda>rs st2. (Inr (r # rs), st2)))"

section \<open>The command\<close>

record bench_args =
  ba_sizes :: string
  ba_estimate :: string
  ba_markdown :: bool
  ba_keep :: bool

text \<open>\<open>max_by_key\<close> gives the last of the greatest.\<close>

definition largest_run :: "bench_run list \<Rightarrow> bench_run option" where
  "largest_run runs =
     foldl (\<lambda>best r. case best of None \<Rightarrow> Some r | Some b \<Rightarrow> if br_docs b \<le> br_docs r then Some r else Some b)
       None (filter (\<lambda>r. \<not> br_estimated r) runs)"

definition with_estimates :: "bench_run list \<Rightarrow> nat list \<Rightarrow> bench_run list" where
  "with_estimates runs targets =
     (case largest_run runs of None \<Rightarrow> runs | Some base \<Rightarrow> runs @ map (extrapolate base) targets)"

definition bench_uri :: "('x, 'y) world \<Rightarrow> cli \<Rightarrow> string res" where
  "bench_uri V cl =
     (case cl_uri cl of
        Some u \<Rightarrow> Inr u
      | None \<Rightarrow>
          (case maybe_config V cl of
             Inl e \<Rightarrow> Inl e
           | Inr cfg \<Rightarrow>
               ok_or (ConfigError ''MongoDB URI required: pass --uri or set mongodb.uri'')
                 (case cfg of None \<Rightarrow> None | Some x \<Rightarrow> mongo_uri x)))"

definition cmd_bench ::
    "('x, 'y) world \<Rightarrow> bench_world \<Rightarrow> (string \<Rightarrow> 's client res) \<Rightarrow> cli \<Rightarrow> bench_args \<Rightarrow> 's \<times> (nat \<Rightarrow> fsys)
       \<Rightarrow> unit res \<times> string \<times> 's \<times> (nat \<Rightarrow> fsys)" where
  "cmd_bench V W connect cl a st =
     (case parse_sizes (ba_sizes a) of
        Inl e \<Rightarrow> (Inl e, [], st)
      | Inr sizes \<Rightarrow>
     (case (if trim (ba_estimate a) = [] then Inr [] else parse_sizes (ba_estimate a)) of
        Inl e \<Rightarrow> (Inl e, [], st)
      | Inr estimates \<Rightarrow>
     (case bench_uri V cl of
        Inl e \<Rightarrow> (Inl e, [], st)
      | Inr uri \<Rightarrow>
     (case connect uri of
        Inl e \<Rightarrow> (Inl e, [], st)
      | Inr c \<Rightarrow>
     (case run_bench W c (ba_keep a) 0 sizes st of
        (Inl e, st') \<Rightarrow> (Inl e, [], st')
      | (Inr runs, st') \<Rightarrow> (Inr (), render_table (with_estimates runs estimates) (ba_markdown a), st'))))))"

section \<open>What a bench dumps\<close>

lemma enumerate_bench:
  assumes "enumerate_dbs (bench_dump_env W c n s) dbs names items = Inr (names', items')"
    and "set names \<subseteq> {bench_db}" "\<forall>it \<in> set items. wi_coll it = bench_collection"
  shows "set names' \<subseteq> {bench_db} \<and> (\<forall>it \<in> set items'. wi_coll it = bench_collection)"
  using assms
proof (induction dbs arbitrary: names items)
  case (Cons db dbs)
  let ?env = "bench_dump_env W c n s"
  have coll: "it \<in> set (number_items i d k (filter (include_collection (du_options ?env)) colls)) \<Longrightarrow>
      wi_coll it = bench_collection" for it i d k colls
    by (induction colls arbitrary: k)
      (auto simp: bench_dump_env_def include_collection_def passes_filter_def split: if_splits)
  show ?case
  proof (cases "include_db (du_options ?env) db")
    case False
    then show ?thesis using Cons.IH [of names items] Cons.prems by simp
  next
    case True
    then have db: "db = bench_db" by (simp add: bench_dump_env_def include_db_def passes_filter_def)
    with True Cons.prems obtain colls where
      "enumerate_dbs ?env dbs (names @ [db])
         (items @ number_items (length names) db 0 (filter (include_collection (du_options ?env)) colls)) =
       Inr (names', items')"
      by (auto split: sum.splits)
    then show ?thesis by (rule Cons.IH) (use db Cons.prems(2,3) coll in \<open>auto dest: coll\<close>)
  qed
qed simp

lemma dump_item_toc: "dump_item E C S env did it s = (Inr (n, toc), s') \<Longrightarrow> toc_name toc = wi_coll it"
  by (auto simp: dump_item_def Let_def split: prod.splits sum.splits)

lemma dump_sequential_toc:
  "dump_sequential E C S env did its s = (rs, s') \<Longrightarrow> Some (Inr (n, toc)) \<in> set rs \<Longrightarrow>
     \<exists>it \<in> set its. toc_name toc = wi_coll it"
proof (induction its arbitrary: s rs)
  case (Cons it its)
  obtain r s1 where r: "dump_item E C S env did it s = (r, s1)" by (rule prod.exhaust)
  obtain rs1 s2 where rs1: "dump_sequential E C S env did its s1 = (rs1, s2)" by (rule prod.exhaust)
  from Cons.prems(1) r rs1 have "rs = Some r # rs1" "s' = s2" by auto
  with Cons.prems(2) Cons.IH [OF rs1 [folded \<open>s' = s2\<close>]] r dump_item_toc [of E C S env did it s n toc s1]
  show ?case by auto
qed simp

lemma collect_results_toc:
  assumes "collect_results its rs sz cbd = Inr (sz', cbd')"
    and "\<forall>tocs \<in> set cbd. \<forall>t \<in> set tocs. Q t" "\<forall>n toc. Some (Inr (n, toc)) \<in> set rs \<longrightarrow> Q toc"
  shows "\<forall>tocs \<in> set cbd'. \<forall>t \<in> set tocs. Q t"
  using assms
proof (induction its rs sz cbd rule: collect_results.induct)
  case (1 it its r rs sz cbd)
  show ?case
  proof (cases r)
    case None
    with 1 show ?thesis by simp
  next
    case (Some q)
    with 1(3) obtain n toc where q: "q = Inr (n, toc)" by (cases q) auto
    let ?cbd = "cbd[wi_db_index it := cbd ! wi_db_index it @ [toc]]"
    have toc: "Q toc" using 1(5) Some q by simp
    have "\<forall>t \<in> set tocs. Q t" if "tocs \<in> set ?cbd" for tocs
    proof (cases "wi_db_index it < length cbd")
      case True
      with that set_update_subset_insert [of cbd "wi_db_index it" "cbd ! wi_db_index it @ [toc]"] toc 1(4)
      show ?thesis by fastforce
    qed (use that 1(4) in \<open>auto simp: list_update_beyond\<close>)
    then show ?thesis using 1(2) [OF Some q refl] 1(3,5) Some q by simp
  qed
qed auto

lemma dir_put_get:
  assumes "dir_put p d fs = (Inr (), fs')"
  shows "dir_get p fs' = Inr d"
  using assms
proof (cases rule: dir_put_cases)
  case (3 fs1)
  have "fs_lookup fs' q = Some None" if "strict_prefix q (resolve_path p)" for q
    using make_dirs_prefixes [OF 3(2) strict_prefix_butlast [OF that]] that 3(4,5) by (simp add: fs_lookup_insert)
  then have "\<not> fs_blocked fs' (resolve_path p)" by (auto simp: fs_blocked_iff)
  then show ?thesis using 3(4,5) by (simp add: dir_get_def Let_def fs_lookup_insert)
qed auto

definition bench_only :: "dump_metadata \<Rightarrow> bool" where
  "bench_only m = (\<forall>d \<in> set (dm_databases m). dt_name d = bench_db
     \<and> (\<forall>t \<in> set (dt_collections d). toc_name t = bench_collection))"

lemma bench_dump_result:
  assumes "bench_dump W c k n s fs = (Inr m, fs')"
  shows "bench_only m \<and> dm_id m = fst (bx_stamp W k)
    \<and> (\<exists>raw. enc_meta (bx_codec W) m = Some raw \<and> dir_get (metadata_path (dm_id m)) fs' = Inr raw)"
proof -
  let ?env = "bench_dump_env W c n s" and ?did = "fst (bx_stamp W k)"
  obtain names items where e: "enumerate_items ?env = Inr (names, items)"
    using assms by (auto simp: bench_dump_def dump_run_def split: if_splits sum.splits)
  have "max (do_parallel_jobs (du_options ?env)) 1 \<le> 1" by (simp add: bench_dump_env_def)
  then have seq: "item_results E C S ?env d par its = dump_sequential E C S ?env d its" for E C S d par its
    by (auto simp: item_results_def Let_def fun_eq_iff)
  obtain rs fs1 where rs: "dump_sequential (bx_ext W) (bx_codec W) dir_storage ?env ?did items fs = (rs, fs1)"
    by (rule prod.exhaust)
  note run = assms [unfolded bench_dump_def dump_run_def, unfolded e seq rs sum.case prod.case]
  obtain sz cbd where c: "collect_results items rs 0 (replicate (length names) []) = Inr (sz, cbd)"
    using run by (auto split: if_splits sum.splits)
  with run have m: "m = \<lparr>dm_id = ?did, dm_status = Done, dm_created_at = snd (bx_stamp W k),
              dm_databases = map (\<lambda>(n, cs). \<lparr>dt_name = n, dt_collections = cs\<rparr>) (zip names cbd), dm_size = sz\<rparr>" and
    w: "write_metadata (bx_codec W) dir_storage m fs1 = (Inr (), fs')"
    by (auto simp: Let_def split: if_splits sum.splits prod.splits)
  have all: "set names \<subseteq> {bench_db}" "\<forall>it \<in> set items. wi_coll it = bench_collection"
    using e enumerate_bench [of W c n s _ "[]" "[]" names items] by (auto simp: enumerate_items_def split: sum.splits)
  have "\<forall>tocs \<in> set cbd. \<forall>t \<in> set tocs. toc_name t = bench_collection"
    by (rule collect_results_toc [OF c]) (use dump_sequential_toc [OF rs] all(2) in auto)
  then have "\<forall>p \<in> set (zip names cbd). fst p = bench_db \<and> (\<forall>t \<in> set (snd p). toc_name t = bench_collection)"
    using all(1) by (auto dest: set_zip_leftD set_zip_rightD)
  then have "bench_only m" by (auto simp: m bench_only_def)
  moreover obtain raw where raw: "enc_meta (bx_codec W) m = Some raw" "dir_put (metadata_path (dm_id m)) raw fs1 = (Inr (), fs')"
    using w by (auto simp: write_metadata_def dir_storage_def split: option.splits)
  ultimately show ?thesis using dir_put_get [OF raw(2)] m by auto
qed

section \<open>What the phases keep\<close>

lemma and_then_keeps:
  assumes "P (snd m)" "\<And>x s. m = (Inr x, s) \<Longrightarrow> P s \<Longrightarrow> P (snd (f x s))"
  shows "P (snd (and_then m f))"
  using assms by (cases m; cases "fst m") (auto simp: and_then_def)

text \<open>
  Two properties of the deployment: \<open>P\<close> holds between the phases, \<open>Q\<close> once the marker is there. Work on the
  collection of the bench keeps \<open>Q\<close>, dropping the database falls back to \<open>P\<close>.
\<close>

locale bench_states =
  fixes c :: "'s client" and P Q :: "'s \<Rightarrow> bool"
  assumes ready: "Q s \<Longrightarrow> P s"
    and dropped: "P s \<Longrightarrow> P (snd (drop_database c bench_db s))"
    and marked: "P s \<Longrightarrow> driver_ensure c bench_db marker None [] s = (r, s') \<Longrightarrow> P s' \<and> (r = Inr () \<longrightarrow> Q s')"
    and ensured: "Q s \<Longrightarrow> Q (snd (driver_ensure c bench_db bench_collection v opts s))"
    and inserted: "Q s \<Longrightarrow> Q (snd (driver_insert_many c bench_db bench_collection docs ord s))"
    and indexed: "Q s \<Longrightarrow> Q (snd (driver_create_index c bench_db bench_collection ix s))"
    and emptied: "Q s \<Longrightarrow> Q (snd (driver_drop c bench_db bench_collection s))"
begin

lemma sink_keeps: "sink_invariant (driver_sink c) bench_db bench_collection Q"
proof
  show "Q t \<Longrightarrow> sk_ensure (driver_sink c) bench_db bench_collection v opts t = (r, t') \<Longrightarrow> Q t'" for t v opts r t'
    using ensured [of t v opts] by (simp add: driver_sink_def)
  show "Q t \<Longrightarrow> sk_insert_many (driver_sink c) bench_db bench_collection docs ord t = (b, t') \<Longrightarrow> Q t'"
    for t docs ord b t'
    using inserted [of t docs ord] by (simp add: driver_sink_def)
  show "Q t \<Longrightarrow> sk_create_index (driver_sink c) bench_db bench_collection ix t = (r, t') \<Longrightarrow> Q t'" for t ix r t'
    using indexed [of t ix] by (simp add: driver_sink_def)
  show "Q t \<Longrightarrow> sk_drop (driver_sink c) bench_db bench_collection t = (r, t') \<Longrightarrow> Q t'" for t r t'
    using emptied [of t] by (simp add: driver_sink_def)
qed

lemma flush_keeps: "Q s \<Longrightarrow> Q (snd (seed_flush c docs s))"
  unfolding seed_flush_def by (rule and_then_keeps [of Q]) (simp_all add: inserted)

lemma seed_keeps: "Q s \<Longrightarrow> Q (snd (seed_loop c left i batch s))"
proof (induction left arbitrary: i batch s)
  case 0
  then show ?case using flush_keeps [of s batch] by simp
next
  case (Suc left)
  have "Q (snd (and_then (seed_flush c docs s) (\<lambda>u. seed_loop c left (i + 1) [])))" for docs
    by (rule and_then_keeps [of Q, OF flush_keeps [OF Suc.prems]]) (rule Suc.IH)
  with Suc show ?case by (simp add: Let_def)
qed

lemma marked_snd: "P s \<Longrightarrow> P (snd (driver_ensure c bench_db marker None [] s))"
  using marked by (metis prod.collapse)

lemma guard_keeps: "P s \<Longrightarrow> P (snd (guard_bench_db c s))"
  using dropped by (auto simp: guard_bench_db_def split: sum.splits)

lemma fill_keeps:
  assumes "P s"
  shows "P (snd (bench_fill c n s))" "fst (bench_fill c n s) = Inr u \<Longrightarrow> Q (snd (bench_fill c n s))"
proof -
  obtain r1 s1 where 1: "guard_bench_db c s = (r1, s1)" by (rule prod.exhaust)
  obtain r2 s2 where 2: "driver_ensure c bench_db marker None [] s1 = (r2, s2)" by (rule prod.exhaust)
  obtain r3 s3 where 3: "driver_ensure c bench_db bench_collection None [] s2 = (r3, s3)" by (rule prod.exhaust)
  have P1: "P s1" using guard_keeps [OF assms] 1 by simp
  note m = marked [OF P1 2]
  have Q3: "r2 = Inr () \<Longrightarrow> Q s3" using ensured [of s2 None "[]"] m 3 by simp
  have Q4: "r2 = Inr () \<Longrightarrow> Q (snd (seed_loop c n 0 [] s3))" by (rule seed_keeps [OF Q3])
  show "P (snd (bench_fill c n s))"
    using P1 m Q3 Q4 ready by (cases r1; cases r2; cases r3) (simp_all add: bench_fill_def 1 2 3 and_then_def)
  show "Q (snd (bench_fill c n s))" if "fst (bench_fill c n s) = Inr u"
    using that Q4 by (cases r1; cases r2; cases r3) (simp_all add: bench_fill_def 1 2 3 and_then_def)
qed

end

lemma targets_bench: "bench_only m \<Longrightarrow> it \<in> set (restore_targets o' m) \<Longrightarrow> ri_db it = bench_db \<and> ri_coll it = bench_collection"
  by (auto simp: restore_targets_def bench_only_def)

context bench_states begin

lemma restore_all_keeps:
  assumes "rs_sink env = driver_sink c"
  shows "Q t \<Longrightarrow> \<forall>it \<in> set its. ri_db it = bench_db \<and> ri_coll it = bench_collection \<Longrightarrow>
    restore_sequential env did its t = (rs, t') \<Longrightarrow> Q t'"
proof (induction its arbitrary: t rs)
  case Nil
  then show ?case by simp
next
  case (Cons it its)
  obtain r t1 where r: "restore_item env did it t = (r, t1)" by (rule prod.exhaust)
  have "Q t1"
    by (rule sink_invariant.restore_item_inv [OF sink_keeps assms _ _ Cons.prems(1) r]) (use Cons.prems(2) in auto)
  obtain rs1 t2 where rs1: "restore_sequential env did its t1 = (rs1, t2)" by (rule prod.exhaust)
  then have rest: "restore_sequential env did its t1 = (rs1, t')" using Cons.prems(3) r by simp
  have "\<forall>it \<in> set its. ri_db it = bench_db \<and> ri_coll it = bench_collection"
    using Cons.prems(2) by simp
  from Cons.IH [OF \<open>Q t1\<close> this rest] show ?case .
qed

lemma restore_run_keeps:
  assumes "Q t" "restore_run (bench_restore_env W c fs) par no_scripts did t = (r, t')"
    and "\<And>m. resolve_dump (bx_codec W) dir_storage did fs = Inr m \<Longrightarrow> bench_only m"
  shows "Q t'"
proof (cases "resolve_dump (bx_codec W) dir_storage did fs")
  case (Inl e)
  with assms show ?thesis by (simp add: restore_run_def bench_restore_env_def)
next
  case (Inr m)
  let ?env = "bench_restore_env W c fs"
  obtain rs t1 where rs: "restore_sequential ?env (dm_id m) (restore_targets (rs_options ?env) m) t = (rs, t1)"
    by (rule prod.exhaust)
  have "rs_sink ?env = driver_sink c" by (simp add: bench_restore_env_def)
  moreover have "\<forall>it \<in> set (restore_targets (rs_options ?env) m). ri_db it = bench_db \<and> ri_coll it = bench_collection"
    using targets_bench [OF assms(3) [OF Inr]] by simp
  ultimately have t1: "Q t1" by (rule restore_all_keeps [OF _ assms(1) _ rs])
  have env: "rs_codec ?env = bx_codec W" "rs_storage ?env = dir_storage" "rs_store ?env = fs" "rs_scripts ?env = []"
    "\<not> ro_dependency_order (rs_options ?env)" "ro_parallel_jobs (rs_options ?env) = 0"
    by (simp_all add: bench_restore_env_def)
  have all: "restore_results ?env d p its x = restore_sequential ?env d its x" for d p its x
    by (simp add: restore_results_def env)
  have stage: "run_stage [] x no_scripts y = (Inr (), y)" for x and y :: 's by (simp add: run_stage_def)
  have tail: "restore_tail ?env no_scripts m rep x = (Inr (rep\<lparr>rp_indexes := rp_indexes rep\<rparr>), x)" for rep x
    unfolding restore_tail_def env stage by (simp add: env(5))
  note run = assms(2) [unfolded restore_run_def env Inr sum.case stage prod.case all rs tail]
  then have "t' = t1" by (cases "sum_reports rs \<lparr>rp_inserted = 0, rp_skipped = 0, rp_indexes = 0, rp_failed = []\<rparr>") simp_all
  with t1 show ?thesis by simp
qed

lemma restore_keeps:
  assumes "P s" "\<And>m'. resolve_dump (bx_codec W) dir_storage (dm_id m) fs = Inr m' \<Longrightarrow> bench_only m'"
  shows "P (snd (bench_restore W c m fs s))"
proof -
  obtain r1 s1 where 1: "drop_database c bench_db s = (r1, s1)" by (rule prod.exhaust)
  obtain r2 s2 where 2: "driver_ensure c bench_db marker None [] s1 = (r2, s2)" by (rule prod.exhaust)
  obtain r3 s3 where 3: "restore_run (bench_restore_env W c fs) (\<lambda>items jobs t. ([], t)) no_scripts (dm_id m) s2 = (r3, s3)"
    by (rule prod.exhaust)
  have P1: "P s1" using dropped [OF assms(1)] 1 by simp
  note m = marked [OF P1 2]
  have "r2 = Inr () \<Longrightarrow> Q s3" using restore_run_keeps [OF _ 3 assms(2)] m by blast
  then show ?thesis
    using P1 m ready by (cases r1; cases r2) (simp_all add: bench_restore_def 1 2 3 and_then_def)
qed

end

text \<open>The metadata that was written is the one that is read back.\<close>

definition faithful_meta :: "codec \<Rightarrow> bool" where
  "faithful_meta C = (\<forall>m raw. enc_meta C m = Some raw \<longrightarrow> dec_meta C raw = Some m)"

lemma bench_dump_resolved:
  assumes "bench_dump W c k n s fs = (Inr m, fs')" "faithful_meta (bx_codec W)" "fst (bx_stamp W k) \<noteq> ''latest''"
  shows "resolve_dump (bx_codec W) dir_storage (dm_id m) fs' = Inr m"
proof -
  from bench_dump_result [OF assms(1)] obtain raw where
    "enc_meta (bx_codec W) m = Some raw" "dir_get (metadata_path (dm_id m)) fs' = Inr raw" "dm_id m \<noteq> ''latest''"
    using assms(3) by auto
  then show ?thesis
    using assms(2) by (simp add: resolve_dump_def read_metadata_def dir_storage_def faithful_meta_def)
qed

context bench_states begin

lemma bench_one_keeps:
  assumes "faithful_meta (bx_codec W)" "fst (bx_stamp W k) \<noteq> ''latest''" "P s"
  shows "P (fst (snd (bench_one W c keep k n (s, work))))"
proof -
  obtain r1 s1 where 1: "bench_fill c n s = (r1, s1)" by (rule prod.exhaust)
  have P1: "P s1" using fill_keeps(1) [OF assms(3), of n] 1 by simp
  obtain r2 fs where 2: "bench_dump W c k n s1 (work n) = (r2, fs)" by (rule prod.exhaust)
  have P3: "P (snd (bench_restore W c m fs s1))" if "r2 = Inr m" for m
    by (rule restore_keeps [OF P1])
      (use bench_dump_resolved [OF 2 [unfolded that] assms(1,2)] bench_dump_result [OF 2 [unfolded that]] in auto)
  show ?thesis
    using P1 P3 dropped
    by (auto simp: bench_one_def 1 2 Let_def split: sum.splits prod.splits)
      (metis snd_conv)+
qed

lemma run_bench_keeps:
  assumes "faithful_meta (bx_codec W)" "\<forall>k. fst (bx_stamp W k) \<noteq> ''latest''" "P (fst st)"
  shows "P (fst (snd (run_bench W c keep k ns st)))"
  using assms(3)
proof (induction ns arbitrary: k st)
  case (Cons n ns)
  obtain r s1 work1 where 1: "bench_one W c keep k n st = (r, s1, work1)" by (rule prod_cases3)
  have "P s1"
    using bench_one_keeps [OF assms(1), of k "fst st" keep n "snd st"] assms(2) Cons.prems 1 by simp
  with Cons.IH [of "(s1, work1)" "Suc k"] show ?case
    by (cases r; cases "run_bench W c keep (Suc k) ns (s1, work1)") (auto simp: 1 and_then_def split: sum.splits)
qed simp

end

section \<open>Deployments\<close>

text \<open>
  What MongoDB documents: a request on a database changes no other database. \<open>view\<close> is what there is to
  see of a database.
\<close>

definition confined_client :: "'s client \<Rightarrow> (string \<Rightarrow> 's \<Rightarrow> 'v) \<Rightarrow> bool" where
  "confined_client c view =
     (\<forall>db d s. d \<noteq> db \<longrightarrow>
        (\<forall>coll v opts. view d (snd (cl_run_command c db (create_command coll v opts) s)) = view d s)
        \<and> (\<forall>coll docs ord. view d (snd (cl_insert_many c db coll docs ord s)) = view d s)
        \<and> (\<forall>coll ix. view d (snd (cl_create_index c db coll ix s)) = view d s)
        \<and> (\<forall>coll. view d (snd (cl_drop_collection c db coll s)) = view d s)
        \<and> view d (snd (cl_drop_database c db s)) = view d s)"

text \<open>An operation of the driver changes the state as its request does.\<close>

lemma driver_states:
  "snd (driver_ensure c db coll v opts s) = snd (cl_run_command c db (create_command coll v opts) s)"
  "snd (driver_insert_many c db coll docs ord s) = (if docs = [] then s else snd (cl_insert_many c db coll docs ord s))"
  "snd (driver_create_index c db coll ix s) = snd (cl_create_index c db coll (model_of_spec ix) s)"
  "snd (driver_drop c db coll s) = snd (cl_drop_collection c db coll s)"
  "snd (drop_database c db s) = snd (cl_drop_database c db s)"
  by (auto simp: driver_ensure_def accept_code_def driver_insert_many_def driver_create_index_def driver_drop_def
      drop_database_def split: prod.splits sum.splits error_kind.splits option.splits)

lemma confined_states:
  assumes "confined_client c view" "d \<noteq> bench_db"
  shows "bench_states c (\<lambda>s. view d s = v) (\<lambda>s. view d s = v)"
proof
  fix s r s' assume "view d s = v" "driver_ensure c bench_db marker None [] s = (r, s')"
  with assms driver_states(1) [of c bench_db marker None "[]" s]
  show "view d s' = v \<and> (r = Inr () \<longrightarrow> view d s' = v)" by (simp add: confined_client_def)
qed (use assms in \<open>simp_all add: confined_client_def driver_states\<close>)

lemma mem_command_frame: "fst k \<noteq> db \<Longrightarrow> kv_get k (snd (mem_command db cmd m)) = kv_get k m"
  by (auto simp: mem_command_def mem_ensure_def Let_def bt_get_insert split: list.splits bson.splits option.splits)

lemma mem_command_grows: "kv_get k m \<noteq> None \<Longrightarrow> kv_get k (snd (mem_command db cmd m)) \<noteq> None"
  by (auto simp: mem_command_def mem_ensure_def Let_def bt_get_insert split: list.splits bson.splits option.splits)

lemma mem_batch_state:
  "snd (cl_insert_many mem_client db coll docs ord m) = snd (insert_loop (mem_insert db coll) docs 0 ord empty_batch m)"
  by (auto simp: mem_client_def split: prod.splits)

lemma mem_batch_frame:
  assumes "k \<noteq> (db, coll)"
  shows "kv_get k (snd (cl_insert_many mem_client db coll docs ord m)) = kv_get k m"
proof -
  obtain b m' where l: "insert_loop (mem_insert db coll) docs 0 ord empty_batch m = (b, m')" by (rule prod.exhaust)
  have "kv_get k m' = kv_get k m"
    by (rule insert_loop_inv [of "\<lambda>x. kv_get k x = kv_get k m", OF _ refl l])
      (use mem_insert_entry assms in metis)
  with l show ?thesis by (simp add: mem_batch_state)
qed

lemma mem_keys_frame:
  "k \<noteq> (db, coll) \<Longrightarrow> kv_get k (snd (cl_create_index mem_client db coll ix m)) = kv_get k m"
  "k \<noteq> (db, coll) \<Longrightarrow> kv_get k (snd (cl_drop_collection mem_client db coll m)) = kv_get k m"
  "kv_get k (snd (cl_drop_database mem_client db m)) = (if fst k = db then None else kv_get k m)"
  using kv_get_filter [of k "\<lambda>k. fst k \<noteq> db" m]
  by (auto simp: mem_client_def mem_create_index_def mem_drop_def Let_def bt_get_insert kv_get_remove split: option.splits)

lemma mem_confined: "confined_client mem_client (\<lambda>d m coll. kv_get (d, coll) m)"
  by (auto simp: confined_client_def fun_eq_iff mem_batch_frame mem_keys_frame)
    (simp add: mem_client_def mem_command_frame)

text \<open>The deployment in memory, with the marker of the bench or without a collection of its database.\<close>

definition marked_mem :: "mem \<Rightarrow> bool" where
  "marked_mem m = (kv_get (bench_db, marker) m \<noteq> None)"

definition bench_free :: "mem \<Rightarrow> bool" where
  "bench_free m =
     (marked_mem m \<or> (\<forall>coll. kv_get (bench_db, coll) m \<noteq> None \<longrightarrow> starts_with coll ''system.''))"

interpretation mem_bench: bench_states mem_client bench_free marked_mem
proof
  show "bench_free s" if "marked_mem s" for s using that by (simp add: bench_free_def)
  show "bench_free (snd (drop_database mem_client bench_db s))" for s
    by (simp add: bench_free_def driver_states mem_keys_frame)
  fix s r s' assume e: "bench_free s" "driver_ensure mem_client bench_db marker None [] s = (r, s')"
  have "marked_mem (snd (driver_ensure mem_client bench_db marker None [] s))"
    by (auto simp: driver_states marked_mem_def mem_client_def create_command_def mem_command_def mem_ensure_def
        Let_def bt_get_insert split: option.splits)
  with e show "bench_free s' \<and> (r = Inr () \<longrightarrow> marked_mem s')" by (simp add: bench_free_def)
next
  have apart: "(bench_db, marker) \<noteq> (bench_db, bench_collection)" by (simp add: marker_def bench_collection_def)
  fix s assume q: "marked_mem s"
  show "marked_mem (snd (driver_ensure mem_client bench_db bench_collection v opts s))" for v opts
    using q mem_command_grows by (simp add: driver_states marked_mem_def mem_client_def)
  show "marked_mem (snd (driver_insert_many mem_client bench_db bench_collection docs ord s))" for docs ord
    using q apart by (simp add: driver_states marked_mem_def mem_batch_frame)
  show "marked_mem (snd (driver_create_index mem_client bench_db bench_collection ix s))" for ix
    using q apart by (simp add: driver_states marked_mem_def mem_keys_frame)
  show "marked_mem (snd (driver_drop mem_client bench_db bench_collection s))"
    using q apart by (simp add: driver_states marked_mem_def mem_keys_frame)
qed

lemma guard_passes: "isl (fst (guard_bench_db mem_client m)) \<longleftrightarrow> \<not> bench_free m"
proof -
  have dbs: "bench_db \<in> set (mem_databases m) \<longleftrightarrow> (\<exists>coll. kv_get (bench_db, coll) m \<noteq> None)"
    by (force simp: mem_databases_def kv_get_None)
  have colls: "coll \<in> set (mem_collections bench_db m) \<longleftrightarrow> kv_get (bench_db, coll) m \<noteq> None" for coll
    by (force simp: mem_collections_def kv_get_None)
  have names: "\<not> starts_with marker ''system.''" "bench_db \<noteq> ''admin''" "bench_db \<noteq> ''config''" "bench_db \<noteq> ''local''"
    by (simp_all add: marker_def bench_db_def)
  have "driver_databases mem_client m = Inr (filter (\<lambda>d. \<not> List.member [''admin'', ''config'', ''local''] d) (mem_databases m))"
    "driver_collections mem_client m bench_db = Inr (filter (\<lambda>n. \<not> starts_with n ''system.'') (mem_collections bench_db m))"
    "drop_database mem_client bench_db m = (Inr (), filter (\<lambda>p. fst (fst p) \<noteq> bench_db) m)"
    by (simp_all add: driver_databases_def driver_collections_def mem_client_def drop_database_def)
  then show ?thesis
    using names by (auto simp: guard_bench_db_def list_ex_iff bench_free_def marked_mem_def dbs colls filter_empty_conv)
qed

section \<open>Properties\<close>

text \<open>
  C15. The bench touches no database but its own: whatever the sizes and wherever a run stops, every other
  database of the deployment is what it was. The restore writes only what the dump of the bench holds,
  and that dump holds nothing else.
\<close>

theorem bench_confined:
  assumes "confined_client c view" "d \<noteq> bench_db"
    and "faithful_meta (bx_codec W)" "\<forall>k. fst (bx_stamp W k) \<noteq> ''latest''"
    and "run_bench W c keep 0 sizes (s, work) = (r, s', work')"
  shows "view d s' = view d s"
proof -
  have "view d (fst (s, work)) = view d s" by simp
  from bench_states.run_bench_keeps [OF confined_states [OF assms(1,2)] assms(3,4) this] assms(5) show ?thesis
    by (metis fst_conv snd_conv)
qed


section \<open>An example\<close>

text \<open>A codec for the documents of the bench and for dumps of its one collection.\<close>

definition clients_dump :: "nat \<Rightarrow> nat \<Rightarrow> dump_metadata" where
  "clients_dump n z =
     \<lparr>dm_id = ''20240101T000000Z'', dm_status = Done, dm_created_at = ''2024'',
      dm_databases = [\<lparr>dt_name = bench_db, dt_collections =
        [\<lparr>toc_name = bench_collection, toc_count = n, toc_indexes = [], toc_order = 0\<rparr>]\<rparr>], dm_size = z\<rparr>"

definition clients_count :: "dump_metadata \<Rightarrow> nat" where
  "clients_count m = sum_list (map (\<lambda>d. sum_list (map toc_count (dt_collections d))) (dm_databases m))"

definition clients_codec :: codec where
  "clients_codec =
     \<lparr>enc_doc = (\<lambda>d. case doc_get ''_id'' d of
         Some (BInt64 i) \<Rightarrow> Some (rev (be_bytes 4 8) @ be_bytes 4 (uint i)) | _ \<Rightarrow> None),
      dec_doc = (\<lambda>bs. case drop 7 bs of [k] \<Rightarrow> find (\<lambda>d. doc_get ''_id'' d = Some (BInt64 (ucast k)))
        [client_doc 0, client_doc 1] | _ \<Rightarrow> None),
      gz = Cons 31, gunzip = (\<lambda>bs. (tl bs, None)),
      enc_meta = (\<lambda>m. let n = of_nat (clients_count m); z = of_nat (dm_size m)
                      in if m = clients_dump (unat n) (unat z) then Some [n, z] else None),
      dec_meta = (\<lambda>bs. case bs of [n, z] \<Rightarrow> Some (clients_dump (unat n) (unat z)) | _ \<Rightarrow> None),
      enc_cmeta = (\<lambda>m. Some [of_nat (cm_count m)]),
      dec_cmeta = (\<lambda>bs. Some \<lparr>cm_database = bench_db, cm_collection = bench_collection,
        cm_count = unat (hd bs), cm_indexes = [], cm_validator = None, cm_options = []\<rparr>)\<rparr>"

lemma clients_codec_faithful: "faithful_meta clients_codec"
  by (auto simp: faithful_meta_def clients_codec_def Let_def split: if_splits)

definition bench_machine :: bench_world where
  "bench_machine =
     \<lparr>bx_ext = sample_ext, bx_codec = clients_codec, bx_dirs = (\<lambda>n. Inr ()), bx_open = (\<lambda>n. Inr ()),
      bx_tmp = (\<lambda>n. ''/tmp/bench''), bx_stamp = (\<lambda>k. (''20240101T000000Z'', ''2024'')),
      bx_secs = (\<lambda>k. (f64_of_int 1, f64_of_int 2))\<rparr>"

lemma bench_machine_fits:
  "faithful_meta (bx_codec bench_machine)" "\<forall>k. fst (bx_stamp bench_machine k) \<noteq> ''latest''"
  by (simp_all add: bench_machine_def clients_codec_faithful)

theorem bench_confined_witness:
  "\<exists>r m' work'. run_bench bench_machine mem_client False 0 [1000, 5] ([((''shop'', ''x''), empty_collection ''shop'' ''x'')], \<lambda>n. []) =
     (r, m', work') \<and> kv_get (''shop'', ''x'') m' = Some (empty_collection ''shop'' ''x'')"
proof -
  let ?m = "[((''shop'', ''x''), empty_collection ''shop'' ''x'')]"
  obtain r m' work' where run: "run_bench bench_machine mem_client False 0 [1000, 5] (?m, \<lambda>n. []) = (r, m', work')"
    by (rule prod_cases3)
  have "''shop'' \<noteq> bench_db" by (simp add: bench_db_def)
  from bench_confined [OF mem_confined this bench_machine_fits run]
  have "(\<lambda>coll. kv_get (''shop'', coll) m') = (\<lambda>coll. kv_get (''shop'', coll) ?m)" .
  from fun_cong [OF this, of "''x''"] run show ?thesis by simp
qed


section \<open>Sizes and figures\<close>

lemma digit_not_space:
  assumes "is_digit c"
  shows "strip_one utf8_ws (c # s) = None" "strip_one (map rev utf8_ws) (c # s) = None"
proof -
  have "list_all (\<lambda>w. \<not> is_digit (hd w)) utf8_ws" "list_all (\<lambda>w. \<not> is_digit (hd w)) (map rev utf8_ws)"
    by code_simp+
  then have "\<forall>w \<in> set utf8_ws. w = [] \<or> hd w \<noteq> c" "\<forall>w \<in> set (map rev utf8_ws). w = [] \<or> hd w \<noteq> c"
    using assms by (auto simp only: list_all_iff)
  then show "strip_one utf8_ws (c # s) = None" "strip_one (map rev utf8_ws) (c # s) = None"
    by (simp_all only: strip_one_no_head)
qed

lemma trim_digits:
  assumes "s \<noteq> []" "list_all is_digit s"
  shows "trim s = s"
proof -
  obtain c cs where s: "s = c # cs" "is_digit c" using assms by (cases s) auto
  then have "trim_start s = s" by (simp only: trim_start_def trim_by_none digit_not_space)
  moreover obtain d ds where "rev s = d # ds" "is_digit d"
    using assms by (cases s rule: rev_cases) auto
  moreover from this have "strip_one (map rev utf8_ws) (rev s) = None"
    by (simp only: digit_not_space)
  ultimately show ?thesis by (simp add: trim_def trim_end_def trim_by_none)
qed

lemma parse_size_show: "n < 2 ^ 64 \<Longrightarrow> parse_size (show_nat n) = Inr n"
proof -
  assume n: "n < 2 ^ 64"
  have digits: "list_all is_digit (show_nat n)" "show_nat n \<noteq> []"
    by (simp_all add: show_nat_def show_uint_digits)
  then obtain c cs where c: "show_nat n = c # cs" "is_digit c" by (cases "show_nat n") auto
  then have "parse_int (show_nat n) = Some (digits_val (show_nat n))"
    using digits by (auto simp: parse_int_def is_digit_def)
  moreover have "\<not> starts_with (show_nat n) ''-''" using c by (auto simp: is_digit_def)
  ultimately have "parse_unsigned 64 (show_nat n) = Some n"
    using n by (simp add: parse_unsigned_def show_nat_def digits_val_show_uint)
  then show ?thesis by (simp add: parse_size_def trim_digits digits)
qed

text \<open>
  The sizes of a bench are read back as written: a list of positive counts in the range of 64 bits,
  joined by commas, is accepted and is that list; a list with a zero is refused.
\<close>

theorem parse_sizes_join:
  assumes "ns \<noteq> []" "\<forall>n \<in> set ns. n < 2 ^ 64"
  shows "parse_sizes (join_with '','' (map show_nat ns)) =
    (if 0 \<in> set ns then Inl (ConfigError ''sizes must be positive document counts'') else Inr ns)"
proof -
  have "CHR '','' \<notin> set (show_nat n)" for n
    using show_uint_digits [of "int n"] by (auto simp: show_nat_def list_all_iff is_digit_def)
  then have "split_on (CHR '','') (join_with '','' (map show_nat ns)) = map show_nat ns"
    using assms(1) by (intro split_on_join) auto
  moreover have "collect_res parse_size (map show_nat ns) = Inr ns"
    using assms(2) by (induction ns) (simp_all add: parse_size_show)
  ultimately show ?thesis using assms(1) by (simp add: parse_sizes_def)
qed

theorem parse_sizes_join_witness:
  "parse_sizes ''500,1000'' = Inr [500, 1000]"
proof -
  have "join_with '','' (map show_nat [500, 1000]) = ''500,1000''" by code_simp
  then show ?thesis using parse_sizes_join [of "[500, 1000]"] by simp
qed

text \<open>The separators change nothing but the look of a number.\<close>

lemma group_thousands_digits: "filter (\<lambda>c. c \<noteq> CHR '','') (group_thousands n) = show_nat n"
proof -
  let ?cell = "\<lambda>s (i, c). if 0 < i \<and> (length s - i) mod 3 = 0 then [CHR '','', c] else [c]"
  have "filter (\<lambda>c. c \<noteq> CHR '','') (concat (map (?cell s) (enumerate k xs))) = xs"
    if "CHR '','' \<notin> set xs" for s xs k
    using that by (induction xs arbitrary: k) auto
  moreover have "CHR '','' \<notin> set (show_nat n)"
    using show_uint_digits [of "int n"] by (auto simp: show_nat_def list_all_iff is_digit_def)
  ultimately show ?thesis by (simp add: group_thousands_def Let_def)
qed

end
