(* ===== verification/Pushdown.thy ===== *)
theory Pushdown
  imports Condition
begin

text \<open>
  The two meanings of a condition (src/transform/condition.rs): evaluated in memory for \<open>when\<close>, and
  translated to a filter that the server evaluates for \<open>subset_conds\<close>. The server is a parameter; what
  MongoDB documents of its query operators is the locale \<open>query_server\<close>, for fields that hold a value of
  one of five kinds outside arrays. On such documents the two meanings agree, which is the property here;
  the lemmas at the end are the documents on which they do not.
\<close>

section \<open>Kinds of values\<close>

text \<open>What a field holds as far as the query operators compare it; a missing field counts as null.\<close>

datatype kind_value = Nothing | Number f64 | Text string | Flag bool | Time i64

definition exact_int :: "int \<Rightarrow> bool" where
  "exact_int i = (\<bar>i\<bar> < 2 ^ 53)"

fun kind_value_of :: "bson option \<Rightarrow> kind_value option" where
  "kind_value_of None = Some Nothing"
| "kind_value_of (Some BNull) = Some Nothing"
| "kind_value_of (Some (BInt32 i)) = Some (Number (f64_of_int (sint i)))"
| "kind_value_of (Some (BInt64 i)) = (if exact_int (sint i) then Some (Number (f64_of_int (sint i))) else None)"
| "kind_value_of (Some (BDouble x)) = (if is_nan x then None else Some (Number x))"
| "kind_value_of (Some (BString s)) = Some (Text s)"
| "kind_value_of (Some (BBoolean b)) = Some (Flag b)"
| "kind_value_of (Some (BDateTime t)) = (if exact_int (sint t) then Some (Time t) else None)"
| "kind_value_of (Some _) = None"

fun same_value :: "kind_value \<Rightarrow> kind_value \<Rightarrow> bool" where
  "same_value (Number x) (Number y) = f64_eq x y"
| "same_value x y = (x = y)"

fun same_kind :: "kind_value \<Rightarrow> kind_value \<Rightarrow> bool" where
  "same_kind Nothing y = (y = Nothing)"
| "same_kind (Number x) y = (case y of Number _ \<Rightarrow> True | _ \<Rightarrow> False)"
| "same_kind (Text s) y = (case y of Text _ \<Rightarrow> True | _ \<Rightarrow> False)"
| "same_kind (Flag b) y = (case y of Flag _ \<Rightarrow> True | _ \<Rightarrow> False)"
| "same_kind (Time t) y = (case y of Time _ \<Rightarrow> True | _ \<Rightarrow> False)"

text \<open>The order of numbers and times.\<close>

fun ordered :: "string \<Rightarrow> kind_value \<Rightarrow> kind_value \<Rightarrow> bool" where
  "ordered op (Number x) (Number y) = compare_f64 op x y"
| "ordered op (Time a) (Time b) =
     (if op = ''>'' then sint b < sint a else if op = ''<'' then sint a < sint b
      else if op = ''>='' then sint b \<le> sint a else if op = ''<='' then sint a \<le> sint b else False)"
| "ordered op x y = False"

definition order_ops :: "string list" where
  "order_ops = [''>='', ''<='', ''>'', ''<'']"

definition order_name :: "string \<Rightarrow> string" where
  "order_name op = (if op = ''>'' then ''$gt'' else if op = ''<'' then ''$lt'' else if op = ''>='' then ''$gte'' else ''$lte'')"

text \<open>No array on the way to the field, inside which the server would look as well.\<close>

fun straight_parts :: "document \<Rightarrow> string list \<Rightarrow> bool" where
  "straight_parts d (p # q # ps) =
     (case kv_get p d of
        Some (BArray xs) \<Rightarrow> False
      | Some (BDocument c) \<Rightarrow> straight_parts c (q # ps)
      | _ \<Rightarrow> True)"
| "straight_parts d ps = True"

definition holds_kind :: "document \<Rightarrow> string \<Rightarrow> kind_value \<Rightarrow> bool" where
  "holds_kind d p x =
     (straight_parts d (split_on dot p) \<and> \<not> starts_with p ''$'' \<and> kind_value_of (get_path d p) = Some x)"

section \<open>The server\<close>

locale query_server =
  fixes matches :: "document \<Rightarrow> document \<Rightarrow> bool"
  assumes conj: "fs \<noteq> [] \<Longrightarrow> matches d [(''$and'', BArray (map BDocument fs))] \<longleftrightarrow> (\<forall>f \<in> set fs. matches d f)"
    and disj: "fs \<noteq> [] \<Longrightarrow> matches d [(''$or'', BArray (map BDocument fs))] \<longleftrightarrow> (\<exists>f \<in> set fs. matches d f)"
    and equal: "holds_kind d p x \<Longrightarrow> kind_value_of (Some w) = Some y \<Longrightarrow> matches d [(p, w)] \<longleftrightarrow> same_value x y"
    and unequal: "holds_kind d p x \<Longrightarrow> kind_value_of (Some w) = Some y \<Longrightarrow>
      matches d [(p, BDocument [(''$ne'', w)])] \<longleftrightarrow> \<not> same_value x y"
    and order: "holds_kind d p x \<Longrightarrow> kind_value_of (Some w) = Some y \<Longrightarrow> op \<in> set order_ops \<Longrightarrow>
      \<not> same_kind x y \<or> (\<exists>a. x = Number a) \<or> (\<exists>t. x = Time t) \<Longrightarrow>
      matches d [(p, BDocument [(order_name op, w)])] \<longleftrightarrow> ordered op x y"
    and member: "holds_kind d p x \<Longrightarrow> \<forall>w \<in> set ws. kind_value_of (Some w) \<noteq> None \<Longrightarrow>
      matches d [(p, BDocument [(''$in'', BArray ws)])] \<longleftrightarrow> (\<exists>w \<in> set ws. \<exists>y. kind_value_of (Some w) = Some y \<and> same_value x y)"
    and no_member: "holds_kind d p x \<Longrightarrow> \<forall>w \<in> set ws. kind_value_of (Some w) \<noteq> None \<Longrightarrow>
      matches d [(p, BDocument [(''$nin'', BArray ws)])] \<longleftrightarrow> \<not> (\<exists>w \<in> set ws. \<exists>y. kind_value_of (Some w) = Some y \<and> same_value x y)"
    and present: "holds_kind d p x \<Longrightarrow> \<forall>w \<in> set ws. kind_value_of (Some w) \<noteq> None \<Longrightarrow>
      matches d [(p, BDocument [(''$exists'', BBoolean True), (''$nin'', BArray ws)])] \<longleftrightarrow>
        get_path d p \<noteq> None \<and> \<not> (\<exists>w \<in> set ws. \<exists>y. kind_value_of (Some w) = Some y \<and> same_value x y)"

section \<open>Where the two meanings agree\<close>

text \<open>A literal as the filter has it: a text that is a date becomes one.\<close>

definition dated :: "ext \<Rightarrow> bson \<Rightarrow> bson" where
  "dated E w = (case w of BString s \<Rightarrow> (case x_rfc3339 E s of Some ms \<Rightarrow> BDateTime ms | None \<Rightarrow> w) | _ \<Rightarrow> w)"

text \<open>The field holds no text that reads as a date, and order is asked of numbers and times only.\<close>

definition value_agrees :: "ext \<Rightarrow> string \<Rightarrow> kind_value \<Rightarrow> bson \<Rightarrow> bool" where
  "value_agrees E op x w =
     ((\<forall>s. x = Text s \<longrightarrow> x_rfc3339 E s = None)
      \<and> (case kind_value_of (Some (dated E w)) of
           None \<Rightarrow> False
         | Some y \<Rightarrow> op \<in> set order_ops \<longrightarrow>
             \<not> same_kind x y \<or> (\<exists>a. x = Number a) \<or> (\<exists>t. x = Time t)))"

definition term_agrees :: "ext \<Rightarrow> document \<Rightarrow> string \<Rightarrow> bool" where
  "term_agrees E d term =
     (case split_term E term of
        None \<Rightarrow> \<exists>x. holds_kind d (trim term) x
      | Some (lhs, op, rhs) \<Rightarrow>
          \<exists>x. holds_kind d lhs x \<and>
            (if op = ''in'' \<or> op = ''not in''
             then \<forall>ws. parse_list rhs = Some (Some ws) \<longrightarrow> (\<forall>w \<in> set ws. value_agrees E op x w)
             else \<forall>w. parse_literal rhs = Some w \<longrightarrow> value_agrees E op x w))"

text \<open>The terms of a condition.\<close>

definition cond_terms :: "condition \<Rightarrow> string list" where
  "cond_terms c = concat (map (\<lambda>part. map trim (split_top part '' and '')) (split_top (cond_text c) '' or ''))"

section \<open>Equality and order\<close>

abbreviation field_value :: "document \<Rightarrow> string \<Rightarrow> bson" where
  "field_value d p \<equiv> (case get_path d p of None \<Rightarrow> BNull | Some v \<Rightarrow> v)"

lemma field_kind: "kind_value_of (get_path d p) = Some x \<Longrightarrow> kind_value_of (Some (field_value d p)) = Some x"
  by (cases "get_path d p") simp_all

text \<open>Literals have few types.\<close>

lemma parse_literal_cases:
  assumes "parse_literal s = Some w"
  obtains t where "w = BString t" | b where "w = BBoolean b" | "w = BNull" | i where "w = BInt64 i" | x where "w = BDouble x"
  using assms by (auto simp: parse_literal_def Let_def split: if_splits option.splits)

lemma bson_eq_kind:
  assumes "kind_value_of (Some v) = Some x" "kind_value_of (Some (dated E w)) = Some y"
    and "\<forall>s. x = Text s \<longrightarrow> x_rfc3339 E s = None" "\<exists>s. parse_literal s = Some w"
  shows "bson_eq E v w \<longleftrightarrow> same_value x y"
proof -
  obtain s where "parse_literal s = Some w" using assms(4) by blast
  then show ?thesis
    by (cases rule: parse_literal_cases)
      (use assms(1-3) in \<open>cases v; force simp: bson_eq_def dated_def split: if_splits option.splits\<close>)+
qed

lemma order_kind:
  assumes "kind_value_of (Some v) = Some x" "kind_value_of (Some (dated E w)) = Some y"
    and "\<forall>s. x = Text s \<longrightarrow> x_rfc3339 E s = None" "\<exists>s. parse_literal s = Some w" "op \<in> set order_ops"
  shows "(case (as_f64 v, as_f64 w) of
       (Some a, Some b) \<Rightarrow> compare_f64 op a b
     | _ \<Rightarrow> (case (as_millis E v, as_millis E w) of
               (Some a, Some b) \<Rightarrow> compare_f64 op (f64_of_int (sint a)) (f64_of_int (sint b))
             | _ \<Rightarrow> False)) \<longleftrightarrow> ordered op x y"
proof -
  have times: "compare_f64 op (f64_of_int (sint a)) (f64_of_int (sint b)) \<longleftrightarrow> ordered op (Time a) (Time b)"
    if "exact_int (sint a)" "exact_int (sint b)" for a b :: i64
    using that f64_of_int_exact [of "sint a" "sint b"] f64_of_int_exact [of "sint b" "sint a"]
    by (simp add: exact_int_def compare_f64_def)
  obtain s where "parse_literal s = Some w" using assms(4) by blast
  then show ?thesis
    by (cases rule: parse_literal_cases)
      (use assms(1-3) times in \<open>cases v; force simp: dated_def split: if_splits option.splits\<close>)+
qed

lemma trim_quoted: "trim (quoted s) = quoted s"
proof (rule trim_id)
  have "list_all (\<lambda>w. hd w \<noteq> CHR 0x27 \<and> last w \<noteq> CHR 0x27) utf8_ws" by code_simp
  then have "\<forall>w \<in> set utf8_ws. hd w \<noteq> CHR 0x27 \<and> last w \<noteq> CHR 0x27" by (simp only: list_all_iff)
  moreover have "hd (quoted s) = CHR 0x27" "last (quoted s) = CHR 0x27" "quoted s \<noteq> []"
    by (simp_all add: quoted_def sq_def)
  ultimately show "quoted s \<noteq> []" "\<forall>w \<in> set utf8_ws. hd w \<noteq> hd (quoted s)" "\<forall>w \<in> set utf8_ws. last w \<noteq> last (quoted s)"
    by simp_all
qed

lemma parse_quoted: "parse_literal (quoted s) = Some (BString s)"
proof -
  have "quoted s = CHR 0x27 # s @ [CHR 0x27]" by (simp add: quoted_def sq_def)
  moreover from this have "quoted_by (quoted s) (CHR 0x27)"
    by (simp add: quoted_by_def starts_with_iff ends_with_iff suffix_def)
  ultimately show ?thesis
    unfolding parse_literal_def Let_def trim_quoted by (simp add: inner_slice_def)
qed

lemma literal_filter: "literal_to_filter_bson E s = map_option (dated E) (parse_literal s)"
  by (auto simp: literal_to_filter_bson_def dated_def split: option.splits bson.splits)

lemma list_item_filter: "list_item_to_filter E w = Some (dated E w)"
  by (cases w) (auto simp: list_item_to_filter_def literal_filter parse_quoted dated_def)

lemma map_opt_total: "(\<And>x. x \<in> set xs \<Longrightarrow> f x = Some (g x)) \<Longrightarrow> map_opt f xs = Some (map g xs)"
  by (induction xs) auto

lemma map_opt_Some: "map_opt f xs = Some ys \<Longrightarrow> length ys = length xs \<and> (\<forall>x \<in> set xs. f x \<noteq> None) \<and> ys = map (the \<circ> f) xs"
  by (induction xs arbitrary: ys) (auto split: option.splits)

lemma parse_list_literals: "parse_list s = Some (Some ws) \<Longrightarrow> w \<in> set ws \<Longrightarrow> \<exists>t. parse_literal t = Some w"
  by (fastforce simp: parse_list_def Let_def split: if_splits dest!: map_opt_Some)

lemma f64_of_int_zero: "f64_of_int 0 = 0"
  by (simp add: f64_of_int_def f64_of_ratio_def f64_zero_def)

lemma exact_i32: "exact_int (sint (i :: i32))"
  using sint_range_size [of i] by (auto simp: exact_int_def word_size)

lemma exact_zero: "exact_int (sint (i :: 'a::len word)) \<Longrightarrow> f64_eq (f64_of_int (sint i)) 0 \<longleftrightarrow> i = 0"
proof -
  assume "exact_int (sint i)"
  moreover have "sint i = 0 \<longleftrightarrow> i = 0" by (rule signed_eq_0_iff)
  ultimately show ?thesis using f64_of_int_exact(2) [of "sint i" 0] by (simp add: exact_int_def f64_of_int_zero)
qed

lemma f64_eq_zero: "f64_eq 0 0"
  by (simp add: f64_eq_def is_nan_def f64_exp_def f64_frac_def)

text \<open>Pieces, and conditions that do not panic.\<close>

lemma split_top_not_empty: "split_top s sep \<noteq> []"
proof -
  have "split_top_loop sep s q cur \<noteq> []" for q cur
  proof (induction sep s q cur rule: split_top_loop.induct)
    case (1 sep s quote cur)
    show ?case
      by (subst split_top_loop.simps) (cases s; cases quote; use 1 in simp)
  qed
  then show ?thesis by (simp add: split_top_def)
qed

lemma all_opt_total: "(\<And>x. x \<in> set xs \<Longrightarrow> p x = Some (q x)) \<Longrightarrow> all_opt p xs = Some (\<forall>x \<in> set xs. q x)"
  by (induction xs) (auto split: bool.splits)

lemma any_opt_total: "(\<And>x. x \<in> set xs \<Longrightarrow> p x = Some (q x)) \<Longrightarrow> any_opt p xs = Some (\<exists>x \<in> set xs. q x)"
  by (induction xs) (auto split: bool.splits)

lemma first_op_mem: "first_op f ops = Some (op, i) \<Longrightarrow> op \<in> set ops"
  by (induction ops) (auto split: option.splits)

lemma split_term_op: "split_term E t = Some (lhs, op, rhs) \<Longrightarrow> op \<in> set (sym_ops @ word_ops)"
  by (auto simp: split_term_def split: option.splits dest: first_op_mem)

section \<open>One term\<close>

context query_server begin

lemma list_agrees:
  assumes h: "holds_kind d lhs x" and op: "op = ''in'' \<or> op = ''not in''"
    and ok: "\<forall>ws. parse_list rhs = Some (Some ws) \<longrightarrow> (\<forall>w \<in> set ws. value_agrees E op x w)"
    and f: "filter_compare E lhs op rhs = Some f"
  shows "eval_compare E lhs op rhs d = Some (matches d f)"
proof -
  obtain l where l: "parse_list rhs = Some l" using f op by (auto simp: filter_compare_def split: option.splits)
  let ?ws = "case l of None \<Rightarrow> [] | Some vs \<Rightarrow> vs"
  have agree: "\<forall>w \<in> set ?ws. value_agrees E op x w" using ok l by (auto split: option.splits)
  have f': "f = [(lhs, BDocument [(if op = ''in'' then ''$in'' else ''$nin'', BArray (map (dated E) ?ws))])]"
    using f op l map_opt_total [of ?ws "list_item_to_filter E" "dated E", OF list_item_filter]
    by (auto simp: filter_compare_def split: option.splits)
  have kinds: "\<forall>w \<in> set (map (dated E) ?ws). kind_value_of (Some w) \<noteq> None"
    using agree by (auto simp: value_agrees_def split: option.splits)
  have "bson_eq E (field_value d lhs) w \<longleftrightarrow> (\<exists>y. kind_value_of (Some (dated E w)) = Some y \<and> same_value x y)"
    if w: "w \<in> set ?ws" for w
  proof -
    obtain y where "kind_value_of (Some (dated E w)) = Some y" using kinds w by auto
    moreover have "\<forall>s. x = Text s \<longrightarrow> x_rfc3339 E s = None" using agree w by (auto simp: value_agrees_def)
    moreover have "\<exists>s. parse_literal s = Some w" using w l parse_list_literals by (cases l) auto
    ultimately show ?thesis
      using bson_eq_kind [OF field_kind, of d lhs x E w y] h by (auto simp: holds_kind_def)
  qed
  then have "list_ex (bson_eq E (field_value d lhs)) ?ws \<longleftrightarrow>
      (\<exists>w \<in> set (map (dated E) ?ws). \<exists>y. kind_value_of (Some w) = Some y \<and> same_value x y)"
    by (auto simp: list_ex_iff)
  with member [OF h kinds] no_member [OF h kinds] op l f' show ?thesis
    by (auto simp: eval_compare_def Let_def)
qed

lemma literal_agrees:
  assumes h: "holds_kind d lhs x" and no_list: "\<not> (op = ''in'' \<or> op = ''not in'')"
    and ok: "\<forall>w. parse_literal rhs = Some w \<longrightarrow> value_agrees E op x w"
    and op: "op \<in> set (sym_ops @ word_ops)" and f: "filter_compare E lhs op rhs = Some f"
  shows "eval_compare E lhs op rhs d = Some (matches d f)"
proof -
  obtain w where w: "parse_literal rhs = Some w"
    using f no_list by (auto simp: filter_compare_def literal_filter)
  have agree: "value_agrees E op x w" using ok w by auto
  then obtain y where y: "kind_value_of (Some (dated E w)) = Some y"
    and dates: "\<forall>s. x = Text s \<longrightarrow> x_rfc3339 E s = None"
    by (auto simp: value_agrees_def split: option.splits)
  have v: "kind_value_of (Some (field_value d lhs)) = Some x" using h field_kind by (auto simp: holds_kind_def)
  have lit: "\<exists>s. parse_literal s = Some w" using w by blast
  note eq = bson_eq_kind [OF v y dates lit]
  consider "op = ''==''" | "op = ''!=''" | "op \<in> set order_ops"
    using op no_list by (auto simp: sym_ops_def word_ops_def order_ops_def)
  then show ?thesis
  proof cases
    case 1
    then have "f = [(lhs, dated E w)]" using f no_list w by (simp add: filter_compare_def literal_filter)
    with 1 eq equal [OF h y] w show ?thesis by (simp add: eval_compare_def Let_def)
  next
    case 2
    then have "f = [(lhs, BDocument [(''$ne'', dated E w)])]" using f no_list w by (simp add: filter_compare_def literal_filter)
    with 2 eq unequal [OF h y] w show ?thesis by (simp add: eval_compare_def Let_def)
  next
    case 3
    have "op \<noteq> ''==''" "op \<noteq> ''!=''" using 3 by (auto simp: order_ops_def)
    then have "f = [(lhs, BDocument [(order_name op, dated E w)])]"
      using f no_list w by (simp add: filter_compare_def literal_filter order_name_def)
    moreover have "\<not> same_kind x y \<or> (\<exists>a. x = Number a) \<or> (\<exists>t. x = Time t)"
      using agree 3 y by (simp add: value_agrees_def)
    moreover note order_kind [OF v y dates lit 3]
    ultimately show ?thesis
      using order [OF h y 3] w no_list \<open>op \<noteq> ''==''\<close> \<open>op \<noteq> ''!=''\<close> by (simp add: eval_compare_def Let_def)
  qed
qed

lemma compare_agrees:
  assumes "holds_kind d lhs x"
    and "if op = ''in'' \<or> op = ''not in''
      then \<forall>ws. parse_list rhs = Some (Some ws) \<longrightarrow> (\<forall>w \<in> set ws. value_agrees E op x w)
      else \<forall>w. parse_literal rhs = Some w \<longrightarrow> value_agrees E op x w"
    and "op \<in> set (sym_ops @ word_ops)" "filter_compare E lhs op rhs = Some f"
  shows "eval_compare E lhs op rhs d = Some (matches d f)"
  using assms list_agrees literal_agrees by (cases "op = ''in'' \<or> op = ''not in''") simp_all

lemma truthy_agrees:
  assumes "holds_kind d p x"
  shows "truthy (get_path d p) \<longleftrightarrow>
    matches d [(p, BDocument [(''$exists'', BBoolean True), (''$nin'', BArray falsy_values)])]"
proof -
  have kinds: "\<forall>w \<in> set falsy_values. kind_value_of (Some w) \<noteq> None" by (simp add: falsy_values_def)
  show ?thesis
    unfolding present [OF assms kinds]
    using assms
    by (cases "get_path d p"; cases "the (get_path d p)")
      (auto simp: holds_kind_def falsy_values_def f64_of_int_zero f64_eq_zero exact_i32 exact_zero split: if_splits)
qed

lemma term_agrees_eval:
  assumes "term_agrees E d t" "filter_term E t = Some f"
  shows "eval_term E t d = Some (matches d f)"
proof (cases "split_term E t")
  case None
  with assms obtain x where "holds_kind d (trim t) x" by (auto simp: term_agrees_def)
  with truthy_agrees [OF this] None assms(2) show ?thesis by (simp add: eval_term_def filter_term_def)
next
  case (Some r)
  obtain lhs op rhs where r: "r = (lhs, op, rhs)" by (cases r)
  with assms(1) Some obtain x where "holds_kind d lhs x"
    and "if op = ''in'' \<or> op = ''not in''
      then \<forall>ws. parse_list rhs = Some (Some ws) \<longrightarrow> (\<forall>w \<in> set ws. value_agrees E op x w)
      else \<forall>w. parse_literal rhs = Some w \<longrightarrow> value_agrees E op x w"
    unfolding term_agrees_def by auto
  moreover have "op \<in> set (sym_ops @ word_ops)" using Some r split_term_op by blast
  moreover have "filter_compare E lhs op rhs = Some f" using assms(2) Some r by (simp add: filter_term_def)
  ultimately have "eval_compare E lhs op rhs d = Some (matches d f)" by (rule compare_agrees)
  then show ?thesis using Some r by (simp add: eval_term_def)
qed

lemma combine_and: "fs \<noteq> [] \<Longrightarrow> matches d (combine_filters ''$and'' fs) \<longleftrightarrow> (\<forall>f \<in> set fs. matches d f)"
  using conj [of fs d] by (cases fs; cases "tl fs") (auto simp: combine_filters_def)

lemma combine_or: "fs \<noteq> [] \<Longrightarrow> matches d (combine_filters ''$or'' fs) \<longleftrightarrow> (\<exists>f \<in> set fs. matches d f)"
  using disj [of fs d] by (cases fs; cases "tl fs") (auto simp: combine_filters_def)

lemma and_agrees:
  assumes "\<forall>t \<in> set (map trim (split_top part '' and '')). term_agrees E d t" "filter_and E part = Some f"
  shows "eval_and E part d = Some (matches d f)"
proof -
  let ?ps = "split_top part '' and ''" and ?g = "\<lambda>c. filter_term E (trim c)"
  obtain fs where fs: "map_opt ?g ?ps = Some fs" "f = combine_filters ''$and'' fs"
    using assms(2) by (auto simp: filter_and_def)
  note each = map_opt_Some [OF fs(1)]
  have "eval_term E (trim c) d = Some (matches d (the (?g c)))" if "c \<in> set ?ps" for c
    using term_agrees_eval [of E d "trim c"] assms(1) each that by auto
  then have "eval_and E part d = Some (\<forall>c \<in> set ?ps. matches d (the (?g c)))"
    unfolding eval_and_def by (intro all_opt_total)
  moreover have "fs \<noteq> []" using each split_top_not_empty by (metis length_0_conv)
  ultimately show ?thesis using each by (simp add: fs(2) combine_and)
qed

lemma or_agrees:
  assumes "\<forall>t \<in> set (cond_terms c). term_agrees E d t" "to_filter E c = Some f"
  shows "eval_cond E c d = Some (matches d f)"
proof -
  let ?ps = "split_top (cond_text c) '' or ''"
  obtain fs where fs: "map_opt (filter_and E) ?ps = Some fs" "f = combine_filters ''$or'' fs"
    using assms(2) by (auto simp: to_filter_def filter_or_def)
  note each = map_opt_Some [OF fs(1)]
  have "eval_and E p d = Some (matches d (the (filter_and E p)))" if "p \<in> set ?ps" for p
    using assms(1) each that by (intro and_agrees) (auto simp: cond_terms_def)
  then have "eval_cond E c d = Some (\<exists>p \<in> set ?ps. matches d (the (filter_and E p)))"
    unfolding eval_cond_def eval_or_def by (intro any_opt_total)
  moreover have "fs \<noteq> []" using each split_top_not_empty by (metis length_0_conv)
  ultimately show ?thesis using each by (simp add: fs(2) combine_or)
qed

end

section \<open>A server\<close>

text \<open>The documented operators as a function: the condition's filters use no others.\<close>

fun bytes_less :: "string \<Rightarrow> string \<Rightarrow> bool" where
  "bytes_less [] t = (t \<noteq> [])"
| "bytes_less (c # s) [] = False"
| "bytes_less (c # s) (e # t) = ((of_char c :: int) < of_char e \<or> c = e \<and> bytes_less s t)"

fun server_less :: "kind_value \<Rightarrow> kind_value \<Rightarrow> bool" where
  "server_less (Number x) (Number y) = f64_lt x y"
| "server_less (Time a) (Time b) = (sint a < sint b)"
| "server_less (Text s) (Text t) = bytes_less s t"
| "server_less (Flag a) (Flag b) = (\<not> a \<and> b)"
| "server_less x y = False"

definition equals_bson :: "kind_value \<Rightarrow> bson \<Rightarrow> bool" where
  "equals_bson x w = (case kind_value_of (Some w) of None \<Rightarrow> False | Some y \<Rightarrow> same_value x y)"

definition order_bson :: "string \<Rightarrow> kind_value \<Rightarrow> bson \<Rightarrow> bool" where
  "order_bson k x w =
     (case kind_value_of (Some w) of
        None \<Rightarrow> False
      | Some y \<Rightarrow>
          if k = ''$gt'' then server_less y x
          else if k = ''$lt'' then server_less x y
          else if k = ''$gte'' then server_less y x \<or> same_value x y
          else k = ''$lte'' \<and> (server_less x y \<or> same_value x y))"

fun test_holds :: "bool \<Rightarrow> kind_value \<Rightarrow> string \<times> bson \<Rightarrow> bool" where
  "test_holds there x (k, w) =
     (if k = ''$ne'' then \<not> equals_bson x w
      else if k = ''$in'' then (case w of BArray ws \<Rightarrow> list_ex (equals_bson x) ws | _ \<Rightarrow> False)
      else if k = ''$nin'' then (case w of BArray ws \<Rightarrow> \<not> list_ex (equals_bson x) ws | _ \<Rightarrow> False)
      else if k = ''$exists'' then w = BBoolean there
      else order_bson k x w)"

definition field_holds :: "document \<Rightarrow> string \<Rightarrow> bson \<Rightarrow> bool" where
  "field_holds d p v =
     (case kind_value_of (get_path d p) of
        None \<Rightarrow> False
      | Some x \<Rightarrow> (case v of BDocument ts \<Rightarrow> list_all (test_holds (get_path d p \<noteq> None) x) ts | _ \<Rightarrow> equals_bson x v))"

lemma bson_size_in: "b \<in> set fs \<Longrightarrow> size b < Suc (size_list size fs)"
  by (induction fs) auto

function server_matches :: "document \<Rightarrow> document \<Rightarrow> bool" where
  "server_matches d [] = True"
| "server_matches d ((k, v) # rest) =
     ((if k = ''$and'' \<or> k = ''$or''
       then (case v of
               BArray fs \<Rightarrow>
                 let ms = map (\<lambda>f. case f of BDocument q \<Rightarrow> server_matches d q | _ \<Rightarrow> False) fs
                 in if k = ''$and'' then list_all id ms else list_ex id ms
             | _ \<Rightarrow> False)
       else field_holds d k v)
      \<and> server_matches d rest)"
  by pat_completeness auto

termination
  by (relation "measure (\<lambda>(d, q). size (BDocument q))") (use bson_size_in in fastforce)+

lemma kind_not_nan: "kind_value_of v = Some (Number a) \<Longrightarrow> \<not> is_nan a"
  by (cases v rule: kind_value_of.cases) (use exact_i32 in \<open>auto simp: exact_int_def f64_of_int_key(2) split: if_splits\<close>)

lemma order_server:
  assumes "kind_value_of (Some w) = Some y" "op \<in> set order_ops"
    and "\<not> same_kind x y \<or> (\<exists>a. x = Number a) \<or> (\<exists>t. x = Time t)"
  shows "order_bson (order_name op) x w \<longleftrightarrow> ordered op x y"
  using assms
  by (cases x; cases y)
    (auto simp: order_bson_def order_name_def order_ops_def compare_f64_def f64_le_lt_eq f64_eq_def
      word_eq_iff_signed [where 'a = int] dest: sym)

lemma document_kindless: "kind_value_of (Some w) \<noteq> None \<Longrightarrow> field_holds d p w \<longleftrightarrow>
    (case kind_value_of (get_path d p) of None \<Rightarrow> False | Some x \<Rightarrow> equals_bson x w)"
  by (cases w) (auto simp: field_holds_def split: option.splits)

lemma equals_list:
  assumes "\<forall>w \<in> set ws. kind_value_of (Some w) \<noteq> None"
  shows "list_ex (equals_bson x) ws \<longleftrightarrow> (\<exists>w \<in> set ws. \<exists>y. kind_value_of (Some w) = Some y \<and> same_value x y)"
  using assms by (fastforce simp: list_ex_iff equals_bson_def split: option.splits)

lemma server_field: "\<not> starts_with p ''$'' \<Longrightarrow> server_matches d [(p, v)] \<longleftrightarrow> field_holds d p v"
  by auto

lemma operator_name: "op \<in> set order_ops \<Longrightarrow> order_name op \<notin> {''$ne'', ''$in'', ''$nin'', ''$exists''}"
  by (auto simp: order_ops_def order_name_def)

interpretation documented: query_server server_matches
proof unfold_locales
  fix d :: document and p x w y
  assume h: "holds_kind d p x"
  then have k: "kind_value_of (get_path d p) = Some x" and n: "\<not> starts_with p ''$''" by (auto simp: holds_kind_def)
  note field = server_field [OF n] and tests = field_holds_def [of d p] k
  {
    fix ws
    assume ws: "\<forall>w \<in> set ws. kind_value_of (Some w) \<noteq> None"
    note l = equals_list [OF ws, of x]
    show "server_matches d [(p, BDocument [(''$in'', BArray ws)])] \<longleftrightarrow>
        (\<exists>w \<in> set ws. \<exists>y. kind_value_of (Some w) = Some y \<and> same_value x y)"
      unfolding field by (simp add: tests l)
    show "server_matches d [(p, BDocument [(''$nin'', BArray ws)])] \<longleftrightarrow>
        \<not> (\<exists>w \<in> set ws. \<exists>y. kind_value_of (Some w) = Some y \<and> same_value x y)"
      unfolding field by (simp add: tests l)
    show "server_matches d [(p, BDocument [(''$exists'', BBoolean True), (''$nin'', BArray ws)])] \<longleftrightarrow>
        get_path d p \<noteq> None \<and> \<not> (\<exists>w \<in> set ws. \<exists>y. kind_value_of (Some w) = Some y \<and> same_value x y)"
      unfolding field by (auto simp: tests l)
  next
    assume w: "kind_value_of (Some w) = Some y"
    show "server_matches d [(p, w)] \<longleftrightarrow> same_value x y"
      unfolding field using w by (simp add: document_kindless k equals_bson_def)
    show "server_matches d [(p, BDocument [(''$ne'', w)])] \<longleftrightarrow> \<not> same_value x y"
      unfolding field using w by (simp add: tests equals_bson_def)
    fix op
    assume "op \<in> set order_ops" "\<not> same_kind x y \<or> (\<exists>a. x = Number a) \<or> (\<exists>t. x = Time t)"
    then show "server_matches d [(p, BDocument [(order_name op, w)])] \<longleftrightarrow> ordered op x y"
      unfolding field using order_server [OF w] operator_name [of op] by (simp add: tests)
  }
qed (auto simp: list_all_iff list_ex_iff o_def)

section \<open>The two meanings\<close>

text \<open>
  C17. A condition pushed down to the server selects the documents that evaluating it in memory selects.
  For a server whose operators compare as MongoDB documents, for every condition that translates and every
  document on which each term's field holds a number that a double represents, a time, a text that does not read
  as a date, a boolean or null, outside arrays, and on which only numbers and times (or values of
  different types) are asked for their order, the in-memory evaluator
  returns, without panicking, exactly whether the document matches the filter: through \<open>or\<close> and \<open>and\<close>, the
  eight comparison operators, the lists of \<open>in\<close> and \<open>not in\<close> and the truth of a bare field.
\<close>

theorem pushdown_agrees:
  assumes "query_server matches" "to_filter E c = Some f"
    and "\<forall>t \<in> set (cond_terms c). term_agrees E d t"
  shows "eval_cond E c d = Some (matches d f)"
  using query_server.or_agrees [OF assms(1,3,2)] .

definition sample_cond :: condition where
  "sample_cond = \<lparr>cond_text = ''age >= 18 and country in ['FR', 'US'] or admin''\<rparr>"

definition sample_person :: document where
  "sample_person = [(''age'', BInt32 30), (''country'', BString ''US'')]"

lemma cond_sample_terms: "cond_terms sample_cond = [''age >= 18'', ''country in ['FR', 'US']'', ''admin'']"
  by code_simp

lemma cond_sample_splits:
  "split_term sample_ext ''age >= 18'' = Some (''age'', ''>='', ''18'')"
  "split_term sample_ext ''country in ['FR', 'US']'' = Some (''country'', ''in'', ''['FR', 'US']'')"
  "split_term sample_ext ''admin'' = None"
  "parse_literal ''18'' = Some (BInt64 18)"
  "parse_list ''['FR', 'US']'' = Some (Some [BString ''FR'', BString ''US''])"
  "trim ''admin'' = ''admin''"
  by code_simp+

lemma person_fields:
  "holds_kind sample_person ''age'' (Number (f64_of_int 30))"
  "holds_kind sample_person ''country'' (Text ''US'')"
  "holds_kind sample_person ''admin'' Nothing"
  by code_simp+

lemma cond_sample_agrees: "\<forall>t \<in> set (cond_terms sample_cond). term_agrees sample_ext sample_person t"
proof -
  have "value_agrees sample_ext ''>='' (Number (f64_of_int 30)) (BInt64 18)"
    "value_agrees sample_ext ''in'' (Text ''US'') (BString s)" for s
    by (simp_all add: value_agrees_def dated_def exact_int_def order_ops_def sample_ext_def)
  with person_fields have "term_agrees sample_ext sample_person ''age >= 18''"
    "term_agrees sample_ext sample_person ''country in ['FR', 'US']''"
    "term_agrees sample_ext sample_person ''admin''"
    unfolding term_agrees_def cond_sample_splits by (auto simp: cond_sample_splits)
  then show ?thesis by (simp add: cond_sample_terms)
qed

theorem pushdown_agrees_witness:
  "(\<exists>f. to_filter sample_ext sample_cond = Some f \<and> length f = 1
        \<and> eval_cond sample_ext sample_cond sample_person = Some (server_matches sample_person f))
   \<and> eval_cond sample_ext sample_cond sample_person = Some True"
proof -
  obtain f where f: "to_filter sample_ext sample_cond = Some f" "length f = 1"
  proof -
    have "map_option length (to_filter sample_ext sample_cond) = Some 1" by code_simp
    then show thesis using that by auto
  qed
  have "eval_cond sample_ext sample_cond sample_person = Some True" by code_simp
  with f pushdown_agrees [OF documented.query_server_axioms f(1) cond_sample_agrees] show ?thesis by blast
qed

section \<open>Where they differ\<close>

text \<open>The evaluator orders no texts, the server does.\<close>

lemma text_order_never:
  assumes "get_path d lhs = Some (BString s)" "parse_literal rhs = Some (BString t)"
    and "x_rfc3339 E s = None \<or> x_rfc3339 E t = None" "op \<in> set order_ops"
  shows "eval_compare E lhs op rhs d = Some False"
  using assms by (auto simp: eval_compare_def order_ops_def split: option.splits)

lemma text_order_differs:
  "let c = \<lparr>cond_text = ''name < m''\<rparr>; d = [(''name'', BString ''a'')]
   in eval_cond sample_ext c d = Some False
     \<and> map_option (server_matches d) (to_filter sample_ext c) = Some True"
  by code_simp

text \<open>A field that holds a date as a text equals the literal in memory; the filter asks for a date.\<close>

definition dates_ext :: ext where
  "dates_ext = sample_ext\<lparr>x_rfc3339 := (\<lambda>s. if s = ''2024-01-01T00:00:00Z'' then Some 1704067200000 else None)\<rparr>"

lemma text_date_differs:
  "let c = \<lparr>cond_text = ''at == 2024-01-01T00:00:00Z''\<rparr>; d = [(''at'', BString ''2024-01-01T00:00:00Z'')]
   in eval_cond dates_ext c d = Some True
     \<and> map_option (server_matches d) (to_filter dates_ext c) = Some False"
  by code_simp

text \<open>\<open>>= null\<close> holds of a missing field on the server only.\<close>

lemma null_order_differs:
  "let c = \<lparr>cond_text = ''left >= null''\<rparr>
   in eval_cond sample_ext c [] = Some False
     \<and> map_option (server_matches []) (to_filter sample_ext c) = Some True"
  by code_simp

text \<open>Integers beyond \<open>2^53\<close> are compared as doubles in memory.\<close>

lemma large_equal_in_memory:
  "let c = \<lparr>cond_text = ''id == 9007199254740993''\<rparr>; d = [(''id'', BInt64 9007199254740992)]
   in eval_cond sample_ext c d = Some True
     \<and> to_filter sample_ext c = Some [(''id'', BInt64 9007199254740993)]"
  by code_simp

end
