(* ===== verification/SpoolDump.thy ===== *)
theory SpoolDump
  imports DumpRun SpoolWriter
begin

text \<open>
  A dump with its local files (src/dump/create.rs over the writer of src/dump/mod.rs): the closure that a
  collection is streamed through writes to the spooling writer of SpoolWriter, where DumpRun keeps the
  bytes in memory. The sequential run of the two is compared: same result, same storage, and what is
  left in the temporary directory.
\<close>

section \<open>A collection through the spooling writer\<close>

text \<open>
  What the writer needs from its surroundings: the disk, the gzip encoder, \<open>put_file\<close> and
  \<open>multipart_writer\<close> of the storage, and the process identifier. The state is the counter of spool
  files (\<open>SPOOL_SEQ\<close>), the disk and the storage.
\<close>

record ('s, 'z) spooling =
  sv_os :: os
  sv_encoder :: "'z gzip_encoder"
  sv_put_file :: "string \<Rightarrow> string \<Rightarrow> disk \<times> 's \<Rightarrow> unit res \<times> disk \<times> 's"
  sv_multipart :: "string \<Rightarrow> 's \<Rightarrow> 's multipart_writer option res \<times> 's"
  sv_pid :: nat

text \<open>The document that the closure writes for a document read, if it writes one.\<close>

definition dumped_document :: "ext \<Rightarrow> dump_env \<Rightarrow> string \<Rightarrow> document \<Rightarrow> document option res" where
  "dumped_document E env coll doc =
     (case du_plan env of
        None \<Rightarrow> Inr (Some doc)
      | Some plan \<Rightarrow>
          if \<not> should_include plan coll doc then Inr None
          else map_sum id Some (plan_transform E plan (du_registry env) (du_engine env) coll doc))"

fun spool_documents ::
    "ext \<Rightarrow> codec \<Rightarrow> ('s, 'z) spooling \<Rightarrow> dump_env \<Rightarrow> string \<Rightarrow> document list
       \<Rightarrow> ('s, 'z) blob_writer \<Rightarrow> disk \<times> 's \<Rightarrow> unit res \<times> ('s, 'z) blob_writer \<times> disk \<times> 's" where
  "spool_documents E C V env coll [] w st = (Inr (), w, st)"
| "spool_documents E C V env coll (doc # docs) w st =
     (case dumped_document E env coll doc of
        Inl e \<Rightarrow> (Inl e, w, st)
      | Inr None \<Rightarrow> spool_documents E C V env coll docs w st
      | Inr (Some out) \<Rightarrow>
          (case bw_write C (sv_os V) (sv_encoder V) out w st of
             (Inl e, w', st') \<Rightarrow> (Inl e, w', st')
           | (Inr u, w', st') \<Rightarrow> spool_documents E C V env coll docs w' st'))"

text \<open>The counter is taken after the temporary directory was made.\<close>

definition next_seq :: "('s, 'z) spooling \<Rightarrow> string \<Rightarrow> string \<Rightarrow> nat \<times> disk \<times> 's \<Rightarrow> nat" where
  "next_seq V tmp path st =
     (case st of (seq, d, s) \<Rightarrow>
        (case fst (sv_multipart V path s) of
           Inr None \<Rightarrow> (if os_refuse (sv_os V) (MakeDirs tmp) d = None then seq + 1 else seq)
         | _ \<Rightarrow> seq))"

definition spool_collection ::
    "ext \<Rightarrow> codec \<Rightarrow> ('s, 'z) spooling \<Rightarrow> dump_env \<Rightarrow> string \<Rightarrow> string \<Rightarrow> string \<Rightarrow> string
       \<Rightarrow> nat \<times> disk \<times> 's \<Rightarrow> (nat \<times> nat) res \<times> nat \<times> disk \<times> 's" where
  "spool_collection E C V env did tmp db coll st =
     (let gz_on = do_gzip (du_options env);
          path = in_dump did (data_path db coll gz_on);
          seq' = next_seq V tmp path st
      in case bw_create (sv_os V) (sv_encoder V) (sv_multipart V) tmp (spool_path tmp (sv_pid V) (fst st) db coll)
                path gz_on (snd st) of
           (Inl e, st1) \<Rightarrow> (Inl e, seq', st1)
         | (Inr w, st1) \<Rightarrow>
             (case ms_stream (du_source env) db coll (kv_get coll (du_filters env)) of
                (docs, end_error) \<Rightarrow>
                  (case spool_documents E C V env coll docs w st1 of
                     (Inl e, w', st2) \<Rightarrow> (Inl e, seq', bw_drop (sv_os V) (sv_encoder V) w' st2)
                   | (Inr u, w', st2) \<Rightarrow>
                       (case end_error of
                          Some e \<Rightarrow> (Inl e, seq', bw_drop (sv_os V) (sv_encoder V) w' st2)
                        | None \<Rightarrow>
                            (case bw_finish (sv_os V) (sv_encoder V) (sv_put_file V) w' st2 of
                               (r, st3) \<Rightarrow> (map_sum id (Pair (bw_count w')) r, seq', st3))))))"

definition spool_item ::
    "ext \<Rightarrow> codec \<Rightarrow> 's storage \<Rightarrow> ('s, 'z) spooling \<Rightarrow> dump_env \<Rightarrow> string \<Rightarrow> string \<Rightarrow> work_item
       \<Rightarrow> nat \<times> disk \<times> 's \<Rightarrow> item_result \<times> nat \<times> disk \<times> 's" where
  "spool_item E C S V env did tmp it st =
     (case spool_collection E C V env did tmp (wi_db it) (wi_coll it) st of
        (Inl e, st1) \<Rightarrow> (Inl e, st1)
      | (Inr (count, sz), seq, d, s) \<Rightarrow>
          (case item_structure env (wi_db it) (wi_coll it) of
             Inl e \<Rightarrow> (Inl e, seq, d, s)
           | Inr sr \<Rightarrow>
               let toc = \<lparr>toc_name = wi_coll it, toc_count = count,
                          toc_indexes = map ix_name (st_indexes sr), toc_order = wi_order it\<rparr>
               in case write_collection_meta C S did
                        \<lparr>cm_database = wi_db it, cm_collection = wi_coll it, cm_count = count,
                         cm_indexes = st_indexes sr, cm_validator = st_validator sr,
                         cm_options = st_options sr\<rparr> s of
                    (r, s2) \<Rightarrow> (map_sum id (\<lambda>n. (sz + n, toc)) r, seq, d, s2)))"

fun spool_items ::
    "ext \<Rightarrow> codec \<Rightarrow> 's storage \<Rightarrow> ('s, 'z) spooling \<Rightarrow> dump_env \<Rightarrow> string \<Rightarrow> string \<Rightarrow> work_item list
       \<Rightarrow> nat \<times> disk \<times> 's \<Rightarrow> item_result option list \<times> nat \<times> disk \<times> 's" where
  "spool_items E C S V env did tmp [] st = ([], st)"
| "spool_items E C S V env did tmp (it # its) st =
     (case spool_item E C S V env did tmp it st of
        (r, st1) \<Rightarrow> (case spool_items E C S V env did tmp its st1 of (rs, st2) \<Rightarrow> (Some r # rs, st2)))"

text \<open>A run with one job.\<close>

definition spool_run ::
    "ext \<Rightarrow> codec \<Rightarrow> 's storage \<Rightarrow> ('s, 'z) spooling \<Rightarrow> dump_env \<Rightarrow> string \<Rightarrow> string
       \<Rightarrow> nat \<times> disk \<times> 's \<Rightarrow> dump_metadata res \<times> nat \<times> disk \<times> 's" where
  "spool_run E C S V env did created st =
     (case do_tmp_dir (du_options env) of
        None \<Rightarrow> (Inl (ConfigError ''common.tmp_dir must be configured before dumping''), st)
      | Some tmp \<Rightarrow>
          if tmp = [] then (Inl (ConfigError ''common.tmp_dir must be configured before dumping''), st)
          else case enumerate_items env of
                 Inl e \<Rightarrow> (Inl e, st)
               | Inr (names, items) \<Rightarrow>
                   (case spool_items E C S V env did tmp items st of
                      (results, seq, d, s1) \<Rightarrow>
                        (case collect_results items results 0 (replicate (length names) []) of
                           Inl e \<Rightarrow> (Inl e, seq, d, s1)
                         | Inr (sz, cbd) \<Rightarrow>
                             let meta = \<lparr>dm_id = did, dm_status = Done, dm_created_at = created,
                                         dm_databases = map (\<lambda>(n, cs). \<lparr>dt_name = n, dt_collections = cs\<rparr>)
                                                          (zip names cbd),
                                         dm_size = sz\<rparr>
                             in case write_metadata C S meta s1 of
                                  (r, s2) \<Rightarrow> (map_sum id (\<lambda>u. meta) r, seq, d, s2))))"

section \<open>The documents\<close>

lemma dump_document_via:
  "dump_document E C env coll doc w =
     (case dumped_document E env coll doc of
        Inl e \<Rightarrow> Inl e
      | Inr None \<Rightarrow> Inr w
      | Inr (Some out) \<Rightarrow> write_document C out w)"
  by (auto simp: dump_document_def dumped_document_def split: option.splits sum.splits)

text \<open>
  The writer in memory and the spooling one side by side. \<open>spooled x pend w dw\<close>: the bytes in the spool
  file and in the buffer, with what the encoder makes of the documents still to come, are the bytes of
  the blob.
\<close>

definition spooled ::
    "codec \<Rightarrow> 'z gzip_encoder \<Rightarrow> bool \<Rightarrow> string \<Rightarrow> bytes \<Rightarrow> bytes \<Rightarrow> ('s, 'z) blob_writer \<Rightarrow> data_writer \<Rightarrow> bool" where
  "spooled C G gz_on p x pend w dw =
     (bw_sink w = Spool p pend \<and> bw_target w = dw_path dw \<and> bw_count w = dw_count dw \<and> dw_gzip dw = gz_on
      \<and> (\<exists>ws. dw_raw dw = blob_of C ws \<and> (\<forall>doc \<in> set ws. enc_doc C doc \<noteq> None)
          \<and> (\<forall>more. x @ pend @ rest_of_blob C G more (bw_encoder w) =
               rest_of_blob C G (ws @ more) (if gz_on then Some (ge_new G) else None))))"

lemma spooled_open: "spooled C G gz_on p [] [] (open_writer G gz_on path (Spool p [])) (writer_create path gz_on)"
  by (auto simp: spooled_def open_writer_def writer_create_def blob_of_def intro!: exI [of _ "[]"])

lemma spooled_write_refused:
  assumes "write_document C out dw = Inl e"
  shows "bw_write C os G out w st = (Inl e, w, st)"
  using assms(1) by (auto simp: write_document_def bw_write_def split: option.splits)

lemma spooled_write:
  assumes "quiet os" "spooled C G gz_on p x pend w dw" "write_document C out dw = Inr dw'"
  obtains x' pend' w' where "bw_write C os G out w (d(p \<mapsto> x), s) = (Inr (), w', d(p \<mapsto> x'), s)"
    "spooled C G gz_on p x' pend' w' dw'"
proof -
  let ?enc = "if gz_on then Some (ge_new G) else None"
  from assms(2) have sink: "bw_sink w = Spool p pend" by (simp add: spooled_def)
  obtain bs where bs: "enc_doc C out = Some bs" "dw' = dw\<lparr>dw_raw := dw_raw dw @ bs, dw_count := dw_count dw + 1\<rparr>"
    using assms(3) by (auto simp: write_document_def split: option.splits)
  then have enc: "enc_doc C out \<noteq> None" by simp
  obtain x' pend' w' where w': "bw_write C os G out w (d(p \<mapsto> x), s) = (Inr (), w', d(p \<mapsto> x'), s)"
    "bw_sink w' = Spool p pend'" "bw_target w' = bw_target w" "bw_count w' = bw_count w + 1"
    "\<forall>docs. x' @ pend' @ rest_of_blob C G docs (bw_encoder w') = x @ pend @ rest_of_blob C G (out # docs) (bw_encoder w)"
    by (rule bw_write_quiet [OF assms(1) enc sink, of G d x s]) (rule that)
  from assms(2) obtain ws where ws: "dw_raw dw = blob_of C ws" "\<forall>doc \<in> set ws. enc_doc C doc \<noteq> None"
    "\<forall>more. x @ pend @ rest_of_blob C G more (bw_encoder w) = rest_of_blob C G (ws @ more) ?enc"
    by (auto simp: spooled_def)
  have "dw_raw dw' = blob_of C (ws @ [out])" using bs ws(1) by (simp add: encoding_def)
  moreover have "\<forall>doc \<in> set (ws @ [out]). enc_doc C doc \<noteq> None" using ws(2) enc by auto
  moreover have "\<forall>more. x' @ pend' @ rest_of_blob C G more (bw_encoder w') = rest_of_blob C G ((ws @ [out]) @ more) ?enc"
    using w'(5) ws(3) by simp
  moreover have "bw_target w' = dw_path dw'" "bw_count w' = dw_count dw'" "dw_gzip dw' = gz_on"
    using assms(2) w'(3,4) bs(2) by (simp_all add: spooled_def)
  ultimately have "spooled C G gz_on p x' pend' w' dw'" unfolding spooled_def using w'(2) by blast
  with w'(1) show thesis by (rule that)
qed

text \<open>The whole stream: the same documents are refused, and the relation holds at the end.\<close>

lemma spool_documents_sim:
  assumes "quiet (sv_os V)" "spooled C (sv_encoder V) gz_on p x pend w dw"
  shows "\<exists>w' x' pend'. bw_sink w' = Spool p pend' \<and>
    (case each_doc (dump_document E C env coll) docs dw of
       Inl e \<Rightarrow> spool_documents E C V env coll docs w (d(p \<mapsto> x), s) = (Inl e, w', d(p \<mapsto> x'), s)
     | Inr dw' \<Rightarrow> spool_documents E C V env coll docs w (d(p \<mapsto> x), s) = (Inr (), w', d(p \<mapsto> x'), s)
         \<and> spooled C (sv_encoder V) gz_on p x' pend' w' dw')"
  using assms(2)
proof (induction docs arbitrary: x pend w dw)
  case Nil
  moreover from this have "bw_sink w = Spool p pend" by (simp add: spooled_def)
  ultimately show ?case by (intro exI [of _ w] exI [of _ x] exI [of _ pend]) simp
next
  case (Cons doc docs)
  have sink: "bw_sink w = Spool p pend" using Cons.prems by (simp add: spooled_def)
  show ?case
  proof (cases "dumped_document E env coll doc")
    case (Inl e)
    with sink show ?thesis by (auto simp: dump_document_via)
  next
    case (Inr out)
    show ?thesis
    proof (cases out)
      case None
      then have "spool_documents E C V env coll (doc # docs) w st = spool_documents E C V env coll docs w st"
        "each_doc (dump_document E C env coll) (doc # docs) dw = each_doc (dump_document E C env coll) docs dw" for st
        using Inr by (simp_all add: dump_document_via [of E C env coll doc])
      then show ?thesis using Cons.IH [OF Cons.prems] by (simp only:)
    next
      case (Some o')
      show ?thesis
      proof (cases "write_document C o' dw")
        case (Inl e)
        then have "bw_write C (sv_os V) (sv_encoder V) o' w (d(p \<mapsto> x), s) = (Inl e, w, d(p \<mapsto> x), s)"
          by (rule spooled_write_refused)
        with Inl Inr Some sink show ?thesis by (auto simp: dump_document_via [of E C env coll doc])
      next
        case (Inr dw')
        from spooled_write [OF assms(1) Cons.prems Inr, of d s] obtain x' pend' w' where w':
          "bw_write C (sv_os V) (sv_encoder V) o' w (d(p \<mapsto> x), s) = (Inr (), w', d(p \<mapsto> x'), s)"
          "spooled C (sv_encoder V) gz_on p x' pend' w' dw'" .
        then have "spool_documents E C V env coll (doc # docs) w (d(p \<mapsto> x), s) =
            spool_documents E C V env coll docs w' (d(p \<mapsto> x'), s)"
          "each_doc (dump_document E C env coll) (doc # docs) dw = each_doc (dump_document E C env coll) docs dw'"
          using Inr Some \<open>dumped_document E env coll doc = Inr out\<close>
          by (simp_all add: dump_document_via [of E C env coll doc])
        then show ?thesis using Cons.IH [OF w'(2)] by (simp only:)
      qed
    qed
  qed
qed

section \<open>A collection\<close>

text \<open>
  How the spooling run of a collection begins, and how it ends after the documents: with the error of a
  document or of the cursor, after which the writer is dropped, or with the upload.
\<close>

definition after_documents :: "('s, 'z) spooling \<Rightarrow> nat \<Rightarrow> error option \<Rightarrow> unit res \<times> ('s, 'z) blob_writer \<times> disk \<times> 's
    \<Rightarrow> (nat \<times> nat) res \<times> nat \<times> disk \<times> 's" where
  "after_documents V seq end_error q =
     (case q of
        (Inl e, w, st) \<Rightarrow> (Inl e, seq, bw_drop (sv_os V) (sv_encoder V) w st)
      | (Inr u, w, st) \<Rightarrow>
          (case end_error of
             Some e \<Rightarrow> (Inl e, seq, bw_drop (sv_os V) (sv_encoder V) w st)
           | None \<Rightarrow> (case bw_finish (sv_os V) (sv_encoder V) (sv_put_file V) w st of
                       (r, st3) \<Rightarrow> (map_sum id (Pair (bw_count w)) r, seq, st3))))"

text \<open>
  What a run over an undisturbed disk relies on: the storage takes local files as it takes blobs and has no
  uploads in parts, and the encoder makes of the documents, one after another, what it makes of all of them.
\<close>

locale spooling_writer = file_upload "sv_put_file V" S for V :: "('s, 'z) spooling" and S :: "'s storage" +
  fixes C :: codec
  assumes undisturbed: "quiet (sv_os V)"
    and no_parts: "sv_multipart V path s = (Inr None, s)"
    and encoder: "\<forall>doc \<in> set docs. enc_doc C doc \<noteq> None \<Longrightarrow>
      gz_emits (sv_encoder V) (map (encoding C) docs) (ge_new (sv_encoder V)) = gz C (blob_of C docs)"
begin

lemma finish_sim:
  assumes "spooled C (sv_encoder V) gz_on p x pend w dw"
  shows "bw_finish (sv_os V) (sv_encoder V) (sv_put_file V) w (d(p \<mapsto> x), s) =
    (case writer_finish C S dw s of
       (Inl e, s') \<Rightarrow> (Inl e, d(p \<mapsto> if gz_on then gz C (dw_raw dw) else dw_raw dw), s')
     | (Inr n, s') \<Rightarrow> (Inr n, d(p := None), s'))"
proof -
  from assms obtain ws where ws: "dw_raw dw = blob_of C ws" "\<forall>doc \<in> set ws. enc_doc C doc \<noteq> None"
    "x @ pend @ rest_of_blob C (sv_encoder V) [] (bw_encoder w) =
      rest_of_blob C (sv_encoder V) ws (if gz_on then Some (ge_new (sv_encoder V)) else None)"
    unfolding spooled_def by (metis append_Nil2)
  have sink: "bw_sink w = Spool p pend" "bw_target w = dw_path dw" "dw_gzip dw = gz_on"
    using assms by (simp_all add: spooled_def)
  have blob: "x @ pend @ rest_of_blob C (sv_encoder V) [] (bw_encoder w) =
      (if gz_on then gz C (dw_raw dw) else dw_raw dw)"
    unfolding ws(3) using encoder [OF ws(2)] ws(1) by (simp add: rest_of_blob_def)
  show ?thesis
    unfolding finish_spooled [OF undisturbed sink(1), where C = C] blob
    by (auto simp: writer_finish_def sink Let_def split: prod.splits sum.splits)
qed

lemma spool_collection_opened:
  assumes "ms_stream (du_source env) db coll (kv_get coll (du_filters env)) = (docs, end_error)"
  shows "spool_collection E C V env did tmp db coll (seq, d, s) =
    (let gz_on = do_gzip (du_options env); p = spool_path tmp (sv_pid V) seq db coll;
         w = open_writer (sv_encoder V) gz_on (in_dump did (data_path db coll gz_on)) (Spool p [])
     in after_documents V (seq + 1) end_error (spool_documents E C V env coll docs w (d(p \<mapsto> []), s)))"
proof -
  have "bw_create (sv_os V) (sv_encoder V) (sv_multipart V) tmp p path gz_on (d, s) =
      (Inr (open_writer (sv_encoder V) gz_on path (Spool p [])), d(p \<mapsto> []), s)" for p path gz_on
    by (simp add: bw_create_def no_parts quiet_ops [OF undisturbed])
  moreover have "next_seq V tmp path (seq, d, s) = seq + 1" for path
    by (simp add: next_seq_def no_parts quiet_ops [OF undisturbed])
  ultimately show ?thesis
    by (simp add: spool_collection_def after_documents_def assms Let_def split: prod.split sum.split option.split)
qed

lemma collection_sim:
  assumes free: "d (spool_path tmp (sv_pid V) seq db coll) = None"
    and dump: "dump_collection E C S env did db coll s = (r, s')"
  shows "\<exists>d'. spool_collection E C V env did tmp db coll (seq, d, s) = (r, seq + 1, d', s')
    \<and> (d' = d \<or> (\<exists>e blob. r = Inl e \<and> d' = d(spool_path tmp (sv_pid V) seq db coll \<mapsto> blob)))"
proof -
  let ?p = "spool_path tmp (sv_pid V) seq db coll" and ?gz = "do_gzip (du_options env)"
  let ?path = "in_dump did (data_path db coll ?gz)" and ?G = "sv_encoder V"
  let ?each = "each_doc (dump_document E C env coll)"
  obtain docs end_error where stream:
    "ms_stream (du_source env) db coll (kv_get coll (du_filters env)) = (docs, end_error)" by (rule prod.exhaust)
  note opened = spool_collection_opened [OF stream, of E did tmp seq d s, unfolded Let_def]
  have gone: "(d(?p \<mapsto> x))(?p := None) = d" for x using free by auto
  have dropped: "bw_drop (sv_os V) ?G w' (d(?p \<mapsto> x), s) = (d, s)" if "bw_sink w' = Spool ?p q" for w' x q
    using bw_drop_spool [OF that, of "sv_os V" ?G "d(?p \<mapsto> x)" s] gone quiet_ops [OF undisturbed] by simp
  from spool_documents_sim [OF undisturbed spooled_open [of C ?G ?gz ?p ?path], of E env coll docs d s]
  obtain w' x' q where w': "bw_sink w' = Spool ?p q" and sim: "case ?each docs (writer_create ?path ?gz) of
       Inl e \<Rightarrow> spool_documents E C V env coll docs (open_writer ?G ?gz ?path (Spool ?p [])) (d(?p \<mapsto> []), s) =
         (Inl e, w', d(?p \<mapsto> x'), s)
     | Inr dw' \<Rightarrow> spool_documents E C V env coll docs (open_writer ?G ?gz ?path (Spool ?p [])) (d(?p \<mapsto> []), s) =
         (Inr (), w', d(?p \<mapsto> x'), s) \<and> spooled C ?G ?gz ?p x' q w' dw'" by blast
  show ?thesis
  proof (cases "(\<exists>e. ?each docs (writer_create ?path ?gz) = Inl e) \<or> end_error \<noteq> None")
    case True
    with dump sim dropped [OF w'] show ?thesis unfolding opened
      by (cases "?each docs (writer_create ?path ?gz)")
        (auto simp: after_documents_def dump_collection_def stream_each_def stream Let_def)
  next
    case False
    then obtain dw' where dw': "?each docs (writer_create ?path ?gz) = Inr dw'" and no_end: "end_error = None"
      by (cases "?each docs (writer_create ?path ?gz)") auto
    with sim have docs: "spooled C ?G ?gz ?p x' q w' dw'" by simp
    then have count: "bw_count w' = dw_count dw'" by (simp add: spooled_def)
    obtain z s1 where fin: "writer_finish C S dw' s = (z, s1)" by (rule prod.exhaust)
    have "(r, s') = (map_sum id (Pair (dw_count dw')) z, s1)"
      using dump dw' no_end fin by (cases z) (simp_all add: dump_collection_def stream_each_def stream Let_def)
    then show ?thesis
      unfolding opened using finish_sim [OF docs, of d s] sim dw' no_end fin count gone
      by (cases z) (auto simp: after_documents_def)
  qed
qed

end

section \<open>A run\<close>

text \<open>No writer from the counter on finds a file of its name.\<close>

definition names_free :: "('s, 'z) spooling \<Rightarrow> string \<Rightarrow> nat \<Rightarrow> disk \<Rightarrow> bool" where
  "names_free V tmp seq d = (\<forall>n db coll. seq \<le> n \<longrightarrow> d (spool_path tmp (sv_pid V) n db coll) = None)"

definition spool_files :: "('s, 'z) spooling \<Rightarrow> string \<Rightarrow> string set" where
  "spool_files V tmp = {spool_path tmp (sv_pid V) n db coll | n db coll. True}"

lemma names_free_step:
  "names_free V tmp seq d \<Longrightarrow> names_free V tmp (seq + 1) d"
  "names_free V tmp seq d \<Longrightarrow> names_free V tmp (seq + 1) (d(spool_path tmp (sv_pid V) seq db coll \<mapsto> blob))"
  using spool_path_inject [of tmp "sv_pid V"] by (fastforce simp: names_free_def)+

context spooling_writer begin

lemma item_sim:
  assumes free: "names_free V tmp seq d" and item: "dump_item E C S env did it s = (r, s')"
  shows "\<exists>d'. spool_item E C S V env did tmp it (seq, d, s) = (r, seq + 1, d', s')
    \<and> (d' = d \<or> (\<exists>e blob. r = Inl e \<and> d' = d(spool_path tmp (sv_pid V) seq (wi_db it) (wi_coll it) \<mapsto> blob)))"
proof -
  obtain q s1 where q: "dump_collection E C S env did (wi_db it) (wi_coll it) s = (q, s1)" by (rule prod.exhaust)
  from free have "d (spool_path tmp (sv_pid V) seq (wi_db it) (wi_coll it)) = None" by (simp add: names_free_def)
  from collection_sim [where d = d and seq = seq and tmp = tmp, OF this q] obtain d' where
    sim: "spool_collection E C V env did tmp (wi_db it) (wi_coll it) (seq, d, s) = (q, seq + 1, d', s1)"
      "d' = d \<or> (\<exists>e blob. q = Inl e \<and> d' = d(spool_path tmp (sv_pid V) seq (wi_db it) (wi_coll it) \<mapsto> blob))"
    by blast
  show ?thesis
    using item sim by (cases q) (auto simp: dump_item_def spool_item_def q Let_def split: sum.splits prod.splits)
qed

lemma items_sim:
  assumes "names_free V tmp seq d" "dump_sequential E C S env did its s = (rs, s')"
  shows "\<exists>seq' d'. spool_items E C S V env did tmp its (seq, d, s) = (rs, seq', d', s')
    \<and> (\<forall>p. p \<notin> spool_files V tmp \<longrightarrow> d' p = d p)
    \<and> ((\<forall>r \<in> set rs. \<forall>e. r \<noteq> Some (Inl e)) \<longrightarrow> d' = d)"
  using assms
proof (induction its arbitrary: seq d s s' rs)
  case (Cons it its)
  obtain r s1 where one: "dump_item E C S env did it s = (r, s1)" by (rule prod.exhaust)
  obtain rs1 s2 where rest: "dump_sequential E C S env did its s1 = (rs1, s2)" by (rule prod.exhaust)
  have res: "rs = Some r # rs1" "s' = s2" using Cons.prems(2) one rest by simp_all
  from item_sim [OF Cons.prems(1) one] obtain d1 where d1:
    "spool_item E C S V env did tmp it (seq, d, s) = (r, seq + 1, d1, s1)"
    "d1 = d \<or> (\<exists>e blob. r = Inl e \<and> d1 = d(spool_path tmp (sv_pid V) seq (wi_db it) (wi_coll it) \<mapsto> blob))" by blast
  then have free: "names_free V tmp (seq + 1) d1" using names_free_step [OF Cons.prems(1)] by auto
  have other: "d1 p = d p" if "p \<notin> spool_files V tmp" for p using d1(2) that by (auto simp: spool_files_def)
  from Cons.IH [OF free rest] obtain seq' d' where d':
    "spool_items E C S V env did tmp its (seq + 1, d1, s1) = (rs1, seq', d', s2)"
    "\<forall>p. p \<notin> spool_files V tmp \<longrightarrow> d' p = d1 p" "(\<forall>r \<in> set rs1. \<forall>e. r \<noteq> Some (Inl e)) \<longrightarrow> d' = d1" by blast
  show ?case
    using d1 d' other by (intro exI [of _ seq'] exI [of _ d']) (auto simp: res)
qed simp

lemma run_sim:
  assumes tmp: "do_tmp_dir (du_options env) = Some tmp" and free: "names_free V tmp seq d"
    and jobs: "do_parallel_jobs (du_options env) \<le> 1"
    and run: "dump_run E C S env par did created s = (r, s')"
  shows "\<exists>seq' d'. spool_run E C S V env did created (seq, d, s) = (r, seq', d', s')
    \<and> (\<forall>p. p \<notin> spool_files V tmp \<longrightarrow> d' p = d p) \<and> (isl r \<or> d' = d)"
proof (cases "tmp = [] \<or> isl (enumerate_items env)")
  case True
  then show ?thesis
    using run tmp by (cases "enumerate_items env") (auto simp: dump_run_def spool_run_def tmp_dir_set_def)
next
  case False
  then obtain names items where en: "enumerate_items env = Inr (names, items)"
    by (cases "enumerate_items env") auto
  obtain rs s1 where rs: "dump_sequential E C S env did items s = (rs, s1)" by (rule prod.exhaust)
  have results: "item_results E C S env did par items s = (rs, s1)" using jobs rs by (simp add: item_results_def)
  from items_sim [OF free rs] obtain seq' d' where d':
    "spool_items E C S V env did tmp items (seq, d, s) = (rs, seq', d', s1)"
    "\<forall>p. p \<notin> spool_files V tmp \<longrightarrow> d' p = d p" "(\<forall>r \<in> set rs. \<forall>e. r \<noteq> Some (Inl e)) \<longrightarrow> d' = d" by blast
  let ?col = "collect_results items rs 0 (replicate (length names) [])"
  have "spool_run E C S V env did created (seq, d, s) = (r, seq', d', s')"
    using run tmp False
    by (cases ?col) (auto simp: dump_run_def spool_run_def tmp_dir_set_def en results d'(1) Let_def
        split: prod.splits sum.splits)
  moreover have "isl r \<or> d' = d"
  proof (cases ?col)
    case (Inl e)
    then show ?thesis using run tmp False by (auto simp: dump_run_def tmp_dir_set_def en results)
  next
    case (Inr c)
    have "\<forall>it \<in> set items. wi_db_index it < length names" using enumerate_items_index [OF en] by blast
    then have "\<forall>r \<in> set rs. \<forall>e. r \<noteq> Some (Inl e)"
      using collect_results_spec [of items rs 0 "replicate (length names) []" "fst c" "snd c"] Inr
        dump_sequential_length [OF rs] by simp
    with d'(3) show ?thesis by blast
  qed
  ultimately show ?thesis using d'(2) by blast
qed

end

section \<open>The directory backend\<close>

text \<open>An encoder that keeps everything until its end.\<close>

definition whole_encoder :: "codec \<Rightarrow> bytes gzip_encoder" where
  "whole_encoder C = \<lparr>ge_new = [], ge_write = (\<lambda>bs z. ([], z @ bs)), ge_end = gz C\<rparr>"

lemma whole_encoder_emits: "gz_emits (whole_encoder C) chunks z = gz C (z @ concat chunks)"
  by (induction chunks arbitrary: z) (simp_all add: whole_encoder_def)

definition dir_spooling :: "codec \<Rightarrow> (fsys, bytes) spooling" where
  "dir_spooling C =
     \<lparr>sv_os = quiet_os, sv_encoder = whole_encoder C, sv_put_file = dir_put_file quiet_os,
      sv_multipart = (\<lambda>path s. (Inr None, s)), sv_pid = 1\<rparr>"

interpretation spooled_dir: spooling_writer "dir_spooling C" dir_storage C for C
proof (intro spooling_writer.intro spooling_writer_axioms.intro)
  show "file_upload (sv_put_file (dir_spooling C)) dir_storage"
    using dir_put_file_uploads by (simp add: dir_spooling_def)
qed (simp_all add: dir_spooling_def whole_encoder_emits blob_of_def, simp add: whole_encoder_def)

section \<open>Properties\<close>

text \<open>
  C19. A dump with one job through the spooling writer is the dump: for every storage that takes local files as it takes blobs
  and has no uploads in parts, on a disk without faults, a run gives the same result and leaves the same
  storage as the run that keeps the blobs in memory, whatever documents it refuses and wherever it
  stops. It touches no file but spool files of its own process, and after a success not even one of
  those is left.
\<close>

theorem spool_run_refines:
  assumes "spooling_writer V S C" and "do_tmp_dir (du_options env) = Some tmp"
    and "names_free V tmp seq d" "do_parallel_jobs (du_options env) \<le> 1"
    and "dump_run E C S env par did created s = (r, s')"
  shows "\<exists>seq' d'. spool_run E C S V env did created (seq, d, s) = (r, seq', d', s')
    \<and> (\<forall>p. p \<notin> spool_files V tmp \<longrightarrow> d' p = d p) \<and> (isl r \<or> d' = d)"
  by (rule spooling_writer.run_sim [OF assms])

definition gzip_env :: dump_env where
  "gzip_env = sample_env\<lparr>du_options := sample_dump_options\<lparr>do_include_collections := [''c''], do_gzip := True\<rparr>\<rparr>"

theorem spool_run_refines_witness:
  "\<exists>meta seq' fs. spool_run sample_ext sample_codec dir_storage (dir_spooling sample_codec) gzip_env ''x'' ''now''
      (5, [''/tmp/other'' \<mapsto> [1]], []) = (Inr meta, seq', [''/tmp/other'' \<mapsto> [1]], fs)"
proof -
  let ?run = "dump_run sample_ext sample_codec dir_storage gzip_env (\<lambda>items jobs s. ([], s)) ''x'' ''now'' []"
  let ?d = "[''/tmp/other'' \<mapsto> [1]] :: disk"
  have "\<not> isl (fst ?run)" by code_simp
  then obtain meta fs where run: "?run = (Inr meta, fs)" by (cases ?run; cases "fst ?run") auto
  have env: "do_tmp_dir (du_options gzip_env) = Some ''/tmp''" "do_parallel_jobs (du_options gzip_env) \<le> 1"
    by code_simp+
  have free: "names_free (dir_spooling sample_codec) ''/tmp'' 5 ?d"
    by (simp add: names_free_def spool_path_def spool_name_def slash_def)
  from spool_run_refines [OF spooled_dir.spooling_writer_axioms env(1) free env(2) run] show ?thesis by auto
qed

end
